(* ===== verification/Prelude.thy ===== *)
theory Prelude
  imports "HOL-Library.Word"
begin

unbundle bit_operations_syntax

text \<open>
  Shared vocabulary of the development: the widths of the C types, C strings, byte buffers,
  bounded copies, and the generic list and word facts the components use. A C string is the
  list of its bytes before the terminating NUL; a buffer is the list of its initialised bytes.
\<close>

section \<open>C types\<close>

type_synonym byte = "8 word"
type_synonym u32 = "32 word"
type_synonym u64 = "64 word"
type_synonym fd = int
type_synonym cstring = "byte list"
type_synonym slot_idx = nat

text \<open>What an operation does not touch; components add to it and \<open>simp add: frame_simps\<close> reads it off.\<close>

named_theorems frame_simps \<open>fields an operation leaves alone\<close>

section \<open>Buffers and strings\<close>

text \<open>\<open>memcpy(buf + off, d, |d|)\<close> on the initialised part of a buffer.\<close>

definition buf_write :: "byte list \<Rightarrow> nat \<Rightarrow> byte list \<Rightarrow> byte list" where
  "buf_write buf off d = take off buf @ d @ drop (off + length d) buf"

text \<open>\<open>memcmp(a, b, n) == 0\<close>.\<close>

definition mem_eq :: "byte list \<Rightarrow> byte list \<Rightarrow> nat \<Rightarrow> bool" where
  "mem_eq a b n \<longleftrightarrow> take n a = take n b"

text \<open>The C string held by a character buffer: the bytes before the first NUL.\<close>

definition cstr :: "byte list \<Rightarrow> cstring" where
  "cstr buf = takeWhile (\<lambda>b. b \<noteq> 0) buf"

text \<open>
  \<open>strncpy(dst, src, n - 1); dst[n - 1] = 0\<close> and \<open>snprintf(dst, n, "%s", src)\<close>: both leave
  the first \<open>n - 1\<close> bytes of the string.
\<close>

definition str_bounded :: "nat \<Rightarrow> cstring \<Rightarrow> cstring" where
  "str_bounded n s = take (n - 1) s"

lemma buf_write_0 [simp]: "buf_write buf 0 d = d @ drop (length d) buf"
  by (simp add: buf_write_def)

lemma take_buf_write [simp]: "n \<le> length d \<Longrightarrow> take n (buf_write buf 0 d) = take n d"
  by simp

lemma length_buf_write: "off + length d \<le> length buf \<Longrightarrow> length (buf_write buf off d) = length buf"
  by (simp add: buf_write_def)

lemma buf_write_append:
  assumes "off \<le> length buf"
  shows "take (off + length d) (buf_write buf off d) = take off buf @ d"
  using assms by (simp add: buf_write_def)

lemma cstr_no_nul [simp]: "0 \<notin> set (cstr buf)"
  unfolding cstr_def by (auto dest: set_takeWhileD)

lemma cstr_id [simp]: "0 \<notin> set s \<Longrightarrow> cstr s = s"
  unfolding cstr_def by (simp add: takeWhile_eq_all_conv) metis

lemma length_cstr_le: "length (cstr buf) \<le> length buf"
  unfolding cstr_def by (rule length_takeWhile_le)

lemma length_str_bounded: "0 < n \<Longrightarrow> length (str_bounded n s) < n"
  by (simp add: str_bounded_def)

lemma str_bounded_id [simp]: "length s < n \<Longrightarrow> str_bounded n s = s"
  by (simp add: str_bounded_def)

section \<open>Lists\<close>

lemma take_Suc_drop: "n < length xs \<Longrightarrow> drop n xs = xs ! n # drop (Suc n) xs"
  by (simp add: Cons_nth_drop_Suc)

lemma take_nth_drop_append: "take n xs @ take m (drop n xs) = take (n + m) xs"
  by (simp add: take_add)

lemma take_eq_prefix: "take n xs = ys \<Longrightarrow> length ys = n \<Longrightarrow> n \<le> length xs"
  by (metis length_take min.cobounded2 min.cobounded1 min_def)

lemma nth_in_set_take: "i < n \<Longrightarrow> i < length xs \<Longrightarrow> xs ! i \<in> set (take n xs)"
  by (metis length_take min_less_iff_conj nth_mem nth_take)

text \<open>The loop \<open>for (i = 0; i < n; i++) if (P(a[i])) return i; return -1;\<close>.\<close>

fun first_index :: "('a \<Rightarrow> bool) \<Rightarrow> 'a list \<Rightarrow> nat option" where
  "first_index P [] = None"
| "first_index P (x # xs) = (if P x then Some 0 else map_option Suc (first_index P xs))"

lemma first_index_Some:
  "first_index P xs = Some i \<longleftrightarrow> i < length xs \<and> P (xs ! i) \<and> (\<forall>j < i. \<not> P (xs ! j))"
proof (induction xs arbitrary: i)
  case (Cons x xs)
  show ?case
  proof (cases i)
    case (Suc k)
    have "(\<forall>j < Suc k. \<not> P ((x # xs) ! j)) \<longleftrightarrow> \<not> P x \<and> (\<forall>j < k. \<not> P (xs ! j))"
      by (auto simp: less_Suc_eq_0_disj)
    with Suc Cons show ?thesis by auto
  qed simp
qed simp

lemma first_index_None: "first_index P xs = None \<longleftrightarrow> (\<forall>x \<in> set xs. \<not> P x)"
  by (induction xs) simp_all

lemma first_index_SomeD:
  "first_index P xs = Some i \<Longrightarrow> i < length xs \<and> P (xs ! i)"
  by (simp add: first_index_Some)

section \<open>C arithmetic\<close>

text \<open>C's \<open>%\<close> on signed integers truncates towards zero: the sign is that of the dividend.\<close>

definition c_rem :: "int \<Rightarrow> int \<Rightarrow> int" where
  "c_rem a b = sgn a * (\<bar>a\<bar> mod \<bar>b\<bar>)"

lemma c_rem_nonneg: "0 \<le> a \<Longrightarrow> 0 < b \<Longrightarrow> c_rem a b = a mod b"
  by (cases "a = 0") (simp_all add: c_rem_def)

lemma c_rem_neg: "a < 0 \<Longrightarrow> 0 < b \<Longrightarrow> c_rem a b = - ((- a) mod b)"
  by (simp add: c_rem_def)

section \<open>Words\<close>

lemma byte_less_256 [simp]: "unat (b :: byte) < 256"
  using unsigned_less [where ?'a = nat and w = b] by simp

lemma unat_byte_of_nat: "n < 256 \<Longrightarrow> unat (of_nat n :: byte) = n"
  by (simp add: unat_of_nat)

lemma byte_eq_of_nat_iff: "n < 256 \<Longrightarrow> b = (of_nat n :: byte) \<longleftrightarrow> unat b = n"
  by (metis unat_byte_of_nat word_of_nat_eq_iff unsigned_word_eqI)

text \<open>Reading a small unsigned value back through a C \<open>int\<close> is the value itself.\<close>

lemma sint_u32_of_nat: "n < 2 ^ 31 \<Longrightarrow> sint (of_nat n :: u32) = int n"
  by (simp add: signed_of_nat signed_take_bit_int_eq_self)

lemma uint_u32_sint: "uint x = sint x mod 2 ^ 32" for x :: u32
proof -
  have "uint x = uint (word_of_int (sint x) :: u32)" by simp
  also have "\<dots> = sint x mod 2 ^ 32" unfolding uint_word_of_int by simp
  finally show ?thesis .
qed

lemma sint_u32_high:
  fixes x :: u32
  assumes "2 ^ 31 \<le> unat x"
  shows "sint x = int (unat x) - 2 ^ 32"
proof -
  have r: "- (2 ^ 31) \<le> sint x" "sint x < 2 ^ 31"
    using sint_greater_eq [of x] sint_less [of x] by simp_all
  have u: "int (unat x) = sint x mod 2 ^ 32" using uint_u32_sint [of x] by (simp add: unat_eq_nat_uint)
  have "sint x < 0"
  proof (rule ccontr)
    assume "\<not> sint x < 0"
    then have "int (unat x) = sint x" using u r by (simp add: mod_pos_pos_trivial)
    moreover have "(2 :: int) ^ 31 \<le> int (unat x)" using of_nat_mono [OF assms, where ?'a = int] by simp
    ultimately show False using r(2) by linarith
  qed
  then have "sint x mod 2 ^ 32 = sint x + 2 ^ 32"
    using r(1) mod_pos_pos_trivial [of "sint x + 2 ^ 32" "2 ^ 32"] by simp
  then show ?thesis using u by simp
qed

lemma u32_of_nat_inject:
  "n < 2 ^ 32 \<Longrightarrow> m < 2 ^ 32 \<Longrightarrow> (of_nat n :: u32) = of_nat m \<longleftrightarrow> n = m"
  by (simp add: word_of_nat_eq_iff take_bit_nat_eq_self)

text \<open>A bit of an unsigned word that is smaller than \<open>2 ^ k\<close> is clear from \<open>k\<close> upwards.\<close>

lemma bit_word_less_pow:
  fixes w :: "'a :: len word"
  assumes "unat w < 2 ^ k" and "k \<le> n"
  shows "\<not> bit w n"
proof -
  have "unat w < 2 ^ n"
    using assms by (meson less_le_trans one_le_numeral power_increasing)
  then have "take_bit n (unat w) = unat w"
    by (simp add: take_bit_nat_eq_self_iff)
  then have "\<not> bit (unat w) n"
    by (metis bit_take_bit_iff less_irrefl)
  then show ?thesis
    by (simp add: bit_unsigned_iff bit_word_def [symmetric] possible_bit_word)
qed

lemma bit_push_bit_1: "bit (push_bit k (1 :: u64)) n \<longleftrightarrow> n = k \<and> k < 64"
  by (auto simp: push_bit_of_1 bit_exp_iff possible_bit_word)

lemma bit_low32: "bit (0xFFFFFFFF :: u64) n \<longleftrightarrow> n < 32"
proof -
  have m: "(0xFFFFFFFF :: u64) = mask 32" by (simp add: mask_eq_exp_minus_1)
  show ?thesis unfolding m bit_mask_iff by (auto simp: possible_bit_word)
qed

lemma ucast_low32: "(ucast (x AND 0xFFFFFFFF :: u64) :: u32) = ucast x"
  by (rule bit_word_eqI) (unfold bit_unsigned_iff bit_and_iff bit_low32, auto)

end
