(* ===== verification/Socks5_Protocol.thy ===== *)
theory Socks5_Protocol
  imports Prelude
begin

unbundle bit_operations_syntax

text \<open>
  The protocol functions of \<open>socks5_protocol.c\<close>: method negotiation, RFC 1929 credentials,
  the request header, the UDP datagram header (parse and encode), the reply, the UDP-in-TCP
  length field and address normalisation. C functions that answer 0 or 1 are predicates;
  those that answer -1 on a violation keep their integer result or return an option. A
  pointer result (the address field of a parsed datagram) is its offset in the datagram.
\<close>

section \<open>Constants\<close>

definition SOCKS5_ATYP_IPV4 :: byte where "SOCKS5_ATYP_IPV4 = 0x01"
definition SOCKS5_ATYP_DOMAIN :: byte where "SOCKS5_ATYP_DOMAIN = 0x03"
definition SOCKS5_ATYP_IPV6 :: byte where "SOCKS5_ATYP_IPV6 = 0x04"

lemmas atyp_defs = SOCKS5_ATYP_IPV4_def SOCKS5_ATYP_DOMAIN_def SOCKS5_ATYP_IPV6_def

section \<open>Handshake predicates\<close>

fun socks5_method_offered :: "byte list \<Rightarrow> nat \<Rightarrow> byte \<Rightarrow> bool" where
  "socks5_method_offered methods 0 desired = False"
| "socks5_method_offered [] (Suc n) desired = False"
| "socks5_method_offered (m # ms) (Suc n) desired =
     (if m = desired then True else socks5_method_offered ms n desired)"

definition socks5_check_credentials ::
  "byte list \<Rightarrow> byte \<Rightarrow> byte list \<Rightarrow> byte \<Rightarrow> cstring \<Rightarrow> cstring \<Rightarrow> bool" where
  "socks5_check_credentials user ulen pass plen expected_user expected_pass =
     (let user_ok = (ulen = of_nat (length expected_user)) \<and> mem_eq user expected_user (unat ulen);
          pass_ok = (plen = of_nat (length expected_pass)) \<and> mem_eq pass expected_pass (unat plen)
      in user_ok \<and> pass_ok)"

text \<open>The caller hands over at least the four bytes VER, CMD, RSV, ATYP.\<close>

definition socks5_validate_request_header :: "byte list \<Rightarrow> int" where
  "socks5_validate_request_header req =
     (if req ! 0 \<noteq> 0x05 then -1
      else if req ! 2 \<noteq> 0x00 then -1
      else if req ! 3 \<noteq> 0x01 \<and> req ! 3 \<noteq> 0x03 \<and> req ! 3 \<noteq> 0x04 then -1
      else 0)"

definition socks5_is_supported_cmd :: "byte \<Rightarrow> bool" where
  "socks5_is_supported_cmd cmd \<longleftrightarrow> cmd = 0x01 \<or> cmd = 0x03 \<or> cmd = 0x04"

definition socks5_request_addr_len :: "byte \<Rightarrow> byte \<Rightarrow> int" where
  "socks5_request_addr_len atyp first_byte =
     (if atyp = SOCKS5_ATYP_IPV4 then 4
      else if atyp = SOCKS5_ATYP_IPV6 then 16
      else if atyp = SOCKS5_ATYP_DOMAIN then (if 1 \<le> unat first_byte then int (unat first_byte) else -1)
      else -1)"

section \<open>UDP datagrams\<close>

record udp_hdr =
  hdr_len :: nat
  hdr_atyp :: byte
  hdr_addr :: nat           \<comment> \<open>offset of the address field in the datagram\<close>
  hdr_port :: "byte list"   \<comment> \<open>two bytes, network order\<close>

definition socks5_udp_parse :: "byte list \<Rightarrow> nat \<Rightarrow> udp_hdr option" where
  "socks5_udp_parse dgram len =
     (if len < 4 then None
      else if dgram ! 0 \<noteq> 0 \<or> dgram ! 1 \<noteq> 0 then None
      else if dgram ! 2 \<noteq> 0 then None
      else let t = dgram ! 3 in
        if t = SOCKS5_ATYP_IPV4 then
          (if len < 10 then None
           else Some \<lparr>hdr_len = 10, hdr_atyp = t, hdr_addr = 4, hdr_port = take 2 (drop 8 dgram)\<rparr>)
        else if t = SOCKS5_ATYP_IPV6 then
          (if len < 22 then None
           else Some \<lparr>hdr_len = 22, hdr_atyp = t, hdr_addr = 4, hdr_port = take 2 (drop 20 dgram)\<rparr>)
        else if t = SOCKS5_ATYP_DOMAIN then
          (if len < 5 then None
           else let dl = dgram ! 4 in
             if dl = 0 then None
             else if len < 5 + unat dl + 2 then None
             else Some \<lparr>hdr_len = 5 + unat dl + 2, hdr_atyp = t, hdr_addr = 4,
                         hdr_port = take 2 (drop (5 + unat dl) dgram)\<rparr>)
        else None)"

text \<open>
  The encoders write at a pointer and answer how many bytes they wrote; here they answer the
  bytes, whose length is that number.
\<close>

definition encode_addr_port :: "bool \<Rightarrow> byte list \<Rightarrow> byte list \<Rightarrow> byte list" where
  "encode_addr_port is_v6 addr port =
     (if \<not> is_v6 then [SOCKS5_ATYP_IPV4] @ take 4 addr @ take 2 port
      else [SOCKS5_ATYP_IPV6] @ take 16 addr @ take 2 port)"

definition socks5_udp_encode :: "bool \<Rightarrow> byte list \<Rightarrow> byte list \<Rightarrow> byte list" where
  "socks5_udp_encode is_v6 addr port = [0, 0, 0] @ encode_addr_port is_v6 addr port"

definition socks5_encode_reply :: "byte \<Rightarrow> bool \<Rightarrow> byte list \<Rightarrow> byte list \<Rightarrow> byte list" where
  "socks5_encode_reply rep is_v6 addr port = [0x05, rep, 0x00] @ encode_addr_port is_v6 addr port"

definition socks5_udp_tcp_frame_len :: "byte list \<Rightarrow> int \<Rightarrow> int" where
  "socks5_udp_tcp_frame_len len_field max_len =
     (let dlen = push_bit 8 (uint (len_field ! 0)) OR uint (len_field ! 1)
      in if dlen < 4 \<or> dlen > max_len then -1 else dlen)"

definition socks5_addr_normalize :: "byte list \<Rightarrow> bool \<Rightarrow> byte list" where
  "socks5_addr_normalize src is_v6 =
     (let z = replicate 16 (0 :: byte)
      in if \<not> is_v6 then buf_write (z[10 := 0xff, 11 := 0xff]) 12 (take 4 src)
         else buf_write z 0 (take 16 src))"

section \<open>Method negotiation and credentials\<close>

lemma socks5_method_offered_iff:
  "socks5_method_offered methods n desired \<longleftrightarrow> desired \<in> set (take n methods)"
  by (induction methods n desired rule: socks5_method_offered.induct) auto

text \<open>
  Credentials are accepted exactly when the offered user and password are the configured
  ones, byte for byte, for every configuration the server can hold (both shorter than the
  256-byte buffers). In particular neither a prefix nor an empty value is let through.
\<close>

lemma credentials_exact:
  assumes "length expected_user < 256" and "length expected_pass < 256"
    and "unat ulen \<le> length user" and "unat plen \<le> length pass"
  shows "socks5_check_credentials user ulen pass plen expected_user expected_pass \<longleftrightarrow>
           take (unat ulen) user = expected_user \<and> take (unat plen) pass = expected_pass"
proof -
  have field: "(l = of_nat (length e) \<and> mem_eq b e (unat l)) \<longleftrightarrow> take (unat l) b = e"
    if "length e < 256" "unat l \<le> length b" for e b :: "byte list" and l :: byte
    using that by (auto simp: byte_eq_of_nat_iff mem_eq_def)
  show ?thesis
    using field [OF assms(1,3)] field [OF assms(2,4)]
    by (simp add: socks5_check_credentials_def Let_def)
qed

lemma credentials_exact_witness:
  "socks5_check_credentials [0x61, 0x62, 0x63] 2 [0x7a] 1 [0x61, 0x62] [0x7a] \<and>
   \<not> socks5_check_credentials [0x61, 0x62, 0x63] 3 [0x7a] 1 [0x61, 0x62] [0x7a]"
  using credentials_exact [of "[0x61, 0x62]" "[0x7a]" 2 "[0x61, 0x62, 0x63]" 1 "[0x7a]"]
    credentials_exact [of "[0x61, 0x62]" "[0x7a]" 3 "[0x61, 0x62, 0x63]" 1 "[0x7a]"]
  by simp

text \<open>Without the length bound the one-byte truncation of \<open>strlen\<close> lets an empty user in.\<close>

lemma credentials_length_truncation:
  "length u = 256 \<Longrightarrow> socks5_check_credentials [] 0 [0x7a] 1 u [0x7a]"
  by (simp add: socks5_check_credentials_def mem_eq_def)

text \<open>
  The request header check accepts exactly the headers with version 5, a zero reserved
  byte and one of the three address types, whatever the command byte is; and for an accepted
  header the address length function answers a positive length, except for a domain whose
  length byte is zero, which it rejects.
\<close>

lemma request_header_gate:
  "(socks5_validate_request_header [v, c, r, a] = 0 \<longleftrightarrow>
      v = 0x05 \<and> r = 0x00 \<and> a \<in> {SOCKS5_ATYP_IPV4, SOCKS5_ATYP_DOMAIN, SOCKS5_ATYP_IPV6}) \<and>
   (socks5_validate_request_header [v, c, r, a] = 0 \<or> socks5_validate_request_header [v, c, r, a] = -1) \<and>
   (0 < socks5_request_addr_len a fb \<longleftrightarrow>
      a = SOCKS5_ATYP_IPV4 \<or> a = SOCKS5_ATYP_IPV6 \<or> (a = SOCKS5_ATYP_DOMAIN \<and> fb \<noteq> 0)) \<and>
   socks5_request_addr_len a fb \<le> 255"
proof -
  have "uint fb \<le> 255" using uint_lt2p [of fb] by simp
  moreover have "(1 \<le> unat fb) = (fb \<noteq> 0)" by (simp add: Suc_le_eq unat_gt_0)
  moreover have "(0 < uint fb) = (fb \<noteq> 0)" by (simp add: uint_0_iff less_le)
  ultimately show ?thesis
    by (auto simp: socks5_validate_request_header_def socks5_request_addr_len_def atyp_defs)
qed

section \<open>Round trips\<close>

lemma length_encode_addr_port:
  assumes "length port = 2" and "length addr = (if is_v6 then 16 else 4)"
  shows "length (encode_addr_port is_v6 addr port) = (if is_v6 then 19 else 7)"
  using assms by (simp add: encode_addr_port_def)

lemma length_socks5_udp_encode:
  assumes "length port = 2" and "length addr = (if is_v6 then 16 else 4)"
  shows "length (socks5_udp_encode is_v6 addr port) = (if is_v6 then 22 else 10)"
  using length_encode_addr_port [OF assms] by (simp add: socks5_udp_encode_def)

lemma length_socks5_encode_reply:
  assumes "length port = 2" and "length addr = (if is_v6 then 16 else 4)"
  shows "length (socks5_encode_reply rep is_v6 addr port) = (if is_v6 then 22 else 10)"
  using length_encode_addr_port [OF assms] by (simp add: socks5_encode_reply_def)

text \<open>
  C23. Parsing an encoded UDP datagram gives back the address family, address and port, and the
  payload starts right after the header: the parser inverts the encoder for IPv4 and IPv6 and
  for every payload.
\<close>

theorem udp_encode_parse:
  assumes "length port = 2" and "length addr = (if is_v6 then 16 else 4)"
    and d: "d = socks5_udp_encode is_v6 addr port @ payload"
  shows "\<exists>h. socks5_udp_parse d (length d) = Some h \<and>
             hdr_atyp h = (if is_v6 then SOCKS5_ATYP_IPV6 else SOCKS5_ATYP_IPV4) \<and>
             take (length addr) (drop (hdr_addr h) d) = addr \<and>
             hdr_port h = port \<and> drop (hdr_len h) d = payload"
proof (cases is_v6)
  case True
  then have "d = 0 # 0 # 0 # SOCKS5_ATYP_IPV6 # addr @ port @ payload"
    using assms by (simp add: socks5_udp_encode_def encode_addr_port_def)
  with True assms(1,2) show ?thesis
    by (auto simp: socks5_udp_parse_def Let_def atyp_defs nth_Cons' drop_Cons')
next
  case False
  then have "d = 0 # 0 # 0 # SOCKS5_ATYP_IPV4 # addr @ port @ payload"
    using assms by (simp add: socks5_udp_encode_def encode_addr_port_def)
  with False assms(1,2) show ?thesis
    by (auto simp: socks5_udp_parse_def Let_def atyp_defs nth_Cons' drop_Cons')
qed

theorem udp_encode_parse_witness:
  "\<exists>h. socks5_udp_parse (socks5_udp_encode False [8, 8, 4, 4] [0, 53] @ [1, 2])
         (length (socks5_udp_encode False [8, 8, 4, 4] [0, 53] @ [1, 2])) = Some h \<and>
       hdr_port h = [0, 53] \<and>
       drop (hdr_len h) (socks5_udp_encode False [8, 8, 4, 4] [0, 53] @ [1, 2]) = [1, 2]"
  using udp_encode_parse [of "[0, 53]" "[8, 8, 4, 4]" False _ "[1, 2]"] by auto

text \<open>
  C24. Memory safety of the datagram parser: it succeeds only when the header fits in the
  received length, and it never looks past that length, so stale bytes of the reused receive
  buffer cannot change its answer.
\<close>

theorem udp_parse_safe:
  assumes "len \<le> length dgram"
  shows "socks5_udp_parse dgram len = socks5_udp_parse (take len dgram) len \<and>
         (\<forall>h. socks5_udp_parse dgram len = Some h \<longrightarrow>
            hdr_len h \<le> len \<and> 7 < hdr_len h \<and> hdr_addr h = 4 \<and> length (hdr_port h) = 2 \<and>
            hdr_port h = take 2 (drop (hdr_len h - 2) dgram))"
proof -
  have "take 2 (drop k dgram) = take 2 (drop k (take len dgram))" if "k + 2 \<le> len" for k
    using that by (simp add: drop_take)
  then have "socks5_udp_parse dgram len = socks5_udp_parse (take len dgram) len"
    by (auto simp: socks5_udp_parse_def Let_def)
  moreover have "dgram ! 4 \<noteq> 0 \<Longrightarrow> 0 < unat (dgram ! 4)" by (simp add: unat_gt_0)
  ultimately show ?thesis
    using assms by (auto simp: socks5_udp_parse_def Let_def split: if_splits)
qed

theorem udp_parse_safe_witness:
  "socks5_udp_parse [0, 0, 0, 3, 1, 0x61, 0, 80, 9, 9] 9 =
     socks5_udp_parse (take 9 [0, 0, 0, 3, 1, 0x61, 0, 80, 9, 9]) 9 \<and>
   (\<exists>h. socks5_udp_parse [0, 0, 0, 3, 1, 0x61, 0, 80, 9, 9] 9 = Some h \<and> hdr_len h = 8)"
proof -
  have "\<exists>h. socks5_udp_parse [0, 0, 0, 3, 1, 0x61, 0, 80, 9, 9] 9 = Some h \<and> hdr_len h = 8"
    by (simp add: socks5_udp_parse_def Let_def atyp_defs)
  then show ?thesis
    using udp_parse_safe [of 9 "[0, 0, 0, 3, 1, 0x61, 0, 80, 9, 9]"] by simp
qed

text \<open>
  The two address families share one canonical form: normalisation is injective on each
  family, and a v4 address meets exactly its v4-mapped v6 form.
\<close>

lemma addr_normalize_v4:
  "length a = 4 \<Longrightarrow> socks5_addr_normalize a False = replicate 10 0 @ [0xff, 0xff] @ a"
  by (simp add: socks5_addr_normalize_def buf_write_def Let_def numeral_eq_Suc)

lemma addr_normalize_v6:
  "length a = 16 \<Longrightarrow> socks5_addr_normalize a True = a"
  by (simp add: socks5_addr_normalize_def)

text \<open>
  C25. Address normalisation decides address equality across families: two v4 addresses meet
  only if equal, two v6 addresses only if equal, and a v4 and a v6 address exactly when the
  v6 one is the v4-mapped form.
\<close>

theorem addr_normalize_canonical:
  assumes "length a4 = 4" "length b4 = 4" "length a6 = 16" "length b6 = 16"
  shows "(socks5_addr_normalize a4 False = socks5_addr_normalize b4 False \<longleftrightarrow> a4 = b4) \<and>
         (socks5_addr_normalize a6 True = socks5_addr_normalize b6 True \<longleftrightarrow> a6 = b6) \<and>
         (socks5_addr_normalize a4 False = socks5_addr_normalize a6 True \<longleftrightarrow>
            take 12 a6 = replicate 10 0 @ [0xff, 0xff] \<and> drop 12 a6 = a4)"
proof -
  have "replicate 10 0 @ [0xff, 0xff] @ a4 = a6 \<longleftrightarrow>
        take 12 a6 = replicate 10 0 @ [0xff, 0xff] \<and> drop 12 a6 = a4"
    using append_eq_conv_conj [of "replicate 10 0 @ [0xff, 0xff]" a4 a6] by (auto simp: eq_commute)
  then show ?thesis
    using assms by (simp add: addr_normalize_v4 addr_normalize_v6)
qed

theorem addr_normalize_canonical_witness:
  "socks5_addr_normalize [10, 0, 0, 1] False =
     socks5_addr_normalize (replicate 10 0 @ [0xff, 0xff, 10, 0, 0, 1]) True \<and>
   socks5_addr_normalize [10, 0, 0, 1] False \<noteq> socks5_addr_normalize [10, 0, 0, 2] False"
proof -
  note c = addr_normalize_canonical [of "[10, 0, 0, 1]" "[10, 0, 0, 2]"
      "replicate 10 0 @ [0xff, 0xff, 10, 0, 0, 1]" "replicate 16 0"]
  have "socks5_addr_normalize [10, 0, 0, 1] False \<noteq> socks5_addr_normalize [10, 0, 0, 2] False"
    using c [THEN conjunct1] by simp
  moreover have "socks5_addr_normalize [10, 0, 0, 1] False =
     socks5_addr_normalize (replicate 10 0 @ [0xff, 0xff, 10, 0, 0, 1]) True"
    using c by simp
  ultimately show ?thesis by (rule conjI [rotated])
qed

section \<open>The UDP-in-TCP length field\<close>

lemma shift_or_byte: "push_bit 8 (uint (a :: byte)) OR uint (b :: byte) = 256 * uint a + uint b"
proof -
  have "uint b < 256" using uint_lt2p [of b] by simp
  then have "push_bit 8 (uint a) OR uint b = push_bit 8 (uint a) + uint b"
    by (intro disjunctive_add [symmetric])
      (auto simp: bit_push_bit_iff bit_uint_iff)
  then show ?thesis by (simp add: push_bit_eq_mult)
qed

text \<open>
  The frame length is the big-endian value of the two bytes, accepted exactly between 4
  and the limit; at the 64 KiB buffer the worker passes, the upper limit can never be
  exceeded, so the only rejected lengths are 0 to 3.
\<close>

lemma frame_len_range:
  "socks5_udp_tcp_frame_len [a, b] m =
     (let v = 256 * uint a + uint b in if 4 \<le> v \<and> v \<le> m then v else -1) \<and>
   (socks5_udp_tcp_frame_len [a, b] 65536 = -1 \<longleftrightarrow> a = 0 \<and> uint b < 4)"
proof -
  have "uint a < 256" "uint b < 256"
    using uint_lt2p [of a] uint_lt2p [of b] by simp_all
  moreover have "\<not> 256 * uint a + uint b < 4" if "a \<noteq> 0"
  proof -
    have "uint a \<noteq> 0" using that by (simp add: uint_0_iff)
    then have "1 \<le> uint a" "0 \<le> uint b"
      using uint_ge_0 [of a] uint_ge_0 [of b] by linarith+
    then show ?thesis by linarith
  qed
  moreover have "uint a = 0 \<longleftrightarrow> a = 0" by (simp add: uint_0_iff)
  ultimately show ?thesis
    by (auto simp: socks5_udp_tcp_frame_len_def Let_def shift_or_byte)
qed

end
