(* ===== verification/Event_Codec.thy ===== *)
theory Event_Codec
  imports Prelude
begin

unbundle bit_operations_syntax

text \<open>
  The epoll event identifiers. Both engines register a descriptor under
  \<open>(gen << 32) | slot\<close> with a role flag in the low word, and both decode an event back into
  slot, generation and role before they touch a slot. The locale states what the workers rely
  on; \<open>Conn_State\<close> and \<open>Udp_Conn\<close> interpret it on the code of \<open>conn_state.c\<close> and \<open>udp_conn.c\<close>.
\<close>

section \<open>The shared identifier\<close>

text \<open>\<open>((uint64_t)gen << 32) | (uint32_t)slot\<close>, as the handoff and the UDP session setup write it.\<close>

definition ep_u64_of :: "u32 \<Rightarrow> nat \<Rightarrow> u64" where
  "ep_u64_of gen slot = push_bit 32 (ucast gen) OR ucast (of_nat slot :: u32)"

lemma bit_ep_u64_of:
  "bit (ep_u64_of gen slot) n \<longleftrightarrow>
     n < 64 \<and> (if n < 32 then bit (of_nat slot :: u32) n else bit gen (n - 32))"
  by (auto simp: ep_u64_of_def bit_simps dest: bit_imp_le_length)

lemma ep_low: "(ucast (ep_u64_of gen slot) :: u32) = of_nat slot"
  by (rule bit_word_eqI) (simp add: bit_simps bit_ep_u64_of)

lemma ep_high: "(ucast (drop_bit 32 (ep_u64_of gen slot)) :: u32) = gen"
  by (rule bit_word_eqI) (simp add: bit_simps bit_ep_u64_of)

section \<open>The interface\<close>

locale event_codec =
  fixes enc :: "u32 \<Rightarrow> nat \<Rightarrow> 'role \<Rightarrow> u64"
    and dec :: "u64 \<Rightarrow> u32 \<times> u32 \<times> 'role"
    and slot_limit :: nat
  assumes limit_31: "slot_limit \<le> 2 ^ 31"
    and roundtrip: "slot < slot_limit \<Longrightarrow> dec (enc gen slot r) = (of_nat slot, gen, r)"
begin

text \<open>An event names one slot, one generation and one role.\<close>

lemma enc_inject:
  assumes "slot < slot_limit" and "slot' < slot_limit"
  shows "enc gen slot r = enc gen' slot' r' \<longleftrightarrow> gen = gen' \<and> slot = slot' \<and> r = r'"
proof
  assume "enc gen slot r = enc gen' slot' r'"
  then have "(of_nat slot :: u32, gen, r) = (of_nat slot', gen', r')"
    using roundtrip [OF assms(1)] roundtrip [OF assms(2)] by metis
  moreover have "slot < 2 ^ 32" "slot' < 2 ^ 32" using assms limit_31 by simp_all
  ultimately show "gen = gen' \<and> slot = slot' \<and> r = r'"
    by (simp add: u32_of_nat_inject)
qed simp

text \<open>The slot of a registered event, read as a C \<open>int\<close>, is the slot that was registered.\<close>

lemma dec_slot_int:
  assumes "slot < slot_limit"
  shows "sint (fst (dec (enc gen slot r))) = int slot"
  using assms limit_31 by (simp add: roundtrip sint_u32_of_nat)

end

end
