(* ===== verification/Udp_Conn.thy ===== *)
theory Udp_Conn
  imports Event_Codec
begin

unbundle bit_operations_syntax

text \<open>
  \<open>udp_conn.c\<close>: decoding and validation of the UDP engine's epoll events, with three
  descriptor roles per session, and the idle test.
\<close>

definition UDP_CONN_MAGIC :: u32 where "UDP_CONN_MAGIC = 0x5EEDF00E"
definition UDP_EV_ROLE_LOCAL_FLAG :: u64 where "UDP_EV_ROLE_LOCAL_FLAG = push_bit 31 1"
definition UDP_EV_ROLE_REMOTE_FLAG :: u64 where "UDP_EV_ROLE_REMOTE_FLAG = push_bit 30 1"
definition UDP_EV_ROLE_MASK :: u64 where
  "UDP_EV_ROLE_MASK = UDP_EV_ROLE_LOCAL_FLAG OR UDP_EV_ROLE_REMOTE_FLAG"
definition UDP_EV_DNS_WAKE :: u64 where "UDP_EV_DNS_WAKE = 0xFFFFFFFFFFFFFFFF"

datatype udp_fd_role = UDP_ROLE_CLIENT | UDP_ROLE_LOCAL | UDP_ROLE_REMOTE

datatype udp_event_disp = UDP_EV_PROCESS | UDP_EV_INACTIVE | UDP_EV_STALE | UDP_EV_NOT_READY

definition udp_event_is_dns_wake :: "u64 \<Rightarrow> bool" where
  "udp_event_is_dns_wake raw \<longleftrightarrow> raw = UDP_EV_DNS_WAKE"

definition udp_event_bad_slot :: "int \<Rightarrow> int \<Rightarrow> bool" where
  "udp_event_bad_slot sidx slot_count \<longleftrightarrow> sidx < 0 \<or> sidx \<ge> slot_count"

definition udp_event_decode :: "u64 \<Rightarrow> u32 \<times> u32 \<times> udp_fd_role" where
  "udp_event_decode raw =
     (let role_bits = raw AND UDP_EV_ROLE_MASK;
          role = (if role_bits = UDP_EV_ROLE_LOCAL_FLAG then UDP_ROLE_LOCAL
                  else if role_bits = UDP_EV_ROLE_REMOTE_FLAG then UDP_ROLE_REMOTE
                  else UDP_ROLE_CLIENT);
          key = raw AND NOT UDP_EV_ROLE_MASK
      in (ucast (key AND 0xFFFFFFFF), ucast (drop_bit 32 key), role))"

definition udp_event_check_slot ::
  "u32 \<Rightarrow> u32 \<Rightarrow> u32 \<Rightarrow> bool \<Rightarrow> bool \<Rightarrow> bool \<Rightarrow> udp_event_disp" where
  "udp_event_check_slot egen gen_now magic slot_state closed registered =
     (if \<not> slot_state then UDP_EV_INACTIVE
      else if egen \<noteq> gen_now \<or> magic \<noteq> UDP_CONN_MAGIC then UDP_EV_STALE
      else if closed \<or> \<not> registered then UDP_EV_NOT_READY
      else UDP_EV_PROCESS)"

definition udp_conn_idle_expired :: "int \<Rightarrow> int \<Rightarrow> int \<Rightarrow> bool" where
  "udp_conn_idle_expired now last_active timeout_sec =
     (if last_active = 0 then False else now - last_active > timeout_sec)"

text \<open>The identifiers the session setup registers its two or three descriptors under.\<close>

definition udp_ev_id :: "u32 \<Rightarrow> nat \<Rightarrow> udp_fd_role \<Rightarrow> u64" where
  "udp_ev_id gen slot role =
     (case role of UDP_ROLE_CLIENT \<Rightarrow> ep_u64_of gen slot
      | UDP_ROLE_LOCAL \<Rightarrow> ep_u64_of gen slot OR UDP_EV_ROLE_LOCAL_FLAG
      | UDP_ROLE_REMOTE \<Rightarrow> ep_u64_of gen slot OR UDP_EV_ROLE_REMOTE_FLAG)"

section \<open>Decoding inverts registration\<close>

lemma bit_role_flags:
  "bit UDP_EV_ROLE_LOCAL_FLAG n \<longleftrightarrow> n = 31"
  "bit UDP_EV_ROLE_REMOTE_FLAG n \<longleftrightarrow> n = 30"
  "bit UDP_EV_ROLE_MASK n \<longleftrightarrow> n = 31 \<or> n = 30"
  unfolding UDP_EV_ROLE_LOCAL_FLAG_def UDP_EV_ROLE_REMOTE_FLAG_def UDP_EV_ROLE_MASK_def
      bit_or_iff bit_push_bit_1 by auto

lemma slot_bits_30_31:
  assumes "slot < 2 ^ 30"
  shows "\<not> bit (of_nat slot :: u32) 30" and "\<not> bit (of_nat slot :: u32) 31"
  by (rule bit_word_less_pow [of _ 30], use assms in \<open>simp_all add: unat_of_nat\<close>)+

lemma udp_decode_id:
  assumes "slot < 2 ^ 30"
  shows "udp_event_decode (udp_ev_id gen slot r) = (of_nat slot, gen, r)"
proof -
  let ?e = "ep_u64_of gen slot" and ?raw = "udp_ev_id gen slot r"
  let ?flag = "case r of UDP_ROLE_CLIENT \<Rightarrow> 0 | UDP_ROLE_LOCAL \<Rightarrow> UDP_EV_ROLE_LOCAL_FLAG
                 | UDP_ROLE_REMOTE \<Rightarrow> UDP_EV_ROLE_REMOTE_FLAG"
  have e: "\<not> bit ?e 30" "\<not> bit ?e 31"
    using slot_bits_30_31 [OF assms] by (simp_all add: bit_ep_u64_of)
  have raw: "bit ?raw n \<longleftrightarrow> bit ?e n \<or> bit ?flag n" for n
    by (simp add: udp_ev_id_def bit_or_iff split: udp_fd_role.split)
  have flag: "bit ?flag n \<Longrightarrow> n = 31 \<or> n = 30" for n
    by (cases r) (simp_all add: bit_role_flags)
  have role: "?raw AND UDP_EV_ROLE_MASK = ?flag"
    by (rule bit_word_eqI) (use raw e flag in \<open>auto simp: bit_and_iff bit_role_flags\<close>)
  have key: "?raw AND NOT UDP_EV_ROLE_MASK = ?e"
    by (rule bit_word_eqI) (use raw e flag in \<open>auto simp: bit_and_iff bit_not_iff bit_role_flags\<close>)
  have "UDP_EV_ROLE_LOCAL_FLAG \<noteq> 0" "UDP_EV_ROLE_REMOTE_FLAG \<noteq> 0"
       "UDP_EV_ROLE_LOCAL_FLAG \<noteq> UDP_EV_ROLE_REMOTE_FLAG"
    by (simp_all add: UDP_EV_ROLE_LOCAL_FLAG_def UDP_EV_ROLE_REMOTE_FLAG_def)
  then show ?thesis
    by (simp add: udp_event_decode_def Let_def role key ucast_low32 ep_low ep_high split: udp_fd_role.split)
qed

interpretation udp_ids: event_codec udp_ev_id udp_event_decode "2 ^ 30"
  by unfold_locales (simp_all add: udp_decode_id)

section \<open>Properties\<close>

lemma slot_bit_clear_29: "slot < 2 ^ 29 \<Longrightarrow> \<not> bit (udp_ev_id gen slot r) 29"
  using bit_word_less_pow [of "of_nat slot :: u32" 29 29]
  by (cases r) (simp_all add: udp_ev_id_def bit_or_iff bit_role_flags bit_ep_u64_of unat_of_nat)

text \<open>
  The three descriptors of a UDP session have pairwise different identifiers that decode to
  their session and role; none of them is the wake-up identifier of the resolver, whatever the
  generation (also after it wraps), and none is the shutdown identifier 0 unless slot 0 has
  generation 0.
\<close>

theorem udp_event_roundtrip:
  assumes "slot < 2 ^ 29"
  shows "udp_event_decode (udp_ev_id gen slot r) = (of_nat slot, gen, r) \<and>
         (udp_ev_id gen slot r = udp_ev_id gen slot r' \<longleftrightarrow> r = r') \<and>
         \<not> udp_event_is_dns_wake (udp_ev_id gen slot r) \<and>
         (udp_ev_id gen slot r = 0 \<longrightarrow> gen = 0 \<and> slot = 0)"
proof -
  have s: "slot < 2 ^ 30" using assms by simp
  have "bit UDP_EV_DNS_WAKE 29" by (simp add: UDP_EV_DNS_WAKE_def)
  then have wake: "udp_ev_id gen slot r \<noteq> UDP_EV_DNS_WAKE"
    using slot_bit_clear_29 [OF assms] by metis
  have zero: "gen = 0 \<and> slot = 0" if "udp_ev_id gen slot r = 0"
  proof -
    have "udp_event_decode 0 = (of_nat slot, gen, r)"
      using udp_decode_id [OF s, of gen r] that by simp
    then have "of_nat slot = (of_nat 0 :: u32)" "gen = 0"
      by (simp_all add: udp_event_decode_def Let_def)
    then show ?thesis using s u32_of_nat_inject [of slot 0] by simp
  qed
  show ?thesis
    using udp_decode_id [OF s, of gen r] udp_ids.enc_inject [OF s s, of gen r gen r'] wake zero
    by (auto simp: udp_event_is_dns_wake_def)
qed

theorem udp_event_roundtrip_witness:
  "udp_event_decode (udp_ev_id 3 1087 UDP_ROLE_REMOTE) = (1087, 3, UDP_ROLE_REMOTE) \<and>
   \<not> udp_event_is_dns_wake (udp_ev_id 0xFFFFFFFF 1087 UDP_ROLE_LOCAL)"
  using udp_event_roundtrip [of 1087 3 UDP_ROLE_REMOTE UDP_ROLE_LOCAL]
    udp_event_roundtrip [of 1087 "0xFFFFFFFF" UDP_ROLE_LOCAL UDP_ROLE_LOCAL] by simp

lemma udp_check_process:
  "udp_event_check_slot e g m st cl reg = UDP_EV_PROCESS \<longleftrightarrow>
     st \<and> e = g \<and> m = UDP_CONN_MAGIC \<and> \<not> cl \<and> reg"
  by (auto simp: udp_event_check_slot_def)

end
