(* ===== verification/Udp_Dns.thy ===== *)
theory Udp_Dns
  imports Prelude
begin

text \<open>
  \<open>udp_dns.c\<close>: the bookkeeping of asynchronous name resolution. A worker owns a table of
  resolution jobs, a session owns a few parked frames. An index result \<open>-1\<close> is \<open>None\<close>.
\<close>

definition UDP_DNS_HOST_MAX :: nat where "UDP_DNS_HOST_MAX = 256"
definition UDP_DNS_JOB_COUNT :: nat where "UDP_DNS_JOB_COUNT = 32"
definition UDP_DNS_PEND_SLOTS :: nat where "UDP_DNS_PEND_SLOTS = 2"
definition UDP_DNS_PEND_FRAME_MAX :: nat where "UDP_DNS_PEND_FRAME_MAX = 1280"

datatype udp_dns_state = UDP_DNS_FREE | UDP_DNS_INFLIGHT | UDP_DNS_DONE_OK | UDP_DNS_DONE_FAIL

record udp_dns_job =
  j_state :: udp_dns_state
  j_host :: cstring
  j_port :: "byte list"
  j_ip :: cstring

record udp_dns_pend =
  p_used :: bool
  p_host :: cstring
  p_port :: "byte list"
  p_len :: nat
  p_payload :: "byte list"

definition udp_dns_job_find :: "udp_dns_job list \<Rightarrow> nat \<Rightarrow> cstring \<Rightarrow> nat option" where
  "udp_dns_job_find jobs n host =
     (if n = 0 \<or> host = [] then None
      else first_index (\<lambda>j. j_state j \<noteq> UDP_DNS_FREE \<and> j_host j = host) (take n jobs))"

definition udp_dns_job_alloc :: "udp_dns_job list \<Rightarrow> nat \<Rightarrow> nat option" where
  "udp_dns_job_alloc jobs n =
     (if n = 0 then None else first_index (\<lambda>j. j_state j = UDP_DNS_FREE) (take n jobs))"

definition udp_dns_pend_count :: "udp_dns_pend list \<Rightarrow> nat \<Rightarrow> nat" where
  "udp_dns_pend_count pend n =
     (if n = 0 then 0 else foldl (\<lambda>c p. if p_used p then Suc c else c) 0 (take n pend))"

definition udp_dns_pend_free_slot :: "udp_dns_pend list \<Rightarrow> nat \<Rightarrow> nat option" where
  "udp_dns_pend_free_slot pend n =
     (if n = 0 then None else first_index (\<lambda>p. \<not> p_used p) (take n pend))"

definition udp_dns_hold_ok :: "nat \<Rightarrow> bool" where
  "udp_dns_hold_ok payload_len =
     (if payload_len = 0 then False else payload_len \<le> UDP_DNS_PEND_FRAME_MAX)"

section \<open>Facts\<close>

lemma foldl_count: "foldl (\<lambda>c p. if P p then Suc c else c) c ps = c + length (filter P ps)"
  by (induction ps arbitrary: c) simp_all

lemma udp_dns_pend_count_eq:
  "udp_dns_pend_count pend n = length (filter p_used (take n pend))"
  by (simp add: udp_dns_pend_count_def foldl_count)

lemma udp_dns_job_find_Some:
  "udp_dns_job_find jobs n host = Some i \<Longrightarrow>
     i < n \<and> i < length jobs \<and> j_state (jobs ! i) \<noteq> UDP_DNS_FREE \<and> j_host (jobs ! i) = host \<and> host \<noteq> []"
  by (auto simp: udp_dns_job_find_def first_index_Some split: if_splits)

lemma udp_dns_job_find_None:
  "udp_dns_job_find jobs n host = None \<Longrightarrow> host \<noteq> [] \<Longrightarrow> i < n \<Longrightarrow> i < length jobs \<Longrightarrow>
     j_state (jobs ! i) \<noteq> UDP_DNS_FREE \<Longrightarrow> j_host (jobs ! i) \<noteq> host"
  using nth_in_set_take [of i n jobs]
  by (auto simp: udp_dns_job_find_def first_index_None split: if_splits)

lemma udp_dns_job_alloc_Some:
  "udp_dns_job_alloc jobs n = Some i \<Longrightarrow> i < n \<and> i < length jobs \<and> j_state (jobs ! i) = UDP_DNS_FREE"
  by (auto simp: udp_dns_job_alloc_def first_index_Some split: if_splits)

lemma udp_dns_pend_free_slot_Some:
  "udp_dns_pend_free_slot pend n = Some i \<Longrightarrow> i < n \<and> i < length pend \<and> \<not> p_used (pend ! i)"
  by (auto simp: udp_dns_pend_free_slot_def first_index_Some split: if_splits)

lemma udp_dns_pend_free_slot_iff:
  "udp_dns_pend_free_slot pend n = None \<longleftrightarrow> udp_dns_pend_count pend n = length (take n pend)"
proof -
  have "(\<forall>p \<in> set (take n pend). p_used p) \<longleftrightarrow>
        length (filter p_used (take n pend)) = length (take n pend)"
    by (metis filter_id_conv length_filter_less less_irrefl)
  then show ?thesis
    by (auto simp: udp_dns_pend_free_slot_def udp_dns_pend_count_eq first_index_None)
qed

end
