(* ===== verification/Os.thy ===== *)
theory Os
  imports Prelude
begin

unbundle bit_operations_syntax

text \<open>
  The interface to the operating system and to the Java side. The kernel is not part of the
  program, so what it answers is an argument: the record below holds, per descriptor, the
  results the next calls will get, and the theorems hold for all of them. A call consumes its
  result; an exhausted receive or send queue answers \<open>EAGAIN\<close>, an exhausted \<open>epoll_ctl\<close> or
  \<open>malloc\<close> queue answers success. Every effect the program has on the outside world is
  appended to \<open>o_log\<close>, in program order.

  Documented behaviour that is built in: \<open>recv\<close> and \<open>send\<close> transfer at most what was asked
  for, unread stream data stays readable, end of file is sticky, \<open>MSG_PEEK\<close> does not consume,
  and a datagram longer than the buffer is cut.
\<close>

section \<open>Constants\<close>

definition EAGAIN :: int where "EAGAIN = 11"
definition EWOULDBLOCK :: int where "EWOULDBLOCK = 11"
definition AF_INET :: int where "AF_INET = 2"
definition AF_INET6 :: int where "AF_INET6 = 10"
definition EPOLLIN :: u32 where "EPOLLIN = 0x001"
definition EPOLLOUT :: u32 where "EPOLLOUT = 0x004"
definition EPOLLERR :: u32 where "EPOLLERR = 0x008"
definition EPOLLHUP :: u32 where "EPOLLHUP = 0x010"
definition EPOLLRDHUP :: u32 where "EPOLLRDHUP = 0x2000"

lemmas epoll_defs = EPOLLIN_def EPOLLOUT_def EPOLLERR_def EPOLLHUP_def EPOLLRDHUP_def

text \<open>\<open>errno == EAGAIN || errno == EWOULDBLOCK\<close>.\<close>

definition would_block :: "int \<Rightarrow> bool" where
  "would_block e \<longleftrightarrow> e = EAGAIN \<or> e = EWOULDBLOCK"

lemma would_block_EAGAIN [simp]: "would_block EAGAIN"
  by (simp add: would_block_def)

section \<open>Addresses, results, effects\<close>

record sockaddr =
  sa_family :: int
  sa_addr :: "byte list"
  sa_port :: "byte list"

datatype rres = RData "byte list" | REof | RErr int
datatype dres = DData "byte list" sockaddr | DErr int

datatype ctl_op = CTL_ADD | CTL_MOD | CTL_DEL

datatype sysev =
    SEND fd "byte list"
  | SENDTO fd "byte list" sockaddr
  | CLOSE fd
  | SHUTDOWN fd
  | JAVA_RELEASE fd
  | CTL ctl_op fd fd u32 u64
  | WAKE fd

record os =
  o_now :: int                                \<comment> \<open>\<open>time(NULL)\<close>\<close>
  o_recv :: "fd \<Rightarrow> rres list"
  o_send :: "fd \<Rightarrow> (int \<times> int) list"         \<comment> \<open>return value and errno\<close>
  o_dgram :: "fd \<Rightarrow> dres list"
  o_sendto :: "(int \<times> int) list"
  o_ctl :: "bool list"
  o_malloc :: "bool list"
  o_socket :: "(int \<times> int) list"              \<comment> \<open>descriptors from \<open>socket()\<close>\<close>
  o_java :: "(int \<times> int) list"                \<comment> \<open>descriptors from \<open>request_java_5g_socket\<close>\<close>
  o_fstat :: "fd \<Rightarrow> (u64 \<times> u64) option"      \<comment> \<open>device and inode\<close>
  o_procfd :: "fd list option"                \<comment> \<open>numeric entries of \<open>/proc/self/fd\<close>\<close>
  o_mono_ms :: int                            \<comment> \<open>\<open>CLOCK_MONOTONIC\<close> in milliseconds\<close>
  o_sockname :: "fd \<Rightarrow> sockaddr option"
  o_peername :: "fd \<Rightarrow> sockaddr option"
  o_log :: "sysev list"

definition log_ev :: "sysev \<Rightarrow> 'a os_scheme \<Rightarrow> 'a os_scheme" where
  "log_ev e s = s\<lparr>o_log := o_log s @ [e]\<rparr>"

text \<open>The log is only ever appended to.\<close>

definition grew :: "'a os_scheme \<Rightarrow> 'a os_scheme \<Rightarrow> bool" where
  "grew s t \<longleftrightarrow> (\<exists>l. o_log t = o_log s @ l)"

lemma grew_refl [simp]: "grew s s"
  by (simp add: grew_def)

lemma grew_trans: "grew s t \<Longrightarrow> grew t u \<Longrightarrow> grew s u"
  by (auto simp: grew_def)

lemma grew_eq: "o_log t = o_log s \<Longrightarrow> grew s t"
  by (simp add: grew_def)

lemma grew_drop: "grew s t \<Longrightarrow> o_log t = o_log s @ drop (length (o_log s)) (o_log t)"
  by (auto simp: grew_def)

section \<open>Calls\<close>

text \<open>\<open>recv(fd, buf, n, 0)\<close>: return value, bytes, errno.\<close>

definition os_recv :: "'a os_scheme \<Rightarrow> fd \<Rightarrow> nat \<Rightarrow> (int \<times> byte list \<times> int) \<times> 'a os_scheme" where
  "os_recv s f n =
     (case o_recv s f of
        [] \<Rightarrow> ((-1, [], EAGAIN), s)
      | RData bs # q \<Rightarrow>
          ((int (length (take n bs)), take n bs, 0),
           s\<lparr>o_recv := (o_recv s)(f := if drop n bs = [] then q else RData (drop n bs) # q)\<rparr>)
      | REof # q \<Rightarrow> ((0, [], 0), s)
      | RErr e # q \<Rightarrow> ((-1, [], e), s\<lparr>o_recv := (o_recv s)(f := q)\<rparr>))"

text \<open>\<open>recv(fd, buf, 1, MSG_PEEK)\<close>: only the return value is used.\<close>

definition os_peek :: "'a os_scheme \<Rightarrow> fd \<Rightarrow> int" where
  "os_peek s f =
     (case o_recv s f of [] \<Rightarrow> -1 | RData bs # q \<Rightarrow> int (length (take 1 bs)) | REof # q \<Rightarrow> 0
      | RErr e # q \<Rightarrow> -1)"

text \<open>\<open>send(fd, bytes, |bytes|, MSG_NOSIGNAL)\<close>: return value, errno.\<close>

definition os_send :: "'a os_scheme \<Rightarrow> fd \<Rightarrow> byte list \<Rightarrow> (int \<times> int) \<times> 'a os_scheme" where
  "os_send s f bs =
     (case o_send s f of
        [] \<Rightarrow> ((-1, EAGAIN), s)
      | (r, e) # q \<Rightarrow>
          (let s' = s\<lparr>o_send := (o_send s)(f := q)\<rparr>
           in if r > 0 \<and> bs \<noteq> []
              then ((min r (int (length bs)), e), log_ev (SEND f (take (nat r) bs)) s')
              else ((min r 0, e), s')))"

text \<open>\<open>recvfrom\<close> on a datagram socket.\<close>

definition os_recvfrom ::
  "'a os_scheme \<Rightarrow> fd \<Rightarrow> nat \<Rightarrow> (int \<times> byte list \<times> sockaddr \<times> int) \<times> 'a os_scheme" where
  "os_recvfrom s f n =
     (case o_dgram s f of
        [] \<Rightarrow> ((-1, [], \<lparr>sa_family = 0, sa_addr = [], sa_port = []\<rparr>, EAGAIN), s)
      | DData bs a # q \<Rightarrow>
          ((int (length (take n bs)), take n bs, a, 0), s\<lparr>o_dgram := (o_dgram s)(f := q)\<rparr>)
      | DErr e # q \<Rightarrow>
          ((-1, [], \<lparr>sa_family = 0, sa_addr = [], sa_port = []\<rparr>, e), s\<lparr>o_dgram := (o_dgram s)(f := q)\<rparr>))"

text \<open>\<open>sendto\<close>: a datagram is handed over whole or not at all.\<close>

definition os_sendto ::
  "'a os_scheme \<Rightarrow> fd \<Rightarrow> byte list \<Rightarrow> sockaddr \<Rightarrow> (int \<times> int) \<times> 'a os_scheme" where
  "os_sendto s f bs a =
     (case o_sendto s of
        [] \<Rightarrow> ((int (length bs), 0), log_ev (SENDTO f bs a) s)
      | (r, e) # q \<Rightarrow>
          (if r < 0 then ((r, e), s\<lparr>o_sendto := q\<rparr>)
           else ((int (length bs), 0), log_ev (SENDTO f bs a) (s\<lparr>o_sendto := q\<rparr>))))"

definition os_close :: "fd \<Rightarrow> 'a os_scheme \<Rightarrow> 'a os_scheme" where
  "os_close f s = log_ev (CLOSE f) s"

definition release_java_socket :: "fd \<Rightarrow> 'a os_scheme \<Rightarrow> 'a os_scheme" where
  "release_java_socket f s = log_ev (JAVA_RELEASE f) s"

text \<open>\<open>epoll_ctl(...) == 0\<close>.\<close>

definition os_epoll_ctl ::
  "'a os_scheme \<Rightarrow> ctl_op \<Rightarrow> fd \<Rightarrow> fd \<Rightarrow> u32 \<Rightarrow> u64 \<Rightarrow> bool \<times> 'a os_scheme" where
  "os_epoll_ctl s op ep f ev u =
     (case o_ctl s of [] \<Rightarrow> (True, log_ev (CTL op ep f ev u) s)
      | b # q \<Rightarrow> (b, (if b then log_ev (CTL op ep f ev u) else id) (s\<lparr>o_ctl := q\<rparr>)))"

definition os_malloc :: "'a os_scheme \<Rightarrow> bool \<times> 'a os_scheme" where
  "os_malloc s = (case o_malloc s of [] \<Rightarrow> (True, s) | b # q \<Rightarrow> (b, s\<lparr>o_malloc := q\<rparr>))"

definition os_socket :: "'a os_scheme \<Rightarrow> (fd \<times> int) \<times> 'a os_scheme" where
  "os_socket s = (case o_socket s of [] \<Rightarrow> ((-1, EAGAIN), s) | r # q \<Rightarrow> (r, s\<lparr>o_socket := q\<rparr>))"

definition request_java_5g_socket :: "'a os_scheme \<Rightarrow> (fd \<times> int) \<times> 'a os_scheme" where
  "request_java_5g_socket s = (case o_java s of [] \<Rightarrow> ((-1, EAGAIN), s) | r # q \<Rightarrow> (r, s\<lparr>o_java := q\<rparr>))"

section \<open>Reading the log\<close>

text \<open>The bytes a log says were accepted on a stream descriptor, and the datagrams sent.\<close>

fun sent_on :: "fd \<Rightarrow> sysev list \<Rightarrow> byte list" where
  "sent_on f [] = []"
| "sent_on f (SEND g bs # l) = (if g = f then bs @ sent_on f l else sent_on f l)"
| "sent_on f (_ # l) = sent_on f l"

fun dgrams_of :: "sysev list \<Rightarrow> (fd \<times> byte list \<times> sockaddr) list" where
  "dgrams_of [] = []"
| "dgrams_of (SENDTO f bs a # l) = (f, bs, a) # dgrams_of l"
| "dgrams_of (_ # l) = dgrams_of l"

lemma sent_on_append [simp]: "sent_on f (l @ m) = sent_on f l @ sent_on f m"
  by (induction f l rule: sent_on.induct) simp_all

lemma dgrams_of_append [simp]: "dgrams_of (l @ m) = dgrams_of l @ dgrams_of m"
  by (induction l rule: dgrams_of.induct) simp_all

text \<open>What is still readable on a stream, and the size that bounds the receive loops.\<close>

fun stream_of :: "rres list \<Rightarrow> byte list" where
  "stream_of [] = []"
| "stream_of (RData bs # q) = bs @ stream_of q"
| "stream_of (REof # q) = []"
| "stream_of (RErr e # q) = stream_of q"

fun rsize :: "rres list \<Rightarrow> nat" where
  "rsize [] = 0"
| "rsize (RData bs # q) = Suc (length bs) + rsize q"
| "rsize (_ # q) = Suc (rsize q)"

section \<open>Facts about the calls\<close>

lemma log_ev_simps [simp]:
  "o_log (log_ev e s) = o_log s @ [e]" "o_recv (log_ev e s) = o_recv s"
  "o_send (log_ev e s) = o_send s" "o_dgram (log_ev e s) = o_dgram s" "o_now (log_ev e s) = o_now s"
  by (simp_all add: log_ev_def)

lemma os_send_spec:
  assumes "os_send s f bs = ((r, e), s')"
  shows "(r > 0 \<longrightarrow> nat r \<le> length bs \<and> o_log s' = o_log s @ [SEND f (take (nat r) bs)]) \<and>
         (r \<le> 0 \<longrightarrow> o_log s' = o_log s) \<and> o_recv s' = o_recv s \<and> o_now s' = o_now s"
  using assms
  by (auto simp: os_send_def Let_def min_def split: list.splits prod.splits if_splits)

lemma os_send_form:
  assumes "os_send s f bs = ((r, e), s')"
  shows "\<exists>q. s' = s\<lparr>o_send := q, o_log := o_log s @ (if r > 0 then [SEND f (take (nat r) bs)] else [])\<rparr> \<and>
             (r > 0 \<longrightarrow> nat r \<le> length bs)"
  using assms
  by (auto simp: os_send_def log_ev_def Let_def min_def intro: exI [of _ "o_send s"]
      split: list.splits prod.splits if_splits)

lemma o_recv_upd_triv: "o_recv s f = q \<Longrightarrow> s\<lparr>o_recv := (o_recv s)(f := q)\<rparr> = s"
  by (simp add: fun_upd_idem)

lemma os_recv_form:
  assumes "os_recv s f n = ((r, d, e), s')"
  shows "\<exists>q. s' = s\<lparr>o_recv := (o_recv s)(f := q)\<rparr> \<and> stream_of (o_recv s f) = d @ stream_of q \<and>
             length d \<le> n \<and> (r > 0 \<longrightarrow> r = int (length d)) \<and> (r \<le> 0 \<longrightarrow> d = [])"
  by (rule exI [of _ "o_recv s' f"])
    (use assms in \<open>auto simp: os_recv_def o_recv_upd_triv split: list.splits rres.splits if_splits\<close>)

lemma os_recv_spec:
  assumes "os_recv s f n = ((r, d, e), s')"
  shows "r \<le> int n \<and> (r > 0 \<longrightarrow> r = int (length d)) \<and>
         (d \<noteq> [] \<longrightarrow> r = int (length d)) \<and>
         o_log s' = o_log s \<and> o_send s' = o_send s \<and> o_now s' = o_now s \<and>
         (\<forall>g. g \<noteq> f \<longrightarrow> o_recv s' g = o_recv s g) \<and>
         stream_of (o_recv s f) = d @ stream_of (o_recv s' f)"
  using assms
  by (auto simp: os_recv_def min_def split: list.splits rres.splits if_splits)

lemma os_recv_rsize:
  assumes "os_recv s f n = ((r, d, e), s')" and "r > 0"
  shows "rsize (o_recv s' f) < rsize (o_recv s f)"
  using assms
  by (auto simp: os_recv_def split: list.splits rres.splits if_splits)

end
