(* ===== verification/Ghost_Purge.thy ===== *)
theory Ghost_Purge
  imports Os Event_Codec
begin

unbundle bit_operations_syntax

text \<open>
  \<open>ghost_purge.c\<close>: counting the residual events of an identifier, and cutting the underlying
  descriptor out of every worker epoll once there are too many of them. The mutexes make each
  function body one step; log output is not modelled. The compare-and-swap that throttles the
  descriptor scan always succeeds here, because no other thread runs inside the step.
\<close>

definition GHOST_PURGE_THRESHOLD :: int where "GHOST_PURGE_THRESHOLD = 5000"
definition STUCK_TRACK_MASK :: u64 where "STUCK_TRACK_MASK = 511"
definition STAMP_RING_SIZE :: nat where "STAMP_RING_SIZE = 4096"
definition MAX_PURGE_EPOLL_FDS :: nat where "MAX_PURGE_EPOLL_FDS = 8"

record stuck_ent =
  st_u64 :: u64
  st_count :: int
  st_last_log :: int
  st_used :: bool

record stamp_ent =
  sp_u64 :: u64
  sp_client_fd :: fd
  sp_target_fd :: fd
  sp_widx :: nat
  sp_c_ino :: u64
  sp_t_ino :: u64

record ghost = os +
  g_stuck :: "nat \<Rightarrow> stuck_ent"
  g_stamp_ring :: "stamp_ent list"       \<comment> \<open>\<open>STAMP_RING_SIZE\<close> entries\<close>
  g_stamp_ring_pos :: u32
  g_purge_epoll_fds :: "fd list"         \<comment> \<open>the first \<open>g_purge_epoll_count\<close> entries\<close>
  g_ghost_purged :: int
  g_last_scan_ms :: int

section \<open>Decisions\<close>

definition ghost_stuck_should_log :: "int \<Rightarrow> bool" where
  "ghost_stuck_should_log count \<longleftrightarrow>
     count = 32 \<or> count = 200 \<or> count = 1000 \<or> count = 5000 \<or> count = 25000 \<or>
     (count > 25000 \<and> count mod 50000 = 0)"

definition ghost_stuck_should_purge :: "int \<Rightarrow> bool" where
  "ghost_stuck_should_purge count \<longleftrightarrow>
     count = GHOST_PURGE_THRESHOLD \<or>
     (count > GHOST_PURGE_THRESHOLD \<and> count mod GHOST_PURGE_THRESHOLD = 0)"

definition ghost_purge_set_epoll_fds :: "fd list \<Rightarrow> 'a ghost_scheme \<Rightarrow> 'a ghost_scheme" where
  "ghost_purge_set_epoll_fds fds s = s\<lparr>g_purge_epoll_fds := take MAX_PURGE_EPOLL_FDS fds\<rparr>"

definition ghost_purge_reset :: "'a ghost_scheme \<Rightarrow> 'a ghost_scheme" where
  "ghost_purge_reset s = s\<lparr>g_ghost_purged := 0\<rparr>"

section \<open>Stamps\<close>

text \<open>\<open>(st_dev << 32) | st_ino\<close> of an open descriptor; 0 when \<open>fstat\<close> fails or there is none.\<close>

definition fd_identity :: "'a os_scheme \<Rightarrow> fd \<Rightarrow> u64" where
  "fd_identity s f =
     (case (if f \<ge> 0 then o_fstat s f else None) of None \<Rightarrow> 0
      | Some (dev, ino) \<Rightarrow> push_bit 32 dev OR ino)"

definition ghost_stamp_record ::
  "u64 \<Rightarrow> fd \<Rightarrow> fd \<Rightarrow> nat \<Rightarrow> 'a ghost_scheme \<Rightarrow> 'a ghost_scheme" where
  "ghost_stamp_record u client_fd target_fd widx s =
     (let ci = fd_identity s client_fd;
          ti = fd_identity s target_fd;
          pos = unat (g_stamp_ring_pos s AND 4095)
      in s\<lparr>g_stamp_ring_pos := g_stamp_ring_pos s + 1,
           g_stamp_ring := (g_stamp_ring s)
             [pos := \<lparr>sp_u64 = u, sp_client_fd = client_fd, sp_target_fd = target_fd,
                      sp_widx = widx, sp_c_ino = ci, sp_t_ino = ti\<rparr>]\<rparr>)"

definition fd_matches :: "'a os_scheme \<Rightarrow> fd \<Rightarrow> u64 \<Rightarrow> bool" where
  "fd_matches s f ino \<longleftrightarrow>
     f \<ge> 0 \<and> ino \<noteq> 0 \<and> (case o_fstat s f of None \<Rightarrow> False | Some (dev, i) \<Rightarrow> push_bit 32 dev OR i = ino)"

text \<open>\<open>for (w ...) epoll_ctl(g_purge_epoll_fds[w], EPOLL_CTL_DEL, fd)\<close> over a list of descriptors.\<close>

definition del_all :: "fd list \<Rightarrow> fd list \<Rightarrow> sysev list" where
  "del_all eps fds = concat (map (\<lambda>ep. map (\<lambda>f. CTL CTL_DEL ep f 0 0) fds) eps)"

definition stamp_purge :: "u64 \<Rightarrow> 'a ghost_scheme \<Rightarrow> bool \<times> 'a ghost_scheme" where
  "stamp_purge u s =
     (case first_index (\<lambda>e. sp_u64 e = u) (g_stamp_ring s) of
        None \<Rightarrow> (False, s)
      | Some i \<Rightarrow>
          let e = g_stamp_ring s ! i;
              cino = sp_c_ino e; tino = sp_t_ino e; cfd = sp_client_fd e; tfd = sp_target_fd e;
              eps = g_purge_epoll_fds s;
              fast = (if fd_matches s cfd cino then [cfd] else []) @
                     (if fd_matches s tfd tino then [tfd] else []);
              s1 = s\<lparr>o_log := o_log s @ del_all eps fast\<rparr>;
              now_ms = o_mono_ms s
          in if now_ms - g_last_scan_ms s < 200 then (True, s1)
             else let s2 = s1\<lparr>g_last_scan_ms := now_ms\<rparr> in
               case o_procfd s of
                 None \<Rightarrow> (True, s2)
               | Some fds \<Rightarrow>
                   let hits = filter (\<lambda>n. fd_matches s n cino \<or> fd_matches s n tino) fds
                   in (True, s2\<lparr>o_log := o_log s2 @
                         concat (map (\<lambda>n. del_all eps [n]) hits)\<rparr>))"

section \<open>Tracking\<close>

definition stuck_index :: "u64 \<Rightarrow> nat" where
  "stuck_index u = unat (drop_bit 13 u AND STUCK_TRACK_MASK)"

definition stuck_bump :: "u64 \<Rightarrow> int \<Rightarrow> stuck_ent \<Rightarrow> stuck_ent" where
  "stuck_bump u now e0 =
     (let e1 = (if \<not> st_used e0 \<or> st_u64 e0 \<noteq> u
                then e0\<lparr>st_u64 := u, st_count := 0, st_used := True, st_last_log := 0\<rparr> else e0);
          e2 = e1\<lparr>st_count := st_count e1 + 1\<rparr>
      in if ghost_stuck_should_log (st_count e2) \<and> now - st_last_log e2 \<ge> 1
         then e2\<lparr>st_last_log := now\<rparr> else e2)"

definition ghost_stuck_track :: "u64 \<Rightarrow> int \<Rightarrow> 'a ghost_scheme \<Rightarrow> 'a ghost_scheme" where
  "ghost_stuck_track u now s =
     (let k = stuck_index u;
          e = stuck_bump u now (g_stuck s k);
          s1 = s\<lparr>g_stuck := (g_stuck s)(k := e)\<rparr>
      in if ghost_stuck_should_purge (st_count e) then
           (case stamp_purge u s1 of
              (False, s2) \<Rightarrow> s2
            | (True, s2) \<Rightarrow>
                s2\<lparr>g_ghost_purged := g_ghost_purged s2 + 1,
                   g_stuck := (g_stuck s2)(k := (g_stuck s2 k)\<lparr>st_count := 0\<rparr>)\<rparr>)
         else s1)"

section \<open>Purging never touches an innocent descriptor\<close>

lemma stamp_purge_only_log:
  assumes "stamp_purge u s = (b, s')"
  shows "g_stuck s' = g_stuck s \<and> g_stamp_ring s' = g_stamp_ring s \<and>
         g_ghost_purged s' = g_ghost_purged s \<and> g_purge_epoll_fds s' = g_purge_epoll_fds s"
  using assms by (auto simp: stamp_purge_def Let_def split: option.splits if_splits)

lemma del_all_mem: "ev \<in> set (del_all eps fds) \<longleftrightarrow> (\<exists>ep \<in> set eps. \<exists>f \<in> set fds. ev = CTL CTL_DEL ep f 0 0)"
  by (auto simp: del_all_def)

lemma stamp_purge_log:
  assumes "stamp_purge u s = (b, s')"
  shows "\<exists>l. o_log s' = o_log s @ l \<and>
           (\<forall>ev \<in> set l. \<exists>ep \<in> set (g_purge_epoll_fds s). \<exists>f. ev = CTL CTL_DEL ep f 0 0 \<and>
              (\<exists>e \<in> set (g_stamp_ring s). sp_u64 e = u \<and>
                 (fd_matches s f (sp_c_ino e) \<or> fd_matches s f (sp_t_ino e))))"
proof (cases "first_index (\<lambda>e. sp_u64 e = u) (g_stamp_ring s)")
  case None
  with assms show ?thesis by (simp add: stamp_purge_def)
next
  case (Some i)
  then have e: "g_stamp_ring s ! i \<in> set (g_stamp_ring s)" "sp_u64 (g_stamp_ring s ! i) = u"
    by (auto dest: first_index_SomeD)
  let ?c = "sp_c_ino (g_stamp_ring s ! i)" and ?t = "sp_t_ino (g_stamp_ring s ! i)"
  let ?m = "\<lambda>f. fd_matches s f ?c \<or> fd_matches s f ?t"
  let ?eps = "g_purge_epoll_fds s"
  let ?fast = "(if fd_matches s (sp_client_fd (g_stamp_ring s ! i)) ?c then [sp_client_fd (g_stamp_ring s ! i)] else []) @
     (if fd_matches s (sp_target_fd (g_stamp_ring s ! i)) ?t then [sp_target_fd (g_stamp_ring s ! i)] else [])"
  have "o_log s' = o_log s @ del_all ?eps ?fast \<or>
     (\<exists>fds. o_log s' = o_log s @ del_all ?eps ?fast @
        concat (map (\<lambda>n. del_all ?eps [n]) (filter ?m fds)))"
    using assms Some by (simp add: stamp_purge_def Let_def split: option.splits if_split_asm) auto
  then obtain fs gs where l: "o_log s' = o_log s @ del_all ?eps fs @
        concat (map (\<lambda>n. del_all ?eps [n]) gs)" and m: "\<forall>f \<in> set fs \<union> set gs. ?m f"
  proof (elim disjE exE)
    assume "o_log s' = o_log s @ del_all ?eps ?fast"
    then show thesis by (intro that [of ?fast "[]"]) auto
  next
    fix fds
    assume "o_log s' = o_log s @ del_all ?eps ?fast @ concat (map (\<lambda>n. del_all ?eps [n]) (filter ?m fds))"
    then show thesis by (intro that [of ?fast "filter ?m fds"]) auto
  qed
  then show ?thesis using e by (fastforce simp: del_all_mem)
qed

text \<open>
  C28. Whatever identifier is tracked, the only epoll registrations the purger removes belong to
  descriptors that, at that moment, are open on the very file (device and inode) recorded when
  that identifier was registered: a descriptor number that was reused by another connection is
  never cut off.
\<close>

theorem ghost_purge_safe:
  assumes "CTL op ep f ev w \<in> set (o_log (ghost_stuck_track u now s))"
    and "CTL op ep f ev w \<notin> set (o_log s)"
  shows "op = CTL_DEL \<and> ep \<in> set (g_purge_epoll_fds s) \<and>
         (\<exists>e \<in> set (g_stamp_ring s). sp_u64 e = u \<and>
            (fd_matches s f (sp_c_ino e) \<or> fd_matches s f (sp_t_ino e)))"
proof -
  let ?k = "stuck_index u"
  let ?s1 = "s\<lparr>g_stuck := (g_stuck s)(?k := stuck_bump u now (g_stuck s ?k))\<rparr>"
  have m: "fd_matches ?s1 = fd_matches s" by (simp add: fd_matches_def fun_eq_iff)
  obtain b s2 where p: "stamp_purge u ?s1 = (b, s2)" by force
  from assms have "CTL op ep f ev w \<in> set (o_log s2)"
    by (auto simp: ghost_stuck_track_def Let_def p split: if_splits bool.splits)
  with stamp_purge_log [OF p] assms(2) m show ?thesis by fastforce
qed

text \<open>
  A concrete tracker for the examples: identifier 7 was recorded for the descriptors 5 and 6, of
  which only 5 still names the same file, and has been seen \<open>n\<close> times.
\<close>

definition ghost_demo :: "int \<Rightarrow> bool \<Rightarrow> ghost" where
  "ghost_demo n used = \<lparr>o_now = 0, o_recv = (\<lambda>_. []), o_send = (\<lambda>_. []), o_dgram = (\<lambda>_. []), o_sendto = [],
     o_ctl = [], o_malloc = [], o_socket = [], o_java = [],
     o_fstat = (\<lambda>f. if f = 5 then Some (1, 50) else None), o_procfd = None,
     o_mono_ms = 0, o_sockname = (\<lambda>_. None), o_peername = (\<lambda>_. None), o_log = [],
     g_stuck = (\<lambda>_. \<lparr>st_u64 = 7, st_count = n, st_last_log = 0, st_used = used\<rparr>),
     g_stamp_ring = [\<lparr>sp_u64 = 7, sp_client_fd = 5, sp_target_fd = 6, sp_widx = 0,
        sp_c_ino = 0x100000032, sp_t_ino = 60\<rparr>],
     g_stamp_ring_pos = 0, g_purge_epoll_fds = [3], g_ghost_purged = 0, g_last_scan_ms = 0\<rparr>"

theorem ghost_purge_safe_witness:
  "CTL CTL_DEL 3 5 0 0 \<in> set (o_log (ghost_stuck_track 7 0 (ghost_demo 4999 True))) \<and>
   fd_matches (ghost_demo 4999 True) 5 0x100000032"
proof -
  have l: "o_log (ghost_stuck_track 7 0 (ghost_demo 4999 True)) = [CTL CTL_DEL 3 5 0 0]"
    by (simp add: ghost_stuck_track_def ghost_demo_def stuck_bump_def Let_def ghost_stuck_should_purge_def
        GHOST_PURGE_THRESHOLD_def stamp_purge_def fd_matches_def del_all_def)
  have "CTL CTL_DEL 3 5 0 0 \<notin> set (o_log (ghost_demo 4999 True))" by (simp add: ghost_demo_def)
  from ghost_purge_safe [OF _ this, of 7 0] l show ?thesis by (auto simp: ghost_demo_def fd_matches_def)
qed

section \<open>The tracker's hash\<close>

text \<open>
  Every identifier the TCP engine registers hashes to entry 0 of the 512-entry tracker: the
  index is taken from bits 13 to 21, and a slot number below 8192 has no bits there while the
  generation starts at bit 32.
\<close>

lemma stuck_index_degenerate:
  assumes "slot < 8192"
  shows "stuck_index (ep_u64_of gen slot) = 0"
proof -
  have "drop_bit 13 (ep_u64_of gen slot) AND STUCK_TRACK_MASK = 0"
  proof (rule bit_word_eqI)
    fix n
    have mask: "(511 :: u64) = mask 9" by (simp add: mask_eq_exp_minus_1)
    have "\<not> bit (of_nat slot :: u32) (13 + n)"
      by (rule bit_word_less_pow [of _ 13]) (use assms in \<open>simp_all add: unat_of_nat\<close>)
    then show "bit (drop_bit 13 (ep_u64_of gen slot) AND STUCK_TRACK_MASK) n = bit (0 :: u64) n"
      by (auto simp: STUCK_TRACK_MASK_def mask bit_and_iff bit_mask_iff bit_drop_bit_eq bit_ep_u64_of
          simp del: numeral_eq_iff)
  qed
  then show ?thesis by (simp add: stuck_index_def)
qed

lemma ghost_stuck_track_reset:
  assumes "st_u64 (g_stuck s (stuck_index u)) \<noteq> u"
  shows "g_ghost_purged (ghost_stuck_track u now s) = g_ghost_purged s \<and>
         o_log (ghost_stuck_track u now s) = o_log s \<and>
         st_u64 (g_stuck (ghost_stuck_track u now s) (stuck_index u)) = u"
  using assms
  by (simp add: ghost_stuck_track_def stuck_bump_def Let_def ghost_stuck_should_purge_def
      ghost_stuck_should_log_def GHOST_PURGE_THRESHOLD_def)

text \<open>
  C29. The 512-entry tracker has a single usable entry, because the index is taken from bits 13 to
  21 of the identifier, which are zero for every slot below 8192. So two residual identifiers that alternate reset each other's count, so however
  long both storms last, nothing is ever purged and no registration is removed.
\<close>

theorem alternating_ghosts_never_purged:
  assumes "slot < 8192" and "slot' < 8192"
    and "u = ep_u64_of gen slot" and "v = ep_u64_of gen' slot'" and "u \<noteq> v"
    and "st_u64 (g_stuck s 0) \<noteq> u"
  shows "let s' = foldl (\<lambda>t now. ghost_stuck_track v now (ghost_stuck_track u now t)) s nows
         in g_ghost_purged s' = g_ghost_purged s \<and> o_log s' = o_log s"
proof -
  have iu: "stuck_index u = 0" and iv: "stuck_index v = 0"
    using assms stuck_index_degenerate by auto
  have "st_u64 (g_stuck s 0) \<noteq> u \<Longrightarrow>
    g_ghost_purged (foldl (\<lambda>t now. ghost_stuck_track v now (ghost_stuck_track u now t)) s nows) = g_ghost_purged s \<and>
    o_log (foldl (\<lambda>t now. ghost_stuck_track v now (ghost_stuck_track u now t)) s nows) = o_log s" for s
  proof (induction nows arbitrary: s)
    case (Cons now nows)
    let ?s1 = "ghost_stuck_track u now s" and ?s2 = "ghost_stuck_track v now (ghost_stuck_track u now s)"
    note one = ghost_stuck_track_reset [of s u now, unfolded iu, OF Cons.prems]
    then have "st_u64 (g_stuck ?s1 0) \<noteq> v" using assms(5) by simp
    note two = ghost_stuck_track_reset [of ?s1 v now, unfolded iv, OF this]
    then have "st_u64 (g_stuck ?s2 0) \<noteq> u" using assms(5) by simp
    from Cons.IH [OF this] one two show ?case by simp
  qed simp
  then show ?thesis using assms(6) by (simp add: Let_def)
qed

theorem alternating_ghosts_never_purged_witness:
  "let s' = foldl (\<lambda>t now. ghost_stuck_track (ep_u64_of 1 2) now (ghost_stuck_track (ep_u64_of 1 3) now t))
      (ghost_demo 0 False) [0..10000]
   in g_ghost_purged s' = 0 \<and> o_log s' = []"
proof -
  have ne: "ep_u64_of 1 3 \<noteq> ep_u64_of 1 2" "ep_u64_of 1 3 \<noteq> 7" by (simp_all add: ep_u64_of_def)
  from ne(2) have "st_u64 (g_stuck (ghost_demo 0 False) 0) \<noteq> ep_u64_of 1 3" by (simp add: ghost_demo_def)
  from alternating_ghosts_never_purged [OF _ _ refl refl ne(1) this, of "[0..10000]"]
  show ?thesis by (simp add: Let_def) (simp add: ghost_demo_def)
qed

section \<open>One persistent ghost is cut off at the threshold\<close>

lemma ghost_stuck_track_count:
  assumes "g_stuck s (stuck_index u) = e" and "st_used e" and "st_u64 e = u"
    and "0 \<le> st_count e" and "st_count e < 4999"
  shows "let s' = ghost_stuck_track u now s; e' = g_stuck s' (stuck_index u) in
           o_log s' = o_log s \<and> st_used e' \<and> st_u64 e' = u \<and> st_count e' = st_count e + 1 \<and>
           g_stamp_ring s' = g_stamp_ring s \<and> g_ghost_purged s' = g_ghost_purged s"
  using assms
  by (auto simp: ghost_stuck_track_def stuck_bump_def Let_def ghost_stuck_should_purge_def
      GHOST_PURGE_THRESHOLD_def)

lemma ghost_track_run:
  assumes "st_used (g_stuck s (stuck_index u))" and "st_u64 (g_stuck s (stuck_index u)) = u"
    and "0 \<le> st_count (g_stuck s (stuck_index u))"
    and "st_count (g_stuck s (stuck_index u)) + int (length nows) \<le> 4999"
  shows "let s' = foldl (\<lambda>t now. ghost_stuck_track u now t) s nows;
             e' = g_stuck s' (stuck_index u) in
           o_log s' = o_log s \<and> st_used e' \<and> st_u64 e' = u \<and>
           st_count e' = st_count (g_stuck s (stuck_index u)) + int (length nows) \<and>
           g_stamp_ring s' = g_stamp_ring s \<and> g_ghost_purged s' = g_ghost_purged s"
  using assms
proof (induction nows arbitrary: s)
  case (Cons now nows)
  have "st_count (g_stuck s (stuck_index u)) < 4999" using Cons.prems by simp
  note one = ghost_stuck_track_count [OF refl Cons.prems(1-3) this, of now, unfolded Let_def]
  have "let s' = foldl (\<lambda>t now. ghost_stuck_track u now t) (ghost_stuck_track u now s) nows;
             e' = g_stuck s' (stuck_index u) in
           o_log s' = o_log (ghost_stuck_track u now s) \<and> st_used e' \<and> st_u64 e' = u \<and>
           st_count e' = st_count (g_stuck (ghost_stuck_track u now s) (stuck_index u)) + int (length nows) \<and>
           g_stamp_ring s' = g_stamp_ring (ghost_stuck_track u now s) \<and>
           g_ghost_purged s' = g_ghost_purged (ghost_stuck_track u now s)"
    by (rule Cons.IH) (use one Cons.prems in auto)
  then show ?case using one by (simp add: Let_def)
qed simp

text \<open>
  A single residual identifier that was recorded in the stamp ring is left alone for its
  first 4999 events and purged by the 5000th: exactly one purge is counted and the count starts
  over. (The tracker entry is fresh: no earlier event of this identifier.)
\<close>

theorem single_ghost_purged_at_threshold:
  assumes "\<not> st_used (g_stuck s (stuck_index u))"
    and "u \<in> sp_u64 ` set (g_stamp_ring s)"
    and "length nows = 4999"
  shows "let s1 = foldl (\<lambda>t now. ghost_stuck_track u now t) s nows;
             s2 = ghost_stuck_track u now s1
         in o_log s1 = o_log s \<and> g_ghost_purged s1 = g_ghost_purged s \<and>
            g_ghost_purged s2 = g_ghost_purged s + 1 \<and>
            st_count (g_stuck s2 (stuck_index u)) = 0"
proof -
  obtain t0 ts where nows: "nows = t0 # ts" and ts: "length ts = 4998"
    using assms(3) by (cases nows) auto
  let ?k = "stuck_index u" and ?s0 = "ghost_stuck_track u t0 s"
  have zero: "st_used (g_stuck ?s0 ?k)" "st_u64 (g_stuck ?s0 ?k) = u" "st_count (g_stuck ?s0 ?k) = 1"
    "o_log ?s0 = o_log s" "g_stamp_ring ?s0 = g_stamp_ring s" "g_ghost_purged ?s0 = g_ghost_purged s"
    using assms(1) by (simp_all add: ghost_stuck_track_def stuck_bump_def Let_def
        ghost_stuck_should_purge_def ghost_stuck_should_log_def GHOST_PURGE_THRESHOLD_def)
  define s1 where "s1 = foldl (\<lambda>t now. ghost_stuck_track u now t) ?s0 ts"
  have run: "o_log s1 = o_log s" "st_used (g_stuck s1 ?k)" "st_u64 (g_stuck s1 ?k) = u"
    "st_count (g_stuck s1 ?k) = 4999" "g_stamp_ring s1 = g_stamp_ring s"
    "g_ghost_purged s1 = g_ghost_purged s"
    using ghost_track_run [of ?s0 u ts] zero ts by (simp_all add: Let_def s1_def)
  let ?e = "stuck_bump u now (g_stuck s1 ?k)" and ?t = "s1\<lparr>g_stuck := (g_stuck s1)(?k := stuck_bump u now (g_stuck s1 ?k))\<rparr>"
  have e: "st_count ?e = 5000" using run by (simp add: stuck_bump_def Let_def)
  obtain b s2 where p: "stamp_purge u ?t = (b, s2)" by force
  moreover have "b" using p run(5) assms(2)
    by (auto simp: stamp_purge_def Let_def first_index_None split: option.splits if_splits)
  ultimately have "g_ghost_purged (ghost_stuck_track u now s1) = g_ghost_purged s1 + 1 \<and>
        st_count (g_stuck (ghost_stuck_track u now s1) ?k) = 0"
    using stamp_purge_only_log [OF p] e
    by (simp add: ghost_stuck_track_def Let_def ghost_stuck_should_purge_def GHOST_PURGE_THRESHOLD_def)
  then show ?thesis using run nows by (simp add: Let_def s1_def)
qed

theorem single_ghost_purged_at_threshold_witness:
  "let s1 = foldl (\<lambda>t now. ghost_stuck_track 7 now t) (ghost_demo 0 False) (replicate 4999 1);
       s2 = ghost_stuck_track 7 2 s1
   in o_log s1 = [] \<and> g_ghost_purged s1 = 0 \<and> g_ghost_purged s2 = 1"
proof -
  have f: "\<not> st_used (g_stuck (ghost_demo 0 False) (stuck_index 7))"
    "7 \<in> sp_u64 ` set (g_stamp_ring (ghost_demo 0 False))" "o_log (ghost_demo 0 False) = []"
    "g_ghost_purged (ghost_demo 0 False) = 0"
    by (simp_all add: ghost_demo_def)
  from single_ghost_purged_at_threshold [OF f(1,2) length_replicate, of 1 2] f(3,4)
  show ?thesis unfolding Let_def by (metis add_0)
qed

end
