(* ===== verification/Conn_State.thy ===== *)
theory Conn_State
  imports Event_Codec
begin

unbundle bit_operations_syntax

text \<open>
  \<open>conn_state.c\<close>: the checks that stand between an epoll event and a TCP connection slot.
\<close>

definition CONN_MAGIC :: u32 where "CONN_MAGIC = 0x5EEDF00D"
definition CONN_EV_TARGET_FLAG :: u64 where "CONN_EV_TARGET_FLAG = push_bit 31 1"

datatype conn_event_disp =
    CONN_EV_PROCESS
  | CONN_EV_INACTIVE
  | CONN_EV_STALE
  | CONN_EV_WRONG_WORKER
  | CONN_EV_NOT_READY

definition conn_event_bad_slot :: "int \<Rightarrow> int \<Rightarrow> bool" where
  "conn_event_bad_slot sidx slot_count \<longleftrightarrow> sidx < 0 \<or> sidx \<ge> slot_count"

definition conn_event_check_slot ::
  "u32 \<Rightarrow> u32 \<Rightarrow> u32 \<Rightarrow> bool \<Rightarrow> nat \<Rightarrow> nat \<Rightarrow> bool \<Rightarrow> bool \<Rightarrow> conn_event_disp" where
  "conn_event_check_slot egen gen_now magic slot_state widx my_widx closed registered =
     (if \<not> slot_state then CONN_EV_INACTIVE
      else if egen \<noteq> gen_now \<or> magic \<noteq> CONN_MAGIC then CONN_EV_STALE
      else if widx \<noteq> my_widx then CONN_EV_WRONG_WORKER
      else if closed \<or> \<not> registered then CONN_EV_NOT_READY
      else CONN_EV_PROCESS)"

definition conn_event_decode :: "u64 \<Rightarrow> u32 \<times> u32 \<times> bool" where
  "conn_event_decode raw =
     (let is_target = raw AND CONN_EV_TARGET_FLAG \<noteq> 0;
          key = raw AND NOT CONN_EV_TARGET_FLAG
      in (ucast (key AND 0xFFFFFFFF), ucast (drop_bit 32 key), is_target))"

text \<open>The identifier a descriptor is registered under (\<open>ep_u64\<close>, plus the flag for the target).\<close>

definition conn_ev_id :: "u32 \<Rightarrow> nat \<Rightarrow> bool \<Rightarrow> u64" where
  "conn_ev_id gen slot is_target =
     (if is_target then ep_u64_of gen slot OR CONN_EV_TARGET_FLAG else ep_u64_of gen slot)"

section \<open>Decoding inverts registration\<close>

lemma bit_target_flag: "bit CONN_EV_TARGET_FLAG n \<longleftrightarrow> n = 31"
  unfolding CONN_EV_TARGET_FLAG_def bit_push_bit_1 by simp

lemma and_target_flag: "raw AND CONN_EV_TARGET_FLAG \<noteq> 0 \<longleftrightarrow> bit raw 31"
proof -
  have "raw AND CONN_EV_TARGET_FLAG = (if bit raw 31 then CONN_EV_TARGET_FLAG else 0)"
    by (rule bit_word_eqI) (auto simp: bit_and_iff bit_target_flag)
  moreover have "CONN_EV_TARGET_FLAG \<noteq> 0"
    by (simp add: CONN_EV_TARGET_FLAG_def)
  ultimately show ?thesis by simp
qed

lemma slot_bit31: "slot < 2 ^ 31 \<Longrightarrow> \<not> bit (of_nat slot :: u32) 31"
  by (rule bit_word_less_pow [of _ 31]) (simp_all add: unat_of_nat)

lemma conn_decode_id:
  assumes "slot < 2 ^ 31"
  shows "conn_event_decode (conn_ev_id gen slot t) = (of_nat slot, gen, t)"
proof -
  let ?raw = "conn_ev_id gen slot t"
  have raw: "bit ?raw n \<longleftrightarrow> bit (ep_u64_of gen slot) n \<or> (t \<and> n = 31)" for n
    by (auto simp: conn_ev_id_def bit_or_iff bit_target_flag)
  have no31: "\<not> bit (ep_u64_of gen slot) 31"
    using slot_bit31 [OF assms] by (simp add: bit_ep_u64_of)
  have key: "?raw AND NOT CONN_EV_TARGET_FLAG = ep_u64_of gen slot"
    by (rule bit_word_eqI) (use raw no31 in \<open>auto simp: bit_and_iff bit_not_iff bit_target_flag\<close>)
  show ?thesis
    using raw [of 31] no31
    by (simp add: conn_event_decode_def Let_def key ucast_low32 ep_low ep_high and_target_flag)
qed

interpretation conn_ids: event_codec conn_ev_id conn_event_decode "2 ^ 31"
  by unfold_locales (simp_all add: conn_decode_id)

section \<open>Properties\<close>

text \<open>
  An event registered for a slot is decoded to exactly that slot, generation and side, for
  every slot below \<open>2 ^ 31\<close>, and two registrations share an identifier only if they agree in
  all three: an event can never be attributed to another connection or to the other side.
\<close>

theorem conn_event_roundtrip:
  assumes "slot < 2 ^ 31" and "slot' < 2 ^ 31"
  shows "conn_event_decode (conn_ev_id gen slot t) = (of_nat slot, gen, t) \<and>
         (conn_ev_id gen slot t = conn_ev_id gen' slot' t' \<longleftrightarrow> gen = gen' \<and> slot = slot' \<and> t = t')"
  using assms by (simp add: conn_decode_id conn_ids.enc_inject)

theorem conn_event_roundtrip_witness:
  "conn_event_decode (conn_ev_id 7 1087 True) = (1087, 7, True) \<and>
   conn_ev_id 7 1087 True \<noteq> conn_ev_id 8 1087 True"
  using conn_event_roundtrip [of 1087 1087 7 True 8 True] by simp

lemma conn_check_process:
  "conn_event_check_slot e g m st w me cl reg = CONN_EV_PROCESS \<longleftrightarrow>
     st \<and> e = g \<and> m = CONN_MAGIC \<and> w = me \<and> \<not> cl \<and> reg"
  by (auto simp: conn_event_check_slot_def)

end
