(* ===== verification/Slot_Pool.thy ===== *)
theory Slot_Pool
  imports Prelude
begin

text \<open>
  What the two engines rely on from their slot tables: a stack of free slot numbers, an in-use
  flag and a generation per slot. The locale states the contract of acquire and release and
  derives what follows for every client: slots are never handed out twice, the free stack and
  the in-use flags always describe the same partition of the table, and an identifier of an
  earlier use of a slot never carries the slot's current generation while fewer than \<open>2 ^ 32\<close>
  acquisitions lie between them. \<open>Tcp_State\<close> and \<open>Udp_State\<close> interpret it.
\<close>

locale slot_pool =
  fixes count :: nat
    and wf :: "'s \<Rightarrow> bool"
    and free :: "'s \<Rightarrow> nat list"
    and gen :: "'s \<Rightarrow> nat \<Rightarrow> u32"
    and active :: "'s \<Rightarrow> nat \<Rightarrow> bool"
    and acquire :: "'s \<Rightarrow> nat option \<times> 's"
    and release :: "nat \<Rightarrow> 's \<Rightarrow> 's"
  assumes acquire_empty: "wf s \<Longrightarrow> free s = [] \<Longrightarrow>
      \<exists>s'. acquire s = (None, s') \<and> wf s' \<and> free s' = [] \<and> gen s' = gen s \<and> active s' = active s"
    and acquire_top: "wf s \<Longrightarrow> free s = xs @ [i] \<Longrightarrow>
      \<exists>s'. acquire s = (Some i, s') \<and> wf s' \<and> free s' = xs \<and>
           gen s' = (gen s)(i := gen s i + 1) \<and> active s' = (active s)(i := True)"
    and release_push: "wf s \<Longrightarrow> length (free s) < count \<Longrightarrow>
      wf (release i s) \<and> free (release i s) = free s @ [i] \<and>
      gen (release i s) = gen s \<and> active (release i s) = (active s)(i := False)"
begin

definition pool_inv :: "'s \<Rightarrow> bool" where
  "pool_inv s \<longleftrightarrow> wf s \<and> distinct (free s) \<and> set (free s) = {i. i < count \<and> \<not> active s i}"

lemma pool_inv_wf: "pool_inv s \<Longrightarrow> wf s"
  by (simp add: pool_inv_def)

lemma pool_inv_free_bound: "pool_inv s \<Longrightarrow> i \<in> set (free s) \<Longrightarrow> i < count \<and> \<not> active s i"
  by (simp add: pool_inv_def)

text \<open>Acquire fails exactly when every slot is in use.\<close>

lemma acquire_None_iff:
  assumes "pool_inv s"
  shows "fst (acquire s) = None \<longleftrightarrow> (\<forall>i < count. active s i)"
proof (cases "free s" rule: rev_cases)
  case Nil
  then obtain s' where "acquire s = (None, s')"
    using acquire_empty [OF pool_inv_wf [OF assms]] by blast
  moreover have "\<forall>i < count. active s i" using assms Nil by (auto simp: pool_inv_def)
  ultimately show ?thesis by simp
next
  case (snoc xs i)
  then obtain s' where "acquire s = (Some i, s')"
    using acquire_top [OF pool_inv_wf [OF assms]] by blast
  moreover have "i < count \<and> \<not> active s i" using pool_inv_free_bound [OF assms, of i] snoc by simp
  ultimately show ?thesis by auto
qed

text \<open>An acquired slot was not in use, is in use now, and starts a new generation.\<close>

lemma acquire_Some:
  assumes "pool_inv s" and "acquire s = (Some i, s')"
  shows "i < count \<and> \<not> active s i \<and> active s' = (active s)(i := True) \<and>
         gen s' = (gen s)(i := gen s i + 1) \<and> free s = free s' @ [i] \<and> pool_inv s'"
proof (cases "free s" rule: rev_cases)
  case Nil
  then obtain t where "acquire s = (None, t)"
    using acquire_empty [OF pool_inv_wf [OF assms(1)]] by blast
  with assms(2) show ?thesis by simp
next
  case (snoc xs j)
  then have eqs: "i = j" "free s' = xs" "wf s'" "gen s' = (gen s)(i := gen s i + 1)"
    "active s' = (active s)(i := True)"
    using acquire_top [OF pool_inv_wf [OF assms(1)] snoc] assms(2) by auto
  have "i < count \<and> \<not> active s i" using pool_inv_free_bound [OF assms(1), of i] snoc eqs by simp
  moreover have "pool_inv s'"
    using assms(1) snoc eqs unfolding pool_inv_def by auto
  ultimately show ?thesis using eqs snoc by simp
qed

lemma acquire_inv:
  assumes "pool_inv s" and "acquire s = (r, s')"
  shows "pool_inv s'"
proof (cases "free s" rule: rev_cases)
  case Nil
  with acquire_empty [OF pool_inv_wf [OF assms(1)]] assms show ?thesis
    by (auto simp: pool_inv_def)
next
  case (snoc xs i)
  with acquire_top [OF pool_inv_wf [OF assms(1)]] assms(2) have "r = Some i" by fastforce
  with assms show ?thesis by (blast dest: acquire_Some)
qed

text \<open>A slot in use can always be released: the stack has room for it.\<close>

lemma release_room:
  assumes "pool_inv s" and "i < count" and "active s i"
  shows "length (free s) < count"
proof -
  have "set (free s) \<subset> {..<count}" using assms by (auto simp: pool_inv_def)
  then have "card (set (free s)) < count" by (metis card_lessThan finite_lessThan psubset_card_mono)
  then show ?thesis using assms(1) distinct_card [of "free s"] by (simp add: pool_inv_def)
qed

lemma release_inv:
  assumes "pool_inv s" and "i < count" and "active s i"
  shows "pool_inv (release i s) \<and> free (release i s) = free s @ [i] \<and>
         gen (release i s) = gen s \<and> active (release i s) = (active s)(i := False)"
proof -
  have r: "wf (release i s)" "free (release i s) = free s @ [i]" "gen (release i s) = gen s"
    "active (release i s) = (active s)(i := False)"
    using release_push [of s i] release_room [OF assms] assms(1) by (auto simp: pool_inv_def)
  have "i \<notin> set (free s)" using assms(1,3) by (auto simp: pool_inv_def)
  then have "pool_inv (release i s)"
    using assms r unfolding pool_inv_def by auto
  with r show ?thesis by simp
qed

text \<open>Free slots and slots in use add up to the whole table.\<close>

lemma free_plus_active:
  assumes "pool_inv s"
  shows "length (free s) + card {i. i < count \<and> active s i} = count"
proof -
  have "length (free s) = card {i. i < count \<and> \<not> active s i}"
    using assms by (metis pool_inv_def distinct_card)
  moreover have "card {i. i < count \<and> \<not> active s i} + card {i. i < count \<and> active s i} =
      card ({i. i < count \<and> \<not> active s i} \<union> {i. i < count \<and> active s i})"
    by (rule card_Un_disjoint [symmetric]) auto
  moreover have "{i. i < count \<and> \<not> active s i} \<union> {i. i < count \<and> active s i} = {..<count}" by auto
  ultimately show ?thesis by simp
qed

end

end
