(* ===== verification/Dlist_Heap.thy ===== *)
theory Dlist_Heap
  imports Prelude
begin

text \<open>
  Doubly linked lists over array indices: \<open>nxt\<close> and \<open>prv\<close> are the link fields of the slots and
  \<open>None\<close> is NULL. \<open>dl_rep h nxt prv xs\<close> says that the list anchored at \<open>h\<close> visits exactly \<open>xs\<close>.
  Both engines keep their connections on such lists; here are the facts for insertion at the
  front and for unlinking, stated on the link fields after the C assignments.
\<close>

definition hd_opt :: "'a option \<Rightarrow> 'a list \<Rightarrow> 'a option" where
  "hd_opt q xs = (case xs of [] \<Rightarrow> q | x # _ \<Rightarrow> Some x)"

definition last_opt :: "'a option \<Rightarrow> 'a list \<Rightarrow> 'a option" where
  "last_opt p xs = (if xs = [] then p else Some (last xs))"

fun dl_seg :: "('a \<Rightarrow> 'a option) \<Rightarrow> ('a \<Rightarrow> 'a option) \<Rightarrow> 'a option \<Rightarrow> 'a list \<Rightarrow> 'a option \<Rightarrow> bool" where
  "dl_seg nxt prv p [] q = True"
| "dl_seg nxt prv p (x # xs) q = (prv x = p \<and> nxt x = hd_opt q xs \<and> dl_seg nxt prv (Some x) xs q)"

definition dl_rep :: "'a option \<Rightarrow> ('a \<Rightarrow> 'a option) \<Rightarrow> ('a \<Rightarrow> 'a option) \<Rightarrow> 'a list \<Rightarrow> bool" where
  "dl_rep h nxt prv xs \<longleftrightarrow> h = hd_opt None xs \<and> distinct xs \<and> dl_seg nxt prv None xs None"

lemma hd_opt_simps [simp]:
  "hd_opt q [] = q" "hd_opt q (x # xs) = Some x" "hd_opt q (xs @ ys) = hd_opt (hd_opt q ys) xs"
  by (simp_all add: hd_opt_def split: list.split)

lemma last_opt_simps [simp]:
  "last_opt p [] = p" "last_opt p (x # xs) = last_opt (Some x) xs" "last_opt p (xs @ [y]) = Some y"
  by (simp_all add: last_opt_def)

lemma dl_seg_append:
  "dl_seg nxt prv p (xs @ ys) q \<longleftrightarrow>
     dl_seg nxt prv p xs (hd_opt q ys) \<and> dl_seg nxt prv (last_opt p xs) ys q"
  by (induction xs arbitrary: p) auto

lemma dl_seg_frame:
  "(\<And>x. x \<in> set xs \<Longrightarrow> nxt' x = nxt x) \<Longrightarrow> (\<And>x. x \<in> set xs \<Longrightarrow> prv' x = prv x) \<Longrightarrow>
     dl_seg nxt' prv' p xs q = dl_seg nxt prv p xs q"
  by (induction xs arbitrary: p) auto

lemma dl_seg_nxt_upd: "u \<notin> set xs \<Longrightarrow> dl_seg (nxt(u := v)) prv p xs q = dl_seg nxt prv p xs q"
  by (rule dl_seg_frame) auto

lemma dl_seg_prv_upd: "u \<notin> set xs \<Longrightarrow> dl_seg nxt (prv(u := v)) p xs q = dl_seg nxt prv p xs q"
  by (rule dl_seg_frame) auto

lemma dl_rep_NilD [simp]: "dl_rep None nxt prv xs \<longleftrightarrow> xs = []"
  by (cases xs) (auto simp: dl_rep_def)

lemma dl_rep_head: "dl_rep (Some x) nxt prv xs \<Longrightarrow> \<exists>ys. xs = x # ys"
  by (cases xs) (auto simp: dl_rep_def)

lemma dl_rep_next:
  assumes "dl_rep h nxt prv (as @ x # bs)"
  shows "nxt x = hd_opt None bs" and "prv x = last_opt None as"
  using assms by (auto simp: dl_rep_def dl_seg_append)

text \<open>A node is unlinked exactly when it has no neighbours and is not the head.\<close>

lemma dl_rep_linked_iff:
  assumes "dl_rep h nxt prv xs" and "x \<notin> set xs \<Longrightarrow> nxt x = None \<and> prv x = None"
  shows "nxt x \<noteq> None \<or> prv x \<noteq> None \<or> h = Some x \<longleftrightarrow> x \<in> set xs"
proof
  assume l: "nxt x \<noteq> None \<or> prv x \<noteq> None \<or> h = Some x"
  show "x \<in> set xs"
  proof (rule ccontr)
    assume "x \<notin> set xs"
    with assms(2) l have "h = Some x" by simp
    with assms(1) have "x \<in> set xs" by (auto dest: dl_rep_head)
    with \<open>x \<notin> set xs\<close> show False by simp
  qed
next
  assume "x \<in> set xs"
  then obtain as bs where xs: "xs = as @ x # bs" by (meson split_list)
  then have "prv x = last_opt None as" using assms(1) dl_rep_next by metis
  then show "nxt x \<noteq> None \<or> prv x \<noteq> None \<or> h = Some x"
    using assms(1) xs by (cases as rule: rev_cases) (auto simp: dl_rep_def)
qed

text \<open>\<open>c->next = head; c->prev = NULL; if (head) head->prev = c; head = c\<close>.\<close>

lemma dl_rep_add:
  assumes "dl_rep h nxt prv xs" and "x \<notin> set xs"
    and "nxt' = nxt(x := h)"
    and "prv' = (case h of None \<Rightarrow> prv(x := None) | Some y \<Rightarrow> prv(x := None, y := Some x))"
  shows "dl_rep (Some x) nxt' prv' (x # xs)"
proof (cases xs)
  case Nil
  with assms show ?thesis by (simp add: dl_rep_def)
next
  case (Cons y ys)
  with assms have h: "h = Some y" and ne: "x \<noteq> y" "x \<notin> set ys" "y \<notin> set ys"
    by (auto simp: dl_rep_def)
  have "dl_seg nxt prv (Some y) ys None" "nxt y = hd_opt None ys" "distinct xs"
    using assms(1) Cons by (auto simp: dl_rep_def)
  then show ?thesis
    using assms(3,4) h ne Cons
    by (simp add: dl_rep_def dl_seg_nxt_upd dl_seg_prv_upd)
qed

text \<open>
  \<open>if (prev) prev->next = next; else head = next; if (next) next->prev = prev;\<close> then both
  links of the node are cleared.
\<close>

lemma dl_rep_remove:
  assumes rep: "dl_rep h nxt prv (as @ x # bs)"
    and nxt1: "nxt1 = (case prv x of None \<Rightarrow> nxt | Some p \<Rightarrow> nxt(p := nxt x))"
    and prv1: "prv1 = (case nxt1 x of None \<Rightarrow> prv | Some q \<Rightarrow> prv(q := prv x))"
    and h': "h' = (case prv x of None \<Rightarrow> nxt x | Some p \<Rightarrow> h)"
  shows "dl_rep h' (nxt1(x := None)) (prv1(x := None)) (as @ bs)"
proof -
  have d: "distinct (as @ x # bs)" and h: "h = hd_opt (Some x) as"
    and sa: "dl_seg nxt prv None as (Some x)"
    and sb: "dl_seg nxt prv (Some x) bs None"
    and nx: "nxt x = hd_opt None bs" and px: "prv x = last_opt None as"
    using rep by (auto simp: dl_rep_def dl_seg_append)
  have nx1: "nxt1 x = hd_opt None bs"
    using nxt1 nx px d by (cases as rule: rev_cases) auto
  have left: "dl_seg (nxt1(x := None)) (prv1(x := None)) None as (hd_opt None bs)"
  proof (cases as rule: rev_cases)
    case (snoc as' p)
    with px nxt1 nx have n1: "nxt1 = nxt(p := hd_opt None bs)" by simp
    have "dl_seg nxt prv None as' (Some p)" "prv p = last_opt None as'"
      using sa snoc by (auto simp: dl_seg_append)
    moreover have out: "p \<notin> set as'" "x \<notin> set as" "p \<noteq> x" using d snoc by auto
    moreover have same: "prv1 y = prv y" if "y \<in> set as" for y
      using that prv1 nx1 d by (cases bs) auto
    moreover have "dl_seg (nxt1(x := None)) (prv1(x := None)) None as' (Some p) =
        dl_seg nxt prv None as' (Some p)"
      by (rule dl_seg_frame) (use out same snoc n1 in auto)
    ultimately show ?thesis
      using snoc n1 by (auto simp: dl_seg_append)
  qed simp
  have right: "dl_seg (nxt1(x := None)) (prv1(x := None)) (last_opt None as) bs None"
  proof (cases bs)
    case (Cons q bs')
    with nx1 prv1 px have p1: "prv1 = prv(q := last_opt None as)" by simp
    have "dl_seg nxt prv (Some q) bs' None" "nxt q = hd_opt None bs'"
      using sb Cons by auto
    moreover have out: "q \<notin> set bs'" "x \<notin> set bs" "q \<noteq> x" using d Cons by auto
    moreover have same: "nxt1 y = nxt y" if "y \<in> set bs" for y
      using that nxt1 px d by (cases as rule: rev_cases) auto
    moreover have "dl_seg (nxt1(x := None)) (prv1(x := None)) (Some q) bs' None =
        dl_seg nxt prv (Some q) bs' None"
      by (rule dl_seg_frame) (use out same Cons p1 in auto)
    ultimately show ?thesis
      using Cons p1 by auto
  qed simp
  have "h' = hd_opt None (as @ bs)"
    using h' px nx h by (cases as rule: rev_cases) auto
  then show ?thesis
    using left right d by (simp add: dl_rep_def dl_seg_append)
qed

end
