(* ===== verification/Tcp_State.thy ===== *)
theory Tcp_State
  imports Ghost_Purge Conn_State Slot_Pool Dlist_Heap
begin

unbundle bit_operations_syntax

text \<open>
  The state of the TCP engine of \<open>simple-socks5.c\<close>: the connection structure, the static slot
  table with its free stack and generations, the workers' connection lists and the statistics,
  with the slot and list operations. Connections are named by their slot number, so a
  \<open>full_conn_t *\<close> is a slot number and NULL is \<open>None\<close>. A function body that runs under a mutex
  is one step; atomic counters are integers.
\<close>

definition BUFFER_SIZE :: nat where "BUFFER_SIZE = 65536"
definition MAX_EVENTS :: nat where "MAX_EVENTS = 512"
definition WORKER_COUNT :: nat where "WORKER_COUNT = 4"
definition MAX_CONCURRENT_CONNS :: int where "MAX_CONCURRENT_CONNS = 1000"
definition CONN_SLOT_COUNT :: nat where "CONN_SLOT_COUNT = 1088"
definition IDLE_TIMEOUT_SEC :: int where "IDLE_TIMEOUT_SEC = 300"

record full_conn =
  fc_magic :: u32
  fc_client_fd :: fd
  fc_target_fd :: fd
  fc_c2t_buf :: "byte list option"     \<comment> \<open>\<open>None\<close> is NULL\<close>
  fc_t2c_buf :: "byte list option"
  fc_c2t_len :: nat
  fc_c2t_off :: nat
  fc_t2c_len :: nat
  fc_t2c_off :: nat
  fc_closed :: bool
  fc_client_eof :: bool
  fc_eof_since :: int
  fc_target_eof_since :: int
  fc_client_events :: u32
  fc_target_events :: u32
  fc_refs :: int
  fc_finalized :: bool
  fc_registered :: bool
  fc_last_active :: int
  fc_next :: "nat option"
  fc_prev :: "nat option"
  fc_widx :: nat
  fc_slot :: nat
  fc_gen :: u32
  fc_ep_u64 :: u64

record tcp = ghost +
  server_running :: bool
  g_conn_count :: int
  g_slots :: "nat \<Rightarrow> full_conn"
  g_slot_state :: "nat \<Rightarrow> bool"
  g_free_slots :: "nat list"
  g_free_slot_top :: nat
  conn_list_head :: "nat \<Rightarrow> nat option"      \<comment> \<open>per worker\<close>
  w_epoll_fd :: "nat \<Rightarrow> fd"
  w_stopping :: "nat \<Rightarrow> bool"
  next_worker_idx :: u32
  g_st_acquired :: int
  g_st_released :: int
  g_st_stale_skip :: int
  g_st_bad_slot :: int
  g_st_exhausted :: int
  g_st_double_fin :: int
  g_st_auth_fail :: int
  g_st_conn_fail :: int
  g_tx_bytes :: "nat \<Rightarrow> int"
  g_rx_bytes :: "nat \<Rightarrow> int"

definition upd_conn :: "nat \<Rightarrow> (full_conn \<Rightarrow> full_conn) \<Rightarrow> 'a tcp_scheme \<Rightarrow> 'a tcp_scheme" where
  "upd_conn i f s = s\<lparr>g_slots := (g_slots s)(i := f (g_slots s i))\<rparr>"

lemma upd_conn_simps [simp]:
  "g_slots (upd_conn i f s) = (g_slots s)(i := f (g_slots s i))"
  "g_slot_state (upd_conn i f s) = g_slot_state s"
  "g_free_slots (upd_conn i f s) = g_free_slots s"
  "g_free_slot_top (upd_conn i f s) = g_free_slot_top s"
  "conn_list_head (upd_conn i f s) = conn_list_head s"
  "w_stopping (upd_conn i f s) = w_stopping s"
  "w_epoll_fd (upd_conn i f s) = w_epoll_fd s"
  "g_conn_count (upd_conn i f s) = g_conn_count s"
  "g_tx_bytes (upd_conn i f s) = g_tx_bytes s"
  "g_rx_bytes (upd_conn i f s) = g_rx_bytes s"
  "o_log (upd_conn i f s) = o_log s" "o_recv (upd_conn i f s) = o_recv s"
  "o_send (upd_conn i f s) = o_send s" "o_now (upd_conn i f s) = o_now s"
  by (simp_all add: upd_conn_def)

section \<open>Slots\<close>

text \<open>\<open>memset(&g_slots[idx], 0, sizeof)\<close>.\<close>

definition zero_conn :: full_conn where
  "zero_conn = \<lparr>fc_magic = 0, fc_client_fd = 0, fc_target_fd = 0, fc_c2t_buf = None,
     fc_t2c_buf = None, fc_c2t_len = 0, fc_c2t_off = 0, fc_t2c_len = 0, fc_t2c_off = 0,
     fc_closed = False, fc_client_eof = False, fc_eof_since = 0, fc_target_eof_since = 0,
     fc_client_events = 0, fc_target_events = 0, fc_refs = 0, fc_finalized = False,
     fc_registered = False, fc_last_active = 0, fc_next = None, fc_prev = None, fc_widx = 0,
     fc_slot = 0, fc_gen = 0, fc_ep_u64 = 0\<rparr>"

definition slot_acquire :: "'a tcp_scheme \<Rightarrow> nat option \<times> 'a tcp_scheme" where
  "slot_acquire s =
     (if g_free_slot_top s = 0 then (None, s\<lparr>g_st_exhausted := g_st_exhausted s + 1\<rparr>)
      else let top = g_free_slot_top s - 1;
               idx = g_free_slots s ! top;
               new_gen = fc_gen (g_slots s idx) + 1
           in (Some idx,
               s\<lparr>g_free_slot_top := top,
                 g_slots := (g_slots s)(idx := zero_conn\<lparr>fc_gen := new_gen, fc_slot := idx\<rparr>),
                 g_slot_state := (g_slot_state s)(idx := True),
                 g_st_acquired := g_st_acquired s + 1\<rparr>))"

definition slot_release :: "nat \<Rightarrow> 'a tcp_scheme \<Rightarrow> 'a tcp_scheme" where
  "slot_release idx s =
     s\<lparr>g_slot_state := (g_slot_state s)(idx := False),
       g_free_slots := (g_free_slots s)[g_free_slot_top s := idx],
       g_free_slot_top := g_free_slot_top s + 1,
       g_st_released := g_st_released s + 1\<rparr>"

definition slots_init :: "'a tcp_scheme \<Rightarrow> 'a tcp_scheme" where
  "slots_init s =
     s\<lparr>g_slots := (\<lambda>i. if i < CONN_SLOT_COUNT \<and> fc_gen (g_slots s i) = 0
                        then (g_slots s i)\<lparr>fc_gen := 1\<rparr> else g_slots s i),
       g_slot_state := (\<lambda>i. if i < CONN_SLOT_COUNT then False else g_slot_state s i),
       g_free_slots := [0..<CONN_SLOT_COUNT],
       g_free_slot_top := CONN_SLOT_COUNT\<rparr>"

text \<open>The live part of the free stack, and the shape of the two arrays.\<close>

definition tcp_free :: "'a tcp_scheme \<Rightarrow> nat list" where
  "tcp_free s = take (g_free_slot_top s) (g_free_slots s)"

definition tcp_slots_wf :: "'a tcp_scheme \<Rightarrow> bool" where
  "tcp_slots_wf s \<longleftrightarrow> length (g_free_slots s) = CONN_SLOT_COUNT \<and> g_free_slot_top s \<le> CONN_SLOT_COUNT"

lemma take_snoc_nth:
  assumes "take n xs = ys @ [y]" and "n \<le> length xs"
  shows "0 < n \<and> xs ! (n - 1) = y \<and> take (n - 1) xs = ys"
proof -
  have n: "n = Suc (length ys)" using arg_cong [OF assms(1), of length] assms(2) by simp
  then have "take (Suc (length ys)) xs = take (length ys) xs @ [xs ! length ys]"
    using assms(2) by (simp add: take_Suc_conv_app_nth)
  with assms(1) n show ?thesis by simp
qed

interpretation tcp_pool: slot_pool CONN_SLOT_COUNT tcp_slots_wf tcp_free
  "\<lambda>s i. fc_gen (g_slots s i)" g_slot_state slot_acquire slot_release
proof (unfold_locales, goal_cases)
  case (1 s)
  then have "g_free_slot_top s = 0" by (auto simp: tcp_free_def tcp_slots_wf_def CONN_SLOT_COUNT_def)
  with 1 show ?case by (simp add: slot_acquire_def tcp_slots_wf_def tcp_free_def)
next
  case (2 s xs i)
  with take_snoc_nth [of "g_free_slot_top s" "g_free_slots s" xs i]
  have "0 < g_free_slot_top s" "g_free_slots s ! (g_free_slot_top s - 1) = i"
    "take (g_free_slot_top s - 1) (g_free_slots s) = xs"
    by (auto simp: tcp_free_def tcp_slots_wf_def)
  with 2 show ?case
    by (auto simp: slot_acquire_def Let_def tcp_slots_wf_def tcp_free_def fun_eq_iff)
next
  case (3 s i)
  then have "g_free_slot_top s < length (g_free_slots s)"
    by (simp add: tcp_slots_wf_def tcp_free_def)
  with 3 show ?case
    by (simp add: slot_release_def tcp_slots_wf_def tcp_free_def take_Suc_conv_app_nth
        take_update_swap list_update_append)
qed

lemma slots_init_inv: "tcp_pool.pool_inv (slots_init s)"
  by (auto simp: tcp_pool.pool_inv_def slots_init_def tcp_slots_wf_def tcp_free_def)

text \<open>The initial generations are never 0, so slot 0 never registers as the shutdown identifier.\<close>

lemma slots_init_gen: "i < CONN_SLOT_COUNT \<Longrightarrow> fc_gen (g_slots (slots_init s) i) \<noteq> 0"
  by (simp add: slots_init_def)

text \<open>The process image before the first start: every static is zero, nothing is open.\<close>

definition zero_stamp_ring :: "stamp_ent list" where
  "zero_stamp_ring = replicate 4096
     \<lparr>sp_u64 = 0, sp_client_fd = 0, sp_target_fd = 0, sp_widx = 0, sp_c_ino = 0, sp_t_ino = 0\<rparr>"

definition tcp_boot :: tcp where
  "tcp_boot = \<lparr>o_now = 0, o_recv = (\<lambda>_. []), o_send = (\<lambda>_. []), o_dgram = (\<lambda>_. []), o_sendto = [],
     o_ctl = [], o_malloc = [], o_socket = [], o_java = [], o_fstat = (\<lambda>_. None), o_procfd = None,
     o_mono_ms = 0, o_sockname = (\<lambda>_. None), o_peername = (\<lambda>_. None), o_log = [],
     g_stuck = (\<lambda>_. \<lparr>st_u64 = 0, st_count = 0, st_last_log = 0, st_used = False\<rparr>),
     g_stamp_ring = zero_stamp_ring, g_stamp_ring_pos = 0, g_purge_epoll_fds = [], g_ghost_purged = 0,
     g_last_scan_ms = 0, server_running = False, g_conn_count = 0, g_slots = (\<lambda>_. zero_conn),
     g_slot_state = (\<lambda>_. False), g_free_slots = [], g_free_slot_top = 0,
     conn_list_head = (\<lambda>_. None), w_epoll_fd = (\<lambda>_. 0), w_stopping = (\<lambda>_. False),
     next_worker_idx = 0, g_st_acquired = 0, g_st_released = 0, g_st_stale_skip = 0,
     g_st_bad_slot = 0, g_st_exhausted = 0, g_st_double_fin = 0, g_st_auth_fail = 0,
     g_st_conn_fail = 0, g_tx_bytes = (\<lambda>_. 0), g_rx_bytes = (\<lambda>_. 0)\<rparr>"

section \<open>Connection lists\<close>

definition list_add_locked :: "nat \<Rightarrow> nat \<Rightarrow> 'a tcp_scheme \<Rightarrow> 'a tcp_scheme" where
  "list_add_locked w i s =
     (let h = conn_list_head s w;
          s1 = upd_conn i (\<lambda>c. c\<lparr>fc_next := h\<rparr>) s;
          s2 = upd_conn i (\<lambda>c. c\<lparr>fc_prev := None\<rparr>) s1;
          s3 = (case h of None \<Rightarrow> s2 | Some j \<Rightarrow> upd_conn j (\<lambda>c. c\<lparr>fc_prev := Some i\<rparr>) s2)
      in s3\<lparr>conn_list_head := (conn_list_head s3)(w := Some i)\<rparr>)"

definition list_remove_locked :: "nat \<Rightarrow> nat \<Rightarrow> 'a tcp_scheme \<Rightarrow> 'a tcp_scheme" where
  "list_remove_locked w i s =
     (let c = g_slots s i;
          s1 = (case fc_prev c of
                  Some p \<Rightarrow> upd_conn p (\<lambda>d. d\<lparr>fc_next := fc_next c\<rparr>) s
                | None \<Rightarrow> s\<lparr>conn_list_head := (conn_list_head s)(w := fc_next c)\<rparr>);
          s2 = (case fc_next (g_slots s1 i) of
                  Some q \<Rightarrow> upd_conn q (\<lambda>d. d\<lparr>fc_prev := fc_prev (g_slots s1 i)\<rparr>) s1
                | None \<Rightarrow> s1);
          s3 = upd_conn i (\<lambda>d. d\<lparr>fc_next := None\<rparr>) s2
      in upd_conn i (\<lambda>d. d\<lparr>fc_prev := None\<rparr>) s3)"

definition conn_nxt :: "'a tcp_scheme \<Rightarrow> nat \<Rightarrow> nat option" where
  "conn_nxt s i = fc_next (g_slots s i)"

definition conn_prv :: "'a tcp_scheme \<Rightarrow> nat \<Rightarrow> nat option" where
  "conn_prv s i = fc_prev (g_slots s i)"

text \<open>The connections of worker \<open>w\<close> are \<open>xs\<close>, in list order.\<close>

definition conn_list :: "'a tcp_scheme \<Rightarrow> nat \<Rightarrow> nat list \<Rightarrow> bool" where
  "conn_list s w xs \<longleftrightarrow> dl_rep (conn_list_head s w) (conn_nxt s) (conn_prv s) xs"

lemma conn_links_upd:
  "conn_nxt (upd_conn i f s) = (conn_nxt s)(i := fc_next (f (g_slots s i)))"
  "conn_prv (upd_conn i f s) = (conn_prv s)(i := fc_prev (f (g_slots s i)))"
  by (auto simp: conn_nxt_def conn_prv_def)

lemma conn_links_head [simp]:
  "conn_nxt (s\<lparr>conn_list_head := h\<rparr>) = conn_nxt s" "conn_prv (s\<lparr>conn_list_head := h\<rparr>) = conn_prv s"
  by (auto simp: conn_nxt_def conn_prv_def)

lemma list_add_locked_links:
  assumes "conn_list_head s w \<noteq> Some i"
  shows "conn_nxt (list_add_locked w i s) = (conn_nxt s)(i := conn_list_head s w)"
    and "conn_prv (list_add_locked w i s) =
       (case conn_list_head s w of None \<Rightarrow> (conn_prv s)(i := None)
        | Some y \<Rightarrow> (conn_prv s)(i := None, y := Some i))"
    and "conn_list_head (list_add_locked w i s) = (conn_list_head s)(w := Some i)"
  using assms
  by (auto simp: list_add_locked_def Let_def conn_links_upd conn_nxt_def conn_prv_def fun_eq_iff
      split: option.split)

lemma list_add_locked_conn_list:
  assumes "conn_list s w xs" and "i \<notin> set xs"
  shows "conn_list (list_add_locked w i s) w (i # xs)"
proof -
  have "conn_list_head s w \<noteq> Some i"
    using assms by (metis conn_list_def dl_rep_head list.set_intros(1))
  note l = list_add_locked_links [OF this]
  have "dl_rep (conn_list_head s w) (conn_nxt s) (conn_prv s) xs" using assms(1) by (simp add: conn_list_def)
  from dl_rep_add [OF this assms(2) l(1,2)] show ?thesis
    by (simp add: conn_list_def l(3))
qed

lemma list_remove_locked_links:
  fixes s :: "'a tcp_scheme" and i :: nat
  defines "n1 \<equiv> (case conn_prv s i of None \<Rightarrow> conn_nxt s | Some p \<Rightarrow> (conn_nxt s)(p := conn_nxt s i))"
  shows "conn_nxt (list_remove_locked w i s) = n1(i := None)"
    and "conn_prv (list_remove_locked w i s) =
       (case n1 i of None \<Rightarrow> conn_prv s | Some q \<Rightarrow> (conn_prv s)(q := conn_prv s i))(i := None)"
    and "conn_list_head (list_remove_locked w i s) =
       (case conn_prv s i of None \<Rightarrow> (conn_list_head s)(w := conn_nxt s i) | Some p \<Rightarrow> conn_list_head s)"
  unfolding n1_def
  by (auto simp: list_remove_locked_def Let_def conn_nxt_def conn_prv_def fun_eq_iff
      split: option.split)

lemma list_remove_locked_conn_list:
  assumes "conn_list s w xs" and "i \<in> set xs"
  shows "conn_list (list_remove_locked w i s) w (remove1 i xs)"
proof -
  obtain as bs where xs: "xs = as @ i # bs" "i \<notin> set as"
    using split_list_first [OF assms(2)] by auto
  have rep: "dl_rep (conn_list_head s w) (conn_nxt s) (conn_prv s) (as @ i # bs)"
    using assms(1) xs by (simp add: conn_list_def)
  have "dl_rep (conn_list_head (list_remove_locked w i s) w)
      (conn_nxt (list_remove_locked w i s)) (conn_prv (list_remove_locked w i s)) (as @ bs)"
    unfolding list_remove_locked_links
    by (rule dl_rep_remove [OF rep refl refl]) (simp split: option.split)
  moreover have "remove1 i xs = as @ bs" using xs by (simp add: remove1_append)
  ultimately show ?thesis by (simp add: conn_list_def)
qed

text \<open>List surgery changes only link fields and list heads.\<close>

definition links_only :: "'a tcp_scheme \<Rightarrow> 'a tcp_scheme \<Rightarrow> bool" where
  "links_only s t \<longleftrightarrow>
     (\<exists>h n p. t = s\<lparr>conn_list_head := h,
        g_slots := (\<lambda>j. (g_slots s j)\<lparr>fc_next := n j, fc_prev := p j\<rparr>)\<rparr>)"

lemma links_only_refl: "links_only s s"
  unfolding links_only_def
  by (intro exI [of _ "conn_list_head s"] exI [of _ "\<lambda>j. fc_next (g_slots s j)"]
      exI [of _ "\<lambda>j. fc_prev (g_slots s j)"]) simp

lemma links_only_trans: "links_only s t \<Longrightarrow> links_only t u \<Longrightarrow> links_only s u"
  unfolding links_only_def by (elim exE) (simp, metis)

lemma links_only_head: "links_only s (s\<lparr>conn_list_head := h\<rparr>)"
  unfolding links_only_def
  by (intro exI [of _ h] exI [of _ "\<lambda>j. fc_next (g_slots s j)"]
      exI [of _ "\<lambda>j. fc_prev (g_slots s j)"]) simp

lemma links_only_next: "links_only s (upd_conn i (\<lambda>c. c\<lparr>fc_next := x\<rparr>) s)"
  unfolding links_only_def
  by (intro exI [of _ "conn_list_head s"] exI [of _ "(\<lambda>j. fc_next (g_slots s j))(i := x)"]
      exI [of _ "\<lambda>j. fc_prev (g_slots s j)"]) (simp add: upd_conn_def fun_eq_iff)

lemma links_only_prev: "links_only s (upd_conn i (\<lambda>c. c\<lparr>fc_prev := x\<rparr>) s)"
  unfolding links_only_def
  by (intro exI [of _ "conn_list_head s"] exI [of _ "\<lambda>j. fc_next (g_slots s j)"]
      exI [of _ "(\<lambda>j. fc_prev (g_slots s j))(i := x)"]) (simp add: upd_conn_def fun_eq_iff)

lemmas links_only_intros = links_only_refl links_only_head links_only_next links_only_prev

lemma list_remove_links_only: "links_only s (list_remove_locked w i s)"
  unfolding list_remove_locked_def Let_def
  by (rule links_only_trans [OF _ links_only_prev], rule links_only_trans [OF _ links_only_next])
    (auto split: option.split intro: links_only_intros links_only_trans [OF links_only_head links_only_prev]
      links_only_trans [OF links_only_next links_only_prev])

lemma list_add_links_only: "links_only s (list_add_locked w i s)"
  unfolding list_add_locked_def Let_def
  by (rule links_only_trans [OF _ links_only_head])
    (auto split: option.split intro: links_only_trans [OF links_only_next links_only_prev]
      links_only_trans [OF links_only_trans [OF links_only_next links_only_prev] links_only_prev])

section \<open>Properties\<close>

text \<open>
  The slot table of the TCP engine: from a table in which the free stack lists exactly the
  idle slots, taking a slot yields one that was idle, marks it in use and starts a new
  generation, fails exactly when all 1088 slots are in use, and giving a slot back restores it;
  both keep the stack duplicate-free and in agreement with the in-use flags.
\<close>

theorem tcp_slot_table_correct:
  assumes "tcp_pool.pool_inv s"
  shows "(case slot_acquire s of
            (None, s') \<Rightarrow> (\<forall>i < CONN_SLOT_COUNT. g_slot_state s i) \<and> tcp_pool.pool_inv s'
          | (Some i, s') \<Rightarrow> i < CONN_SLOT_COUNT \<and> \<not> g_slot_state s i \<and> tcp_pool.pool_inv s' \<and>
              g_slot_state s' = (g_slot_state s)(i := True) \<and>
              fc_gen (g_slots s' i) = fc_gen (g_slots s i) + 1 \<and>
              tcp_pool.pool_inv (slot_release i s'))"
proof (cases "slot_acquire s")
  case (Pair r s')
  show ?thesis
  proof (cases r)
    case None
    with Pair assms show ?thesis
      using tcp_pool.acquire_None_iff [OF assms] tcp_pool.acquire_inv [OF assms] by auto
  next
    case (Some i)
    with Pair have a: "slot_acquire s = (Some i, s')" by simp
    note acq = tcp_pool.acquire_Some [OF assms a]
    then have "tcp_pool.pool_inv (slot_release i s')"
      using tcp_pool.release_inv [of s' i] by simp
    moreover have "fc_gen (g_slots s' i) = fc_gen (g_slots s i) + 1"
      using acq by (metis fun_upd_same)
    ultimately show ?thesis using a acq by simp
  qed
qed

theorem tcp_slot_table_correct_witness:
  "case slot_acquire (slots_init tcp_boot) of
     (None, s') \<Rightarrow> False
   | (Some i, s') \<Rightarrow> i < CONN_SLOT_COUNT \<and> \<not> g_slot_state (slots_init tcp_boot) i \<and>
       tcp_pool.pool_inv s' \<and> tcp_pool.pool_inv (slot_release i s')"
proof -
  have "\<not> g_slot_state (slots_init tcp_boot) 0" "0 < CONN_SLOT_COUNT"
    by (simp_all add: slots_init_def CONN_SLOT_COUNT_def)
  then show ?thesis
    using tcp_slot_table_correct [OF slots_init_inv [of tcp_boot]]
    by (auto split: prod.splits option.splits)
qed

text \<open>
  The connection lists are faithful: linking a connection puts it at the front of its
  worker's list, unlinking removes exactly it, and the links of every other list member are
  those of the remaining list.
\<close>

lemma conn_list_operations:
  assumes "conn_list s w xs" and "i \<notin> set xs" and "j \<in> set xs"
  shows "conn_list (list_add_locked w i s) w (i # xs) \<and>
         conn_list (list_remove_locked w j s) w (remove1 j xs) \<and>
         conn_list (list_remove_locked w i (list_add_locked w i s)) w xs"
proof -
  have "conn_list (list_remove_locked w i (list_add_locked w i s)) w (remove1 i (i # xs))"
    by (rule list_remove_locked_conn_list [OF list_add_locked_conn_list [OF assms(1,2)]]) simp
  then show ?thesis
    using assms by (simp add: list_add_locked_conn_list list_remove_locked_conn_list)
qed

lemma conn_list_operations_witness:
  "\<exists>s :: tcp. conn_list s 0 [7, 3] \<and> conn_list (list_add_locked 0 5 s) 0 [5, 7, 3] \<and>
     conn_list (list_remove_locked 0 3 s) 0 [7]"
proof -
  let ?s = "list_add_locked 0 7 (list_add_locked 0 3 tcp_boot)"
  have "conn_list tcp_boot 0 []" by (simp add: conn_list_def tcp_boot_def)
  then have "conn_list (list_add_locked 0 3 tcp_boot) 0 [3]" by (rule list_add_locked_conn_list) simp
  then have l: "conn_list ?s 0 [7, 3]" by (rule list_add_locked_conn_list) simp
  show ?thesis
    using l conn_list_operations [OF l, of 5 3] by auto
qed

end
