(* ===== verification/Conn_Forward.thy ===== *)
theory Conn_Forward
  imports Os
begin

unbundle bit_operations_syntax

text \<open>
  \<open>conn_forward.c\<close> and the mapping of its abstract interest bits to epoll events
  (\<open>map_fwd_to_epoll\<close> of \<open>simple-socks5.c\<close>): which events a relayed connection arms on its two
  descriptors, and when a half-closed connection's grace period is over.
\<close>

definition CONN_FWD_RDHUP :: u32 where "CONN_FWD_RDHUP = push_bit 0 1"
definition CONN_FWD_IN :: u32 where "CONN_FWD_IN = push_bit 1 1"
definition CONN_FWD_OUT :: u32 where "CONN_FWD_OUT = push_bit 2 1"
definition CONN_FWD_GRACE_SEC :: int where "CONN_FWD_GRACE_SEC = 2"

lemmas conn_fwd_bits = CONN_FWD_RDHUP_def CONN_FWD_IN_def CONN_FWD_OUT_def

definition conn_forward_interest ::
  "bool \<Rightarrow> bool \<Rightarrow> bool \<Rightarrow> bool \<Rightarrow> bool \<Rightarrow> u32 \<times> u32" where
  "conn_forward_interest closed client_eof target_eof c2t_pending t2c_pending =
     (if \<not> closed then
        (let c1 = (if \<not> client_eof
                   then (let c = 0 OR CONN_FWD_RDHUP in if \<not> c2t_pending then c OR CONN_FWD_IN else c)
                   else 0);
             c_ev = (if t2c_pending then c1 OR CONN_FWD_OUT else c1);
             t1 = (if \<not> target_eof
                   then (if \<not> t2c_pending then CONN_FWD_RDHUP OR CONN_FWD_IN else CONN_FWD_RDHUP)
                   else 0);
             t_ev = (if c2t_pending then t1 OR CONN_FWD_OUT else t1)
         in (c_ev, t_ev))
      else (0, 0))"

definition conn_forward_grace_expired :: "int \<Rightarrow> int \<Rightarrow> int \<Rightarrow> bool" where
  "conn_forward_grace_expired now eof_since grace =
     (if eof_since = 0 then False else now - eof_since \<ge> grace)"

definition map_fwd_to_epoll :: "u32 \<Rightarrow> u32" where
  "map_fwd_to_epoll fwd =
     (let ev0 = 0;
          ev1 = (if fwd AND CONN_FWD_RDHUP \<noteq> 0 then ev0 OR EPOLLRDHUP else ev0);
          ev2 = (if fwd AND CONN_FWD_IN \<noteq> 0 then ev1 OR EPOLLIN else ev1);
          ev3 = (if fwd AND CONN_FWD_OUT \<noteq> 0 then ev2 OR EPOLLOUT else ev2)
      in ev3)"

definition has_ev :: "u32 \<Rightarrow> u32 \<Rightarrow> bool" where
  "has_ev ev m \<longleftrightarrow> ev AND m \<noteq> 0"

section \<open>Properties\<close>

text \<open>The grace test is monotone in time: once over, it stays over.\<close>

lemma grace_expired_mono:
  "conn_forward_grace_expired now since g \<Longrightarrow> now \<le> now' \<Longrightarrow> conn_forward_grace_expired now' since g"
  by (auto simp: conn_forward_grace_expired_def split: if_splits)

end
