(* ===== verification/Tcp_Relay.thy ===== *)
theory Tcp_Relay
  imports Tcp_State Conn_Forward
begin

unbundle bit_operations_syntax

text \<open>
  The data path of a TCP connection in \<open>simple-socks5.c\<close>: \<open>try_send\<close>, the forwarding part of
  \<open>worker_loop_safe\<close> for one valid event, and \<open>update_conn_events\<close>. The main results are that
  no byte is lost, duplicated or reordered in either direction whatever the kernel does, and
  that the upload counter counts exactly the bytes handed to the target.
\<close>

definition bytes_of :: "byte list option \<Rightarrow> byte list" where
  "bytes_of b = (case b of None \<Rightarrow> [] | Some bs \<Rightarrow> bs)"

section \<open>try\_send\<close>

text \<open>Result: return code, new length, new offset, bytes sent by this call.\<close>

function try_send_loop ::
  "'a os_scheme \<Rightarrow> fd \<Rightarrow> byte list \<Rightarrow> nat \<Rightarrow> nat \<Rightarrow> nat \<Rightarrow> (int \<times> nat \<times> nat \<times> nat) \<times> 'a os_scheme" where
  "try_send_loop s f buf len off tot0 =
     (if off < len then
        (case os_send s f (take (len - off) (drop off buf)) of
           ((sent, e), s') \<Rightarrow>
             if sent > 0 then try_send_loop s' f buf len (off + nat sent) (tot0 + nat sent)
             else ((if would_block e then 0 else -1, len, off, tot0), s'))
      else ((1, 0, 0, tot0), s))"
  by pat_completeness auto
termination
  by (relation "measure (\<lambda>(s, f, buf, len, off, tot0). len - off)") auto

declare try_send_loop.simps [simp del]

definition try_send ::
  "'a os_scheme \<Rightarrow> fd \<Rightarrow> byte list \<Rightarrow> nat \<Rightarrow> nat \<Rightarrow> (int \<times> nat \<times> nat \<times> nat) \<times> 'a os_scheme" where
  "try_send s f buf len off =
     (if f < 0 then ((-1, len, off, 0), s) else try_send_loop s f buf len off 0)"

definition pending :: "byte list \<Rightarrow> nat \<Rightarrow> nat \<Rightarrow> byte list" where
  "pending buf len off = take (len - off) (drop off buf)"

lemma pending_split:
  assumes "off + k \<le> len" and "len \<le> length buf"
  shows "pending buf len off = take k (drop off buf) @ pending buf len (off + k)"
proof -
  have "len - off = k + (len - (off + k))" using assms by simp
  then show ?thesis unfolding pending_def by (metis add.commute drop_drop take_add)
qed

text \<open>What a run of \<open>try_send\<close> did: \<open>k\<close> more bytes of the pending data are on the wire.\<close>

definition sent_spec ::
  "fd \<Rightarrow> byte list \<Rightarrow> nat \<Rightarrow> nat \<Rightarrow> 'a os_scheme \<Rightarrow> (int \<times> nat \<times> nat \<times> nat) \<Rightarrow> nat \<Rightarrow> 'a os_scheme \<Rightarrow> bool" where
  "sent_spec f buf len off s res tot0 s' \<longleftrightarrow>
     (case res of (r, len', off', tot) \<Rightarrow>
        \<exists>q l k. s' = s\<lparr>o_send := q, o_log := o_log s @ l\<rparr> \<and> tot = tot0 + k \<and>
          sent_on f l = take k (drop off buf) \<and> (\<forall>g. g \<noteq> f \<longrightarrow> sent_on g l = []) \<and>
          (\<forall>ev \<in> set l. \<exists>bs. ev = SEND f bs) \<and> off + k \<le> len \<and>
          (if r = 1 then len' = 0 \<and> off' = 0 \<and> off + k = len
           else (r = 0 \<or> r = -1) \<and> len' = len \<and> off' = off + k))"

lemma try_send_loop_spec:
  assumes "try_send_loop s f buf len off tot0 = (res, s')" and "off \<le> len" and "len \<le> length buf"
  shows "sent_spec f buf len off s res tot0 s'"
  using assms
proof (induction s f buf len off tot0 arbitrary: res s' rule: try_send_loop.induct)
  case (1 s f buf len off tot0)
  show ?case
  proof (cases "off < len")
    case False
    with "1.prems" show ?thesis
      by (auto simp: try_send_loop.simps [of s] sent_spec_def
          intro!: exI [of _ "o_send s"] exI [of _ "[]"] exI [of _ "0 :: nat"])
  next
    case True
    obtain sent e s1 where os: "os_send s f (take (len - off) (drop off buf)) = ((sent, e), s1)"
      by (metis prod.exhaust)
    then obtain q where s1: "s1 = s\<lparr>o_send := q, o_log := o_log s @
        (if sent > 0 then [SEND f (take (nat sent) (take (len - off) (drop off buf)))] else [])\<rparr>"
      and le: "sent > 0 \<longrightarrow> nat sent \<le> len - off"
      using os_send_form [OF os] "1.prems"(3) by auto
    show ?thesis
    proof (cases "sent > 0")
      case False
      with "1.prems" True os s1 show ?thesis
        by (auto simp: try_send_loop.simps [of s] sent_spec_def split: if_splits
            intro!: exI [of _ q] exI [of _ "[]"] exI [of _ "0 :: nat"])
    next
      case sent: True
      let ?n = "nat sent"
      have rec: "try_send_loop s1 f buf len (off + ?n) (tot0 + ?n) = (res, s')"
        using "1.prems"(1) True os sent by (simp add: try_send_loop.simps [of s])
      have "sent_spec f buf len (off + ?n) s1 res (tot0 + ?n) s'"
        by (rule "1.IH" [OF True os [symmetric] refl sent rec]) (use le sent True "1.prems" in auto)
      then obtain r len' off' tot q' l k where res: "res = (r, len', off', tot)"
        and s': "s' = s1\<lparr>o_send := q', o_log := o_log s1 @ l\<rparr>" and k: "tot = tot0 + ?n + k"
        and on: "sent_on f l = take k (drop (off + ?n) buf)" "\<forall>g. g \<noteq> f \<longrightarrow> sent_on g l = []"
        and evs: "\<forall>ev \<in> set l. \<exists>bs. ev = SEND f bs" and fit: "off + ?n + k \<le> len"
        and fin: "if r = 1 then len' = 0 \<and> off' = 0 \<and> off + ?n + k = len
           else (r = 0 \<or> r = -1) \<and> len' = len \<and> off' = off + ?n + k"
        unfolding sent_spec_def by (cases res) auto
      let ?l = "SEND f (take ?n (drop off buf)) # l"
      have "take (?n + k) (drop off buf) = take ?n (drop off buf) @ take k (drop (off + ?n) buf)"
        by (simp add: take_add add.commute [of off])
      then have "sent_on f ?l = take (?n + k) (drop off buf)" using on by simp
      moreover have "s' = s\<lparr>o_send := q', o_log := o_log s @ ?l\<rparr>"
        using s' s1 sent le by (simp add: min_absorb1)
      ultimately show ?thesis
        unfolding sent_spec_def res using k on evs fit fin
        by (auto intro!: exI [of _ q'] exI [of _ ?l] exI [of _ "?n + k"])
    qed
  qed
qed

lemma try_send_spec:
  assumes "try_send s f buf len off = (res, s')" and "off \<le> len" and "len \<le> length buf"
  shows "sent_spec f buf len off s res 0 s'"
proof (cases "f < 0")
  case True
  with assms show ?thesis
    by (auto simp: try_send_def sent_spec_def
        intro!: exI [of _ "o_send s"] exI [of _ "[]"] exI [of _ "0 :: nat"])
next
  case False
  with assms show ?thesis by (auto simp: try_send_def intro: try_send_loop_spec)
qed

section \<open>Forwarding one event\<close>

definition account_upload :: "nat \<Rightarrow> nat \<Rightarrow> 'a tcp_scheme \<Rightarrow> 'a tcp_scheme" where
  "account_upload sent widx s =
     (if sent > 0 then s\<lparr>g_tx_bytes := (g_tx_bytes s)(widx := g_tx_bytes s widx + int sent)\<rparr> else s)"

text \<open>Send what the connection holds for its client; for its target, with the accounting.\<close>

definition send_t2c :: "nat \<Rightarrow> 'a tcp_scheme \<Rightarrow> int \<times> 'a tcp_scheme" where
  "send_t2c i s =
     (let c = g_slots s i in
      case try_send s (fc_client_fd c) (bytes_of (fc_t2c_buf c)) (fc_t2c_len c) (fc_t2c_off c) of
        ((r, len, off, sent), s1) \<Rightarrow> (r, upd_conn i (\<lambda>c. c\<lparr>fc_t2c_len := len, fc_t2c_off := off\<rparr>) s1))"

definition send_c2t :: "nat \<Rightarrow> nat \<Rightarrow> 'a tcp_scheme \<Rightarrow> int \<times> 'a tcp_scheme" where
  "send_c2t my_widx i s =
     (let c = g_slots s i in
      case try_send s (fc_target_fd c) (bytes_of (fc_c2t_buf c)) (fc_c2t_len c) (fc_c2t_off c) of
        ((r, len, off, sent), s1) \<Rightarrow>
          (r, account_upload sent my_widx
                (upd_conn i (\<lambda>c. c\<lparr>fc_c2t_len := len, fc_c2t_off := off\<rparr>) s1)))"

definition flush_to_client :: "nat \<Rightarrow> bool \<times> 'a tcp_scheme \<Rightarrow> bool \<times> 'a tcp_scheme" where
  "flush_to_client i fs =
     (case fs of (fatal, s) \<Rightarrow>
        if fc_t2c_len (g_slots s i) > 0
        then (case send_t2c i s of (r, s1) \<Rightarrow> (if r < 0 then True else fatal, s1))
        else (fatal, s))"

definition flush_to_target :: "nat \<Rightarrow> nat \<Rightarrow> bool \<times> 'a tcp_scheme \<Rightarrow> bool \<times> 'a tcp_scheme" where
  "flush_to_target my_widx i fs =
     (case fs of (fatal, s) \<Rightarrow>
        if fc_c2t_len (g_slots s i) > 0
        then (case send_c2t my_widx i s of (r, s1) \<Rightarrow> (if r < 0 then True else fatal, s1))
        else (fatal, s))"

definition read_from_client :: "nat \<Rightarrow> nat \<Rightarrow> int \<Rightarrow> bool \<times> 'a tcp_scheme \<Rightarrow> bool \<times> 'a tcp_scheme" where
  "read_from_client my_widx i now fs =
     (case fs of (fatal, s) \<Rightarrow>
        let c = g_slots s i in
        if \<not> fatal \<and> fc_c2t_len c = 0 \<and> \<not> fc_client_eof c then
          (case os_recv s (fc_client_fd c) BUFFER_SIZE of
             ((r, d, e), s1) \<Rightarrow>
               if r > 0 then
                 (let s2 = upd_conn i (\<lambda>c. c\<lparr>fc_c2t_buf := Some (buf_write (bytes_of (fc_c2t_buf c)) 0 d),
                                             fc_c2t_len := nat r, fc_c2t_off := 0\<rparr>) s1
                  in case send_c2t my_widx i s2 of (r2, s3) \<Rightarrow> (r2 < 0, s3))
               else if r = 0 then
                 (False, upd_conn i (\<lambda>c. c\<lparr>fc_client_eof := True, fc_eof_since := now\<rparr>) s1)
               else (\<not> would_block e, s1))
        else (fatal, s))"

definition read_from_target :: "nat \<Rightarrow> nat \<Rightarrow> bool \<times> 'a tcp_scheme \<Rightarrow> bool \<times> 'a tcp_scheme" where
  "read_from_target my_widx i fs =
     (case fs of (fatal, s) \<Rightarrow>
        let c = g_slots s i in
        if \<not> fatal \<and> fc_t2c_len c = 0 then
          (case os_recv s (fc_target_fd c) BUFFER_SIZE of
             ((r, d, e), s1) \<Rightarrow>
               if r > 0 then
                 (let s2 = upd_conn i (\<lambda>c. c\<lparr>fc_t2c_buf := Some (buf_write (bytes_of (fc_t2c_buf c)) 0 d),
                                             fc_t2c_len := nat r, fc_t2c_off := 0\<rparr>) s1;
                      s3 = s2\<lparr>g_rx_bytes := (g_rx_bytes s2)(my_widx := g_rx_bytes s2 my_widx + r)\<rparr>
                  in case send_t2c i s3 of (r2, s4) \<Rightarrow> (r2 < 0, s4))
               else (r = 0 \<or> \<not> would_block e, s1))
        else (fatal, s))"

text \<open>The \<open>if (!fatal_error) { ... }\<close> block: flush both buffers, then read both sides.\<close>

definition forward_data :: "nat \<Rightarrow> nat \<Rightarrow> int \<Rightarrow> 'a tcp_scheme \<Rightarrow> bool \<times> 'a tcp_scheme" where
  "forward_data my_widx i now s =
     read_from_target my_widx i
       (read_from_client my_widx i now
         (flush_to_target my_widx i
           (flush_to_client i (False, s))))"

text \<open>Whether a connection whose buffers are empty is finished: grace period or peeked FIN.\<close>

definition drained_and_done :: "nat \<Rightarrow> int \<Rightarrow> 'a tcp_scheme \<Rightarrow> bool" where
  "drained_and_done i now s =
     (let c = g_slots s i in
      if fc_c2t_len c = 0 \<and> fc_t2c_len c = 0 then
        (if fc_client_eof c then conn_forward_grace_expired now (fc_eof_since c) CONN_FWD_GRACE_SEC
         else os_peek s (fc_target_fd c) = 0)
      else False)"

text \<open>\<open>if (epoll_ctl(epoll_fd, EPOLL_CTL_MOD, fd, &ev) == 0) full->..._events = ev;\<close>\<close>

definition conn_mod ::
  "fd \<Rightarrow> fd \<Rightarrow> u32 \<Rightarrow> u64 \<Rightarrow> nat \<Rightarrow> (full_conn \<Rightarrow> full_conn) \<Rightarrow> 'a tcp_scheme \<Rightarrow> 'a tcp_scheme" where
  "conn_mod epoll_fd f ev u i upd s =
     (case os_epoll_ctl s CTL_MOD epoll_fd f ev u of
        (ok, s') \<Rightarrow> if ok then upd_conn i upd s' else s')"

definition update_conn_events :: "fd \<Rightarrow> nat \<Rightarrow> 'a tcp_scheme \<Rightarrow> 'a tcp_scheme" where
  "update_conn_events epoll_fd i s =
     (let c = g_slots s i in
      if fc_closed c then s
      else case conn_forward_interest (fc_closed c) (fc_client_eof c) (fc_target_eof_since c \<noteq> 0)
                  (fc_c2t_len c > 0) (fc_t2c_len c > 0) of
        (c_fwd, t_fwd) \<Rightarrow>
          let c_ev = map_fwd_to_epoll c_fwd;
              t_ev = map_fwd_to_epoll t_fwd;
              s1 = (if fc_client_events c \<noteq> c_ev
                    then conn_mod epoll_fd (fc_client_fd c) c_ev (fc_ep_u64 c) i
                           (\<lambda>c. c\<lparr>fc_client_events := c_ev\<rparr>) s
                    else s);
              s2 = (if fc_target_events c \<noteq> t_ev
                    then conn_mod epoll_fd (fc_target_fd c) t_ev (fc_ep_u64 c OR CONN_EV_TARGET_FLAG) i
                           (\<lambda>c. c\<lparr>fc_target_events := t_ev\<rparr>) s1
                    else s1)
          in s2)"

text \<open>
  A valid event of connection \<open>i\<close>: forward, note a half-closed target, decide whether the
  connection is finished. Result: \<open>fatal_error\<close> and the state.
\<close>

definition relay_io ::
  "nat \<Rightarrow> nat \<Rightarrow> bool \<Rightarrow> u32 \<Rightarrow> int \<Rightarrow> 'a tcp_scheme \<Rightarrow> bool \<times> 'a tcp_scheme" where
  "relay_io my_widx i is_target ev now s =
     (let s0 = upd_conn i (\<lambda>c. c\<lparr>fc_last_active := now\<rparr>) s;
          fatal0 = (ev AND (EPOLLERR OR EPOLLHUP) \<noteq> 0)
      in case (if \<not> fatal0 then forward_data my_widx i now s0 else (True, s0)) of
          (fatal1, s1) \<Rightarrow>
            let c = g_slots s1 i;
                s2 = (if \<not> fatal1 \<and> is_target \<and> fc_target_eof_since c = 0 \<and>
                         ev AND EPOLLRDHUP \<noteq> 0 \<and> fc_target_fd c \<ge> 0
                      then upd_conn i (\<lambda>c. c\<lparr>fc_target_eof_since := now\<rparr>) s1 else s1)
            in (fatal1 \<or> drained_and_done i now s2, s2))"

text \<open>
  A finished connection is marked closed, unlinked and put on the worker's garbage list, once;
  otherwise its armed events are refreshed.
\<close>

definition relay_event ::
  "nat \<Rightarrow> nat \<Rightarrow> bool \<Rightarrow> u32 \<Rightarrow> int \<Rightarrow> 'a tcp_scheme \<times> nat list \<Rightarrow> 'a tcp_scheme \<times> nat list" where
  "relay_event my_widx i is_target ev now sg =
     (case sg of (s, garbage) \<Rightarrow>
        case relay_io my_widx i is_target ev now s of
          (fatal, s2) \<Rightarrow>
             if fatal then
               (if \<not> fc_closed (g_slots s2 i)
                then (list_remove_locked my_widx i (upd_conn i (\<lambda>c. c\<lparr>fc_closed := True\<rparr>) s2),
                      garbage @ [i])
                else (s2, garbage))
             else (update_conn_events (w_epoll_fd s2 my_widx) i s2, garbage))"

section \<open>Stream integrity\<close>

text \<open>
  The buffers of a connection are consistent: the two descriptors differ, offsets are within
  lengths, lengths within the initialised part of the buffer and within the 64 KiB limit.
\<close>

definition conn_wf :: "full_conn \<Rightarrow> bool" where
  "conn_wf c \<longleftrightarrow>
     fc_client_fd c \<noteq> fc_target_fd c \<and>
     fc_c2t_off c \<le> fc_c2t_len c \<and> fc_c2t_len c \<le> length (bytes_of (fc_c2t_buf c)) \<and>
     fc_t2c_off c \<le> fc_t2c_len c \<and> fc_t2c_len c \<le> length (bytes_of (fc_t2c_buf c)) \<and>
     fc_c2t_len c \<le> BUFFER_SIZE \<and> fc_t2c_len c \<le> BUFFER_SIZE"

text \<open>
  Everything the client has ever sent, split as the proxy sees it: already accepted by the
  target socket, held in the forward buffer, still unread. The same from target to client.
\<close>

definition upstream :: "nat \<Rightarrow> 'a tcp_scheme \<Rightarrow> byte list" where
  "upstream i s =
     (let c = g_slots s i in
      sent_on (fc_target_fd c) (o_log s) @
      pending (bytes_of (fc_c2t_buf c)) (fc_c2t_len c) (fc_c2t_off c) @
      stream_of (o_recv s (fc_client_fd c)))"

definition downstream :: "nat \<Rightarrow> 'a tcp_scheme \<Rightarrow> byte list" where
  "downstream i s =
     (let c = g_slots s i in
      sent_on (fc_client_fd c) (o_log s) @
      pending (bytes_of (fc_t2c_buf c)) (fc_t2c_len c) (fc_t2c_off c) @
      stream_of (o_recv s (fc_target_fd c)))"

text \<open>What a forwarding step keeps.\<close>

definition relay_ok :: "nat \<Rightarrow> nat \<Rightarrow> 'a tcp_scheme \<Rightarrow> 'a tcp_scheme \<Rightarrow> bool" where
  "relay_ok w i s s' \<longleftrightarrow>
     conn_wf (g_slots s' i) \<and> upstream i s' = upstream i s \<and> downstream i s' = downstream i s \<and>
     (\<forall>j. j \<noteq> i \<longrightarrow> g_slots s' j = g_slots s j) \<and>
     fc_client_fd (g_slots s' i) = fc_client_fd (g_slots s i) \<and>
     fc_target_fd (g_slots s' i) = fc_target_fd (g_slots s i) \<and>
     g_tx_bytes s' w - g_tx_bytes s w =
       int (length (sent_on (fc_target_fd (g_slots s i)) (o_log s'))) -
       int (length (sent_on (fc_target_fd (g_slots s i)) (o_log s))) \<and>
     (\<exists>l. o_log s' = o_log s @ l \<and>
        (\<forall>ev \<in> set l. \<exists>f bs. ev = SEND f bs \<and>
           f \<in> {fc_client_fd (g_slots s i), fc_target_fd (g_slots s i)}))"

lemma relay_ok_refl: "conn_wf (g_slots s i) \<Longrightarrow> relay_ok w i s s"
  by (simp add: relay_ok_def)

lemma relay_ok_trans: "relay_ok w i s t \<Longrightarrow> relay_ok w i t u \<Longrightarrow> relay_ok w i s u"
  unfolding relay_ok_def by (intro conjI; (elim conjE exE)?) (auto simp: ball_Un)

lemma pending_full [simp]: "pending buf 0 0 = []" "pending buf len len = []"
  by (simp_all add: pending_def)

lemma pending_prefix: "pending (d @ rest) (length d) 0 = d"
  by (simp add: pending_def)

lemma account_upload_simps [simp]:
  "g_slots (account_upload k w s) = g_slots s" "o_log (account_upload k w s) = o_log s"
  "o_recv (account_upload k w s) = o_recv s"
  "g_tx_bytes (account_upload k w s) w = g_tx_bytes s w + int k"
  by (simp_all add: account_upload_def)

lemma send_c2t_ok:
  assumes "conn_wf (g_slots s i)" and "send_c2t w i s = (r, s')"
  shows "relay_ok w i s s'"
proof -
  let ?c = "g_slots s i" and ?buf = "bytes_of (fc_c2t_buf (g_slots s i))"
  obtain r0 len' off' tot s1 where ts: "try_send s (fc_target_fd ?c) ?buf (fc_c2t_len ?c) (fc_c2t_off ?c)
      = ((r0, len', off', tot), s1)" by (metis prod.exhaust)
  have wf: "fc_c2t_off ?c \<le> fc_c2t_len ?c" "fc_c2t_len ?c \<le> length ?buf"
    using assms(1) by (auto simp: conn_wf_def)
  from try_send_spec [OF ts wf] obtain q l where
    s1: "s1 = s\<lparr>o_send := q, o_log := o_log s @ l\<rparr>"
    and on: "sent_on (fc_target_fd ?c) l = take tot (drop (fc_c2t_off ?c) ?buf)"
      "\<forall>g. g \<noteq> fc_target_fd ?c \<longrightarrow> sent_on g l = []" "\<forall>ev \<in> set l. \<exists>bs. ev = SEND (fc_target_fd ?c) bs"
    and fit: "fc_c2t_off ?c + tot \<le> fc_c2t_len ?c"
    and fin: "if r0 = 1 then len' = 0 \<and> off' = 0 \<and> fc_c2t_off ?c + tot = fc_c2t_len ?c
       else (r0 = 0 \<or> r0 = -1) \<and> len' = fc_c2t_len ?c \<and> off' = fc_c2t_off ?c + tot"
    by (auto simp: sent_spec_def)
  have s': "s' = account_upload tot w (upd_conn i (\<lambda>c. c\<lparr>fc_c2t_len := len', fc_c2t_off := off'\<rparr>) s1)"
    using assms(2) ts by (simp add: send_c2t_def Let_def)
  have pend: "take tot (drop (fc_c2t_off ?c) ?buf) @ pending ?buf len' off' =
      pending ?buf (fc_c2t_len ?c) (fc_c2t_off ?c)"
    using pending_split [OF fit wf(2)] fin by (auto split: if_splits)
  have bounds: "off' \<le> len'" "len' \<le> fc_c2t_len ?c" using fin fit by (auto split: if_splits)
  have cnt: "length (take tot (drop (fc_c2t_off ?c) ?buf)) = tot" using fit wf(2) by simp
  show ?thesis
    unfolding relay_ok_def s' s1 upstream_def downstream_def
    using assms(1) on pend [symmetric] bounds cnt by (auto simp: conn_wf_def Let_def)
qed

lemma send_t2c_ok:
  assumes "conn_wf (g_slots s i)" and "send_t2c i s = (r, s')"
  shows "relay_ok w i s s'"
proof -
  let ?c = "g_slots s i" and ?buf = "bytes_of (fc_t2c_buf (g_slots s i))"
  obtain r0 len' off' tot s1 where ts: "try_send s (fc_client_fd ?c) ?buf (fc_t2c_len ?c) (fc_t2c_off ?c)
      = ((r0, len', off', tot), s1)" by (metis prod.exhaust)
  have wf: "fc_t2c_off ?c \<le> fc_t2c_len ?c" "fc_t2c_len ?c \<le> length ?buf"
    using assms(1) by (auto simp: conn_wf_def)
  from try_send_spec [OF ts wf] obtain q l where
    s1: "s1 = s\<lparr>o_send := q, o_log := o_log s @ l\<rparr>"
    and on: "sent_on (fc_client_fd ?c) l = take tot (drop (fc_t2c_off ?c) ?buf)"
      "\<forall>g. g \<noteq> fc_client_fd ?c \<longrightarrow> sent_on g l = []" "\<forall>ev \<in> set l. \<exists>bs. ev = SEND (fc_client_fd ?c) bs"
    and fit: "fc_t2c_off ?c + tot \<le> fc_t2c_len ?c"
    and fin: "if r0 = 1 then len' = 0 \<and> off' = 0 \<and> fc_t2c_off ?c + tot = fc_t2c_len ?c
       else (r0 = 0 \<or> r0 = -1) \<and> len' = fc_t2c_len ?c \<and> off' = fc_t2c_off ?c + tot"
    by (auto simp: sent_spec_def)
  have s': "s' = upd_conn i (\<lambda>c. c\<lparr>fc_t2c_len := len', fc_t2c_off := off'\<rparr>) s1"
    using assms(2) ts by (simp add: send_t2c_def Let_def)
  have pend: "take tot (drop (fc_t2c_off ?c) ?buf) @ pending ?buf len' off' =
      pending ?buf (fc_t2c_len ?c) (fc_t2c_off ?c)"
    using pending_split [OF fit wf(2)] fin by (auto split: if_splits)
  have bounds: "off' \<le> len'" "len' \<le> fc_t2c_len ?c" using fin fit by (auto split: if_splits)
  have ne: "fc_target_fd ?c \<noteq> fc_client_fd ?c" using assms(1) by (simp add: conn_wf_def)
  show ?thesis
    unfolding relay_ok_def s' s1 upstream_def downstream_def
    using assms(1) on pend [symmetric] bounds ne by (auto simp: conn_wf_def Let_def)
qed

lemma relay_ok_wf: "relay_ok w i s s' \<Longrightarrow> conn_wf (g_slots s' i)"
  by (simp add: relay_ok_def)

text \<open>Receiving into an empty forward buffer moves bytes from the unread stream to the buffer.\<close>

lemma recv_client_ok:
  assumes "conn_wf (g_slots s i)" and "fc_c2t_len (g_slots s i) = 0"
    and "os_recv s (fc_client_fd (g_slots s i)) BUFFER_SIZE = ((r, d, e), s1)" and "r > 0"
  shows "relay_ok w i s (upd_conn i (\<lambda>c. c\<lparr>fc_c2t_buf := Some (buf_write (bytes_of (fc_c2t_buf c)) 0 d),
           fc_c2t_len := nat r, fc_c2t_off := 0\<rparr>) s1)"
proof -
  from os_recv_form [OF assms(3)] assms(4) obtain q where
    s1: "s1 = s\<lparr>o_recv := (o_recv s)(fc_client_fd (g_slots s i) := q)\<rparr>"
    and st: "stream_of (o_recv s (fc_client_fd (g_slots s i))) = d @ stream_of q"
    and d: "length d \<le> BUFFER_SIZE" "nat r = length d" by auto
  show ?thesis
    unfolding relay_ok_def upstream_def downstream_def s1
    using assms(1,2) st d by (auto simp: conn_wf_def Let_def bytes_of_def pending_prefix)
qed

lemma recv_target_ok:
  assumes "conn_wf (g_slots s i)" and "fc_t2c_len (g_slots s i) = 0"
    and "os_recv s (fc_target_fd (g_slots s i)) BUFFER_SIZE = ((r, d, e), s1)" and "r > 0"
  shows "relay_ok w i s (upd_conn i (\<lambda>c. c\<lparr>fc_t2c_buf := Some (buf_write (bytes_of (fc_t2c_buf c)) 0 d),
           fc_t2c_len := nat r, fc_t2c_off := 0\<rparr>) s1)"
proof -
  from os_recv_form [OF assms(3)] assms(4) obtain q where
    s1: "s1 = s\<lparr>o_recv := (o_recv s)(fc_target_fd (g_slots s i) := q)\<rparr>"
    and st: "stream_of (o_recv s (fc_target_fd (g_slots s i))) = d @ stream_of q"
    and d: "length d \<le> BUFFER_SIZE" "nat r = length d" by auto
  show ?thesis
    unfolding relay_ok_def upstream_def downstream_def s1
    using assms(1,2) st d by (auto simp: conn_wf_def Let_def bytes_of_def pending_prefix)
qed

lemma recv_none_ok:
  assumes "conn_wf (g_slots s i)" and "os_recv s f n = ((r, d, e), s1)" and "r \<le> 0"
  shows "relay_ok w i s s1"
proof -
  from os_recv_form [OF assms(2)] assms(3) obtain q where
    "s1 = s\<lparr>o_recv := (o_recv s)(f := q)\<rparr>" "stream_of (o_recv s f) = stream_of q" by auto
  then show ?thesis
    unfolding relay_ok_def upstream_def downstream_def using assms(1) by (auto simp: Let_def)
qed

text \<open>Fields outside the data path do not matter.\<close>

lemma relay_ok_flag:
  assumes "relay_ok w i s t" and "\<And>c. conn_wf (f c) = conn_wf c"
    and "\<And>c. fc_client_fd (f c) = fc_client_fd c" "\<And>c. fc_target_fd (f c) = fc_target_fd c"
    and "\<And>c. fc_c2t_buf (f c) = fc_c2t_buf c" "\<And>c. fc_t2c_buf (f c) = fc_t2c_buf c"
    and "\<And>c. fc_c2t_len (f c) = fc_c2t_len c" "\<And>c. fc_t2c_len (f c) = fc_t2c_len c"
    and "\<And>c. fc_c2t_off (f c) = fc_c2t_off c" "\<And>c. fc_t2c_off (f c) = fc_t2c_off c"
  shows "relay_ok w i s (upd_conn i f t)"
proof -
  have "upstream i (upd_conn i f t) = upstream i t" "downstream i (upd_conn i f t) = downstream i t"
    using assms(3-) by (simp_all add: upstream_def downstream_def Let_def)
  then show ?thesis using assms(1-4) by (simp add: relay_ok_def)
qed

lemma relay_ok_rx: "relay_ok w i s t \<Longrightarrow> relay_ok w i s (t\<lparr>g_rx_bytes := x\<rparr>)"
proof -
  assume "relay_ok w i s t"
  moreover have "upstream i (t\<lparr>g_rx_bytes := x\<rparr>) = upstream i t"
    "downstream i (t\<lparr>g_rx_bytes := x\<rparr>) = downstream i t"
    by (simp_all add: upstream_def downstream_def Let_def)
  ultimately show ?thesis by (simp add: relay_ok_def)
qed

lemma flush_to_client_ok:
  assumes "relay_ok w i s0 s" and "flush_to_client i (f, s) = (f', s')"
  shows "relay_ok w i s0 s'"
  using assms send_t2c_ok [OF relay_ok_wf [OF assms(1)]] relay_ok_trans [OF assms(1)]
  by (auto simp: flush_to_client_def split: if_splits prod.splits)

lemma flush_to_target_ok:
  assumes "relay_ok w i s0 s" and "flush_to_target w i (f, s) = (f', s')"
  shows "relay_ok w i s0 s'"
  using assms send_c2t_ok [OF relay_ok_wf [OF assms(1)]] relay_ok_trans [OF assms(1)]
  by (auto simp: flush_to_target_def split: if_splits prod.splits)

lemma read_from_client_ok:
  assumes "relay_ok w i s0 s" and "read_from_client w i now (f, s) = (f', s')"
  shows "relay_ok w i s0 s'"
proof (cases "\<not> f \<and> fc_c2t_len (g_slots s i) = 0 \<and> \<not> fc_client_eof (g_slots s i)")
  case False
  with assms show ?thesis by (auto simp: read_from_client_def Let_def)
next
  case True
  note wf = relay_ok_wf [OF assms(1)]
  obtain r d e s1 where rc: "os_recv s (fc_client_fd (g_slots s i)) BUFFER_SIZE = ((r, d, e), s1)"
    by (metis prod.exhaust)
  show ?thesis
  proof (cases "r > 0")
    case pos: True
    let ?s2 = "upd_conn i (\<lambda>c. c\<lparr>fc_c2t_buf := Some (buf_write (bytes_of (fc_c2t_buf c)) 0 d),
           fc_c2t_len := nat r, fc_c2t_off := 0\<rparr>) s1"
    have ok2: "relay_ok w i s0 ?s2"
      by (rule relay_ok_trans [OF assms(1) recv_client_ok [OF wf _ rc pos]]) (use True in simp)
    obtain r2 where "send_c2t w i ?s2 = (r2, s')"
      using assms(2) True rc pos by (auto simp: read_from_client_def Let_def split: prod.splits)
    from relay_ok_trans [OF ok2 send_c2t_ok [OF relay_ok_wf [OF ok2] this]] show ?thesis .
  next
    case neg: False
    then have "relay_ok w i s0 s1"
      using relay_ok_trans [OF assms(1) recv_none_ok [OF wf rc]] by simp
    with assms(2) True rc neg show ?thesis
      by (auto simp: read_from_client_def Let_def conn_wf_def split: if_splits intro!: relay_ok_flag)
  qed
qed

lemma read_from_target_ok:
  assumes "relay_ok w i s0 s" and "read_from_target w i (f, s) = (f', s')"
  shows "relay_ok w i s0 s'"
proof (cases "\<not> f \<and> fc_t2c_len (g_slots s i) = 0")
  case False
  with assms show ?thesis by (auto simp: read_from_target_def Let_def)
next
  case True
  note wf = relay_ok_wf [OF assms(1)]
  obtain r d e s1 where rc: "os_recv s (fc_target_fd (g_slots s i)) BUFFER_SIZE = ((r, d, e), s1)"
    by (metis prod.exhaust)
  show ?thesis
  proof (cases "r > 0")
    case pos: True
    let ?s2 = "upd_conn i (\<lambda>c. c\<lparr>fc_t2c_buf := Some (buf_write (bytes_of (fc_t2c_buf c)) 0 d),
           fc_t2c_len := nat r, fc_t2c_off := 0\<rparr>) s1"
    let ?s3 = "?s2\<lparr>g_rx_bytes := (g_rx_bytes ?s2)(w := g_rx_bytes ?s2 w + r)\<rparr>"
    have ok3: "relay_ok w i s0 ?s3"
      by (rule relay_ok_rx, rule relay_ok_trans [OF assms(1) recv_target_ok [OF wf _ rc pos]])
        (use True in simp)
    obtain r2 where "send_t2c i ?s3 = (r2, s')"
      using assms(2) True rc pos by (auto simp: read_from_target_def Let_def split: prod.splits)
    from relay_ok_trans [OF ok3 send_t2c_ok [OF relay_ok_wf [OF ok3] this]] show ?thesis .
  next
    case neg: False
    then have "relay_ok w i s0 s1"
      using relay_ok_trans [OF assms(1) recv_none_ok [OF wf rc]] by simp
    with assms(2) True rc neg show ?thesis by (auto simp: read_from_target_def Let_def)
  qed
qed

lemma forward_data_ok:
  assumes "conn_wf (g_slots s i)" and "forward_data w i now s = (f, s')"
  shows "relay_ok w i s s'"
proof -
  obtain f1 s1 where 1: "flush_to_client i (False, s) = (f1, s1)" by force
  obtain f2 s2 where 2: "flush_to_target w i (f1, s1) = (f2, s2)" by force
  obtain f3 s3 where 3: "read_from_client w i now (f2, s2) = (f3, s3)" by force
  have 4: "read_from_target w i (f3, s3) = (f, s')" using assms(2) 1 2 3 by (simp add: forward_data_def)
  have "relay_ok w i s s1" by (rule flush_to_client_ok [OF relay_ok_refl [OF assms(1)] 1])
  then have "relay_ok w i s s2" by (rule flush_to_target_ok [OF _ 2])
  then have "relay_ok w i s s3" by (rule read_from_client_ok [OF _ 3])
  then show ?thesis by (rule read_from_target_ok [OF _ 4])
qed

lemma os_epoll_ctl_form:
  assumes "os_epoll_ctl s op ep f ev u = (ok, s')"
  shows "s' = s\<lparr>o_ctl := o_ctl s', o_log := o_log s @ (if ok then [CTL op ep f ev u] else [])\<rparr>"
  using assms by (auto simp: os_epoll_ctl_def log_ev_def split: list.splits if_splits)

text \<open>Refreshing the armed events touches only the event masks and the epoll set.\<close>

definition masks_only :: "nat \<Rightarrow> 'a tcp_scheme \<Rightarrow> 'a tcp_scheme \<Rightarrow> bool" where
  "masks_only i s t \<longleftrightarrow>
     (\<exists>q l c e. t = s\<lparr>o_ctl := q, o_log := o_log s @ l, g_slots := (g_slots s)
           (i := (g_slots s i)\<lparr>fc_client_events := c, fc_target_events := e\<rparr>)\<rparr> \<and>
        (\<forall>x \<in> set l. \<exists>ep f ev u. x = CTL CTL_MOD ep f ev u))"

lemma masks_only_refl: "masks_only i s s"
  unfolding masks_only_def
  by (intro exI [of _ "o_ctl s"] exI [of _ "[]"] exI [of _ "fc_client_events (g_slots s i)"]
      exI [of _ "fc_target_events (g_slots s i)"]) simp

lemma masks_only_trans: "masks_only i s t \<Longrightarrow> masks_only i t u \<Longrightarrow> masks_only i s u"
  unfolding masks_only_def by (elim exE conjE) (simp, force simp: ball_Un)

lemma conn_mod_masks:
  assumes "upd = (\<lambda>c. c\<lparr>fc_client_events := x\<rparr>) \<or> upd = (\<lambda>c. c\<lparr>fc_target_events := x\<rparr>)"
  shows "masks_only i s (conn_mod ep f ev u i upd s)"
proof -
  obtain ok s' where os: "os_epoll_ctl s CTL_MOD ep f ev u = (ok, s')" by force
  note s' = os_epoll_ctl_form [OF os]
  let ?l = "if ok then [CTL CTL_MOD ep f ev u] else []" and ?c = "g_slots s i"
  let ?d = "if ok then upd ?c else ?c"
  have "g_slots s' = g_slots s" by (subst s') simp
  have "conn_mod ep f ev u i upd s =
      (if ok then upd_conn i upd else id) (s\<lparr>o_ctl := o_ctl s', o_log := o_log s @ ?l\<rparr>)"
    using os s' by (simp add: conn_mod_def)
  also have "\<dots> = s\<lparr>o_ctl := o_ctl s', o_log := o_log s @ ?l, g_slots := (g_slots s)
           (i := ?c\<lparr>fc_client_events := fc_client_events ?d, fc_target_events := fc_target_events ?d\<rparr>)\<rparr>"
    using assms by (auto simp: upd_conn_def)
  finally show ?thesis
    unfolding masks_only_def by (intro exI conjI, assumption) simp
qed

lemma update_conn_events_masks: "masks_only i s (update_conn_events ep i s)"
  by (auto simp: update_conn_events_def Let_def split: prod.split
      intro!: masks_only_refl conn_mod_masks intro: masks_only_trans [OF conn_mod_masks conn_mod_masks])

lemma sent_on_ctl: "\<forall>x \<in> set l. \<exists>ep f ev u. x = CTL CTL_MOD ep f ev u \<Longrightarrow> sent_on g l = []"
  by (induction l) auto

lemma masks_only_streams:
  assumes "masks_only i s t"
  shows "upstream i t = upstream i s \<and> downstream i t = downstream i s \<and>
         conn_wf (g_slots t i) = conn_wf (g_slots s i) \<and> sent_on f (o_log t) = sent_on f (o_log s) \<and>
         g_tx_bytes t = g_tx_bytes s \<and> (\<forall>j. j \<noteq> i \<longrightarrow> g_slots t j = g_slots s j)"
  using assms unfolding masks_only_def
  by (elim exE conjE) (simp add: sent_on_ctl upstream_def downstream_def Let_def conn_wf_def)

lemma links_only_streams:
  assumes "links_only s t"
  shows "upstream i t = upstream i s \<and> downstream i t = downstream i s \<and>
         conn_wf (g_slots t i) = conn_wf (g_slots s i) \<and> o_log t = o_log s \<and>
         g_tx_bytes t = g_tx_bytes s"
  using assms unfolding links_only_def
  by (elim exE) (simp add: upstream_def downstream_def Let_def conn_wf_def)

text \<open>What one event keeps of its connection, link and status fields apart.\<close>

definition event_ok :: "nat \<Rightarrow> nat \<Rightarrow> 'a tcp_scheme \<Rightarrow> 'a tcp_scheme \<Rightarrow> bool" where
  "event_ok w i s s' \<longleftrightarrow>
     conn_wf (g_slots s' i) \<and> upstream i s' = upstream i s \<and> downstream i s' = downstream i s \<and>
     fc_client_fd (g_slots s' i) = fc_client_fd (g_slots s i) \<and>
     fc_target_fd (g_slots s' i) = fc_target_fd (g_slots s i) \<and>
     g_tx_bytes s' w - g_tx_bytes s w =
       int (length (sent_on (fc_target_fd (g_slots s i)) (o_log s'))) -
       int (length (sent_on (fc_target_fd (g_slots s i)) (o_log s)))"

lemma event_ok_trans: "event_ok w i s t \<Longrightarrow> event_ok w i t u \<Longrightarrow> event_ok w i s u"
  by (simp add: event_ok_def)

lemma relay_event_ok_step: "relay_ok w i s s' \<Longrightarrow> event_ok w i s s'"
  by (simp add: relay_ok_def event_ok_def)

lemma event_ok_masks: "masks_only i s t \<Longrightarrow> conn_wf (g_slots s i) \<Longrightarrow> event_ok w i s t"
  using masks_only_streams [of i s t] unfolding event_ok_def
  by (auto simp: masks_only_def)

lemma event_ok_links: "links_only s t \<Longrightarrow> conn_wf (g_slots s i) \<Longrightarrow> event_ok w i s t"
  using links_only_streams [of s t i] unfolding event_ok_def
  by (auto simp: links_only_def)

lemma event_ok_wf: "event_ok w i s t \<Longrightarrow> conn_wf (g_slots t i)"
  by (simp add: event_ok_def)

lemma status_ok:
  assumes "conn_wf (g_slots s i)"
  shows "relay_ok w i s (upd_conn i (\<lambda>c. c\<lparr>fc_last_active := x\<rparr>) s)"
    and "relay_ok w i s (upd_conn i (\<lambda>c. c\<lparr>fc_target_eof_since := x\<rparr>) s)"
    and "relay_ok w i s (upd_conn i (\<lambda>c. c\<lparr>fc_closed := b\<rparr>) s)"
  by (auto intro!: relay_ok_flag [OF relay_ok_refl [OF assms]] simp: conn_wf_def)

lemma relay_io_ok:
  assumes "conn_wf (g_slots s i)" and "relay_io w i is_target ev now s = (f, s')"
  shows "relay_ok w i s s'"
proof -
  define s0 where "s0 = upd_conn i (\<lambda>c. c\<lparr>fc_last_active := now\<rparr>) s"
  obtain f1 s1 where s1: "(if \<not> (ev AND (EPOLLERR OR EPOLLHUP) \<noteq> 0) then forward_data w i now s0
      else (True, s0)) = (f1, s1)"
    by force
  have ok0: "relay_ok w i s s0" unfolding s0_def by (rule status_ok [OF assms(1)])
  have ok1: "relay_ok w i s s1"
    using s1 ok0 relay_ok_trans [OF ok0 forward_data_ok [OF relay_ok_wf [OF ok0]]]
    by (auto split: if_splits)
  have "s' = s1 \<or> s' = upd_conn i (\<lambda>c. c\<lparr>fc_target_eof_since := now\<rparr>) s1"
    using assms(2) s1 unfolding relay_io_def s0_def [symmetric] Let_def by (auto split: if_split_asm)
  with ok1 relay_ok_trans [OF ok1 status_ok(2) [OF relay_ok_wf [OF ok1]]] show ?thesis by auto
qed

lemma relay_event_ok:
  assumes "conn_wf (g_slots s i)" and "relay_event w i is_target ev now (s, g) = (s', g')"
  shows "event_ok w i s s'"
proof -
  obtain f s2 where io: "relay_io w i is_target ev now s = (f, s2)" by force
  note ok2 = relay_io_ok [OF assms(1) io]
  let ?cl = "upd_conn i (\<lambda>c. c\<lparr>fc_closed := True\<rparr>) s2"
  have ok3: "relay_ok w i s ?cl" by (rule relay_ok_trans [OF ok2 status_ok(3) [OF relay_ok_wf [OF ok2]]])
  have "s' = list_remove_locked w i ?cl \<or> s' = s2 \<or> s' = update_conn_events (w_epoll_fd s2 w) i s2"
    using assms(2) io by (auto simp: relay_event_def split: if_split_asm)
  moreover have "event_ok w i s (list_remove_locked w i ?cl)"
    by (rule event_ok_trans [OF relay_event_ok_step [OF ok3]
          event_ok_links [OF list_remove_links_only relay_ok_wf [OF ok3]]])
  moreover have "event_ok w i s (update_conn_events (w_epoll_fd s2 w) i s2)"
    by (rule event_ok_trans [OF relay_event_ok_step [OF ok2]
          event_ok_masks [OF update_conn_events_masks relay_ok_wf [OF ok2]]])
  ultimately show ?thesis using relay_event_ok_step [OF ok2] by auto
qed

section \<open>Properties\<close>

text \<open>A run of events of one connection.\<close>

fun relay_run ::
  "nat \<Rightarrow> nat \<Rightarrow> (bool \<times> u32 \<times> int) list \<Rightarrow> 'a tcp_scheme \<times> nat list \<Rightarrow> 'a tcp_scheme \<times> nat list" where
  "relay_run w i [] sg = sg"
| "relay_run w i ((t, ev, now) # es) sg = relay_run w i es (relay_event w i t ev now sg)"

lemma relay_run_ok:
  "conn_wf (g_slots s i) \<Longrightarrow> event_ok w i s (fst (relay_run w i es (s, g)))"
proof (induction es arbitrary: s g)
  case Nil
  then show ?case by (simp add: event_ok_def)
next
  case (Cons e es)
  obtain t ev now where e: "e = (t, ev, now)" by (metis prod.exhaust)
  obtain s1 g1 where s1: "relay_event w i t ev now (s, g) = (s1, g1)" by force
  have ok: "event_ok w i s s1" by (rule relay_event_ok [OF Cons.prems s1])
  from event_ok_trans [OF ok Cons.IH [OF event_ok_wf [OF ok], of g1]] show ?case
    using e s1 by simp
qed

text \<open>
  C1. Stream integrity of the TCP relay, in both directions: over any sequence of events and
  whatever the kernel answers (partial sends, would-block, errors, end of file), the bytes
  accepted by one side, followed by those held in the forward buffer and those not yet read
  from the other side, are always the same sequence. No byte is lost, duplicated, reordered or
  sent to the wrong side, and the buffers stay within their 64 KiB.
\<close>

theorem relay_stream_integrity:
  assumes "conn_wf (g_slots s i)"
  shows "let s' = fst (relay_run w i es (s, g)) in
           upstream i s' = upstream i s \<and> downstream i s' = downstream i s \<and>
           conn_wf (g_slots s' i)"
  using relay_run_ok [OF assms, of w es g] by (simp add: event_ok_def Let_def)

text \<open>
  The upload counter is exact: over any sequence of events the worker's counter grows by
  exactly the number of bytes the target socket accepted (also when a buffer drains completely
  in one call, the case an offset difference would miss).
\<close>

theorem upload_counter_exact:
  assumes "conn_wf (g_slots s i)"
  shows "let s' = fst (relay_run w i es (s, g)); f = fc_target_fd (g_slots s i) in
           g_tx_bytes s' w - g_tx_bytes s w =
             int (length (sent_on f (o_log s'))) - int (length (sent_on f (o_log s)))"
  using relay_run_ok [OF assms, of w es g] by (simp add: event_ok_def Let_def)

text \<open>A connection with a request to forward, a target that accepts two bytes and then blocks.\<close>

definition relay_example :: tcp where
  "relay_example = tcp_boot
     \<lparr>o_recv := (\<lambda>f. if f = 5 then [RData [71, 69, 84]] else []),
      o_send := (\<lambda>f. if f = 6 then [(2, 0)] else []),
      g_slots := (\<lambda>i. zero_conn\<lparr>fc_client_fd := 5, fc_target_fd := 6\<rparr>)\<rparr>"

lemma relay_example_wf: "conn_wf (g_slots relay_example 0)"
  by (simp add: relay_example_def conn_wf_def zero_conn_def bytes_of_def)

lemma relay_example_up: "upstream 0 relay_example = [71, 69, 84]"
  by (simp add: upstream_def relay_example_def zero_conn_def bytes_of_def tcp_boot_def pending_def)

theorem relay_stream_integrity_witness:
  "upstream 0 (fst (relay_run 1 0 [(False, 1, 10), (True, 1, 11)] (relay_example, []))) = [71, 69, 84]"
  using relay_stream_integrity [OF relay_example_wf, of 1 "[(False, 1, 10), (True, 1, 11)]" "[]"]
  by (simp add: Let_def relay_example_up)

theorem upload_counter_exact_witness:
  "let s' = fst (relay_run 1 0 [(False, 1, 10)] (relay_example, [])) in
     g_tx_bytes s' 1 = int (length (sent_on 6 (o_log s')))"
  using upload_counter_exact [OF relay_example_wf, of 1 "[(False, 1, 10)]" "[]"]
  by (simp add: Let_def relay_example_def tcp_boot_def zero_conn_def)

end
