(* ===== verification/Tcp_Worker.thy ===== *)
theory Tcp_Worker
  imports Tcp_Relay
begin

unbundle bit_operations_syntax

text \<open>
  The life of a TCP connection in \<open>simple-socks5.c\<close>: \<open>handoff_to_worker\<close> brings it into a
  worker, the worker's loop dispatches its events, the five-second scan times it out, and
  \<open>conn_unref\<close>/\<open>conn_finalize\<close> take it down. Pointer-chasing loops over a connection list take
  fuel; 1088 units (the number of slots) always suffice, see \<open>scan_chase\<close>. The socket options
  set on the way and the log lines are not modelled.
\<close>

section \<open>Taking a connection down\<close>

text \<open>Close a descriptor field unless it is already \<open>-1\<close>; the target also tells the Java side first.\<close>

definition close_client :: "nat \<Rightarrow> 'a tcp_scheme \<Rightarrow> 'a tcp_scheme" where
  "close_client i s =
     (let f = fc_client_fd (g_slots s i) in
      if f \<ge> 0 then upd_conn i (\<lambda>c. c\<lparr>fc_client_fd := -1\<rparr>) (os_close f s) else s)"

definition close_target :: "nat \<Rightarrow> 'a tcp_scheme \<Rightarrow> 'a tcp_scheme" where
  "close_target i s =
     (let f = fc_target_fd (g_slots s i) in
      if f \<ge> 0
      then upd_conn i (\<lambda>c. c\<lparr>fc_target_fd := -1\<rparr>) (os_close f (release_java_socket f s)) else s)"

definition conn_finalize :: "nat \<Rightarrow> 'a tcp_scheme \<Rightarrow> 'a tcp_scheme" where
  "conn_finalize i s =
     (if fc_finalized (g_slots s i) then s\<lparr>g_st_double_fin := g_st_double_fin s + 1\<rparr>
      else
        let s1 = upd_conn i (\<lambda>c. c\<lparr>fc_finalized := True\<rparr>) s;
            c = g_slots s1 i;
            w = fc_widx c;
            s2 = (if fc_next c \<noteq> None \<or> fc_prev c \<noteq> None \<or> conn_list_head s1 w = Some i
                  then list_remove_locked w i s1 else s1);
            s3 = upd_conn i (\<lambda>c. c\<lparr>fc_magic := 0\<rparr>) s2;
            s4 = close_target i (close_client i s3);
            s5 = upd_conn i (\<lambda>c. c\<lparr>fc_c2t_buf := None, fc_t2c_buf := None\<rparr>) s4;
            s6 = s5\<lparr>g_conn_count := g_conn_count s5 - 1\<rparr>
        in slot_release (fc_slot (g_slots s6 i)) s6)"

definition conn_unref :: "nat \<Rightarrow> 'a tcp_scheme \<Rightarrow> 'a tcp_scheme" where
  "conn_unref i s =
     (let old = fc_refs (g_slots s i);
          s1 = upd_conn i (\<lambda>c. c\<lparr>fc_refs := old - 1\<rparr>) s
      in if old = 1 then conn_finalize i s1 else s1)"

definition unref_all :: "nat list \<Rightarrow> 'a tcp_scheme \<Rightarrow> 'a tcp_scheme" where
  "unref_all g s = foldl (\<lambda>t i. conn_unref i t) s g"

section \<open>The event loop\<close>

definition worker_event ::
  "nat \<Rightarrow> int \<Rightarrow> u64 \<times> u32 \<Rightarrow> 'a tcp_scheme \<times> nat list \<Rightarrow> 'a tcp_scheme \<times> nat list" where
  "worker_event my_widx now rawev sg =
     (case rawev of (raw, ev) \<Rightarrow> case sg of (s, garbage) \<Rightarrow>
      case conn_event_decode raw of (sidx, egen, is_target) \<Rightarrow>
        let key = raw AND NOT CONN_EV_TARGET_FLAG in
        if conn_event_bad_slot (sint sidx) (int CONN_SLOT_COUNT)
        then (s\<lparr>g_st_bad_slot := g_st_bad_slot s + 1\<rparr>, garbage)
        else
          let i = unat sidx; c = g_slots s i in
          case conn_event_check_slot egen (fc_gen c) (fc_magic c) (g_slot_state s i)
                 (fc_widx c) my_widx (fc_closed c) (fc_registered c) of
            CONN_EV_INACTIVE \<Rightarrow>
              (let s1 = ghost_stuck_track key now s
               in (s1\<lparr>g_st_bad_slot := g_st_bad_slot s1 + 1\<rparr>, garbage))
          | CONN_EV_STALE \<Rightarrow>
              (let s1 = ghost_stuck_track key now s
               in (s1\<lparr>g_st_stale_skip := g_st_stale_skip s1 + 1\<rparr>, garbage))
          | CONN_EV_WRONG_WORKER \<Rightarrow> (s, garbage)
          | CONN_EV_NOT_READY \<Rightarrow> (s, garbage)
          | CONN_EV_PROCESS \<Rightarrow> relay_event my_widx i is_target ev now (s, garbage))"

text \<open>One batch of events; \<open>True\<close> is the jump to \<open>exit_worker\<close> on the shutdown identifier.\<close>

fun worker_events ::
  "nat \<Rightarrow> int \<Rightarrow> (u64 \<times> u32) list \<Rightarrow> 'a tcp_scheme \<times> nat list \<Rightarrow> bool \<times> 'a tcp_scheme \<times> nat list" where
  "worker_events my_widx now [] sg = (False, sg)"
| "worker_events my_widx now (e # es) sg =
     (if fst e = 0 then (True, sg)
      else worker_events my_widx now es (worker_event my_widx now e sg))"

section \<open>The timeout scan\<close>

definition scan_live :: "full_conn \<Rightarrow> bool" where
  "scan_live c \<longleftrightarrow> fc_magic c = CONN_MAGIC \<and> \<not> fc_closed c \<and> fc_registered c"

definition scan_expired :: "int \<Rightarrow> full_conn \<Rightarrow> bool" where
  "scan_expired now c \<longleftrightarrow>
     scan_live c \<and>
     (now - fc_last_active c > IDLE_TIMEOUT_SEC \<or>
      (fc_client_eof c \<and> conn_forward_grace_expired now (fc_eof_since c) CONN_FWD_GRACE_SEC) \<or>
      conn_forward_grace_expired now (fc_target_eof_since c) CONN_FWD_GRACE_SEC)"

definition scan_conn :: "nat \<Rightarrow> int \<Rightarrow> nat \<Rightarrow> 'a tcp_scheme \<times> nat list \<Rightarrow> 'a tcp_scheme \<times> nat list" where
  "scan_conn my_widx now i sg =
     (case sg of (s, garbage) \<Rightarrow>
        let c = g_slots s i;
            s1 = (if scan_live c \<and> fc_target_eof_since c = 0 \<and> fc_t2c_len c > 0 \<and> fc_target_fd c \<ge> 0 \<and>
                     os_peek s (fc_target_fd c) = 0
                  then upd_conn i (\<lambda>c. c\<lparr>fc_target_eof_since := now\<rparr>) s else s)
        in if scan_expired now (g_slots s1 i) then
             (let s2 = list_remove_locked my_widx i (upd_conn i (\<lambda>c. c\<lparr>fc_closed := True\<rparr>) s1)
              in if length garbage < MAX_EVENTS then (s2, garbage @ [i])
                 else (unref_all garbage s2, [i]))
           else (s1, garbage))"

fun scan_loop ::
  "nat \<Rightarrow> nat \<Rightarrow> int \<Rightarrow> nat option \<Rightarrow> 'a tcp_scheme \<times> nat list \<Rightarrow> 'a tcp_scheme \<times> nat list" where
  "scan_loop 0 my_widx now cur sg = sg"
| "scan_loop (Suc fuel) my_widx now cur sg =
     (case cur of None \<Rightarrow> sg
      | Some i \<Rightarrow>
          let nxt = fc_next (g_slots (fst sg) i)
          in scan_loop fuel my_widx now nxt (scan_conn my_widx now i sg))"

text \<open>
  One turn of the worker loop after \<open>epoll_wait\<close> returned \<open>events\<close> at time \<open>now\<close>: result is
  whether to leave the loop, the state, the contents of the garbage array, and the last scan
  time. A turn that runs to its end has released the garbage but leaves \<open>garbage_count\<close> alone:
  it is reset at the start of the next turn only.
\<close>

definition worker_iteration ::
  "nat \<Rightarrow> int \<Rightarrow> (u64 \<times> u32) list \<Rightarrow> int \<Rightarrow> 'a tcp_scheme \<Rightarrow> bool \<times> 'a tcp_scheme \<times> nat list \<times> int" where
  "worker_iteration my_widx now events last_check s =
     (case worker_events my_widx now events (s, []) of
        (True, s1, g1) \<Rightarrow> (True, s1, g1, last_check)
      | (False, s1, g1) \<Rightarrow>
          (case (if now - last_check \<ge> 5
                 then (scan_loop CONN_SLOT_COUNT my_widx now (conn_list_head s1 my_widx) (s1, g1), now)
                 else ((s1, g1), last_check)) of
             ((s2, g2), lc) \<Rightarrow> (False, unref_all g2 s2, g2, lc)))"

section \<open>Leaving the loop\<close>

text \<open>One batch under the lock: unlink up to \<open>MAX_EVENTS\<close> live connections.\<close>

fun drain_batch ::
  "nat \<Rightarrow> nat \<Rightarrow> nat option \<Rightarrow> nat list \<Rightarrow> 'a tcp_scheme \<Rightarrow> nat option \<times> nat list \<times> 'a tcp_scheme" where
  "drain_batch 0 my_widx cur collected s = (cur, collected, s)"
| "drain_batch (Suc fuel) my_widx cur collected s =
     (case cur of None \<Rightarrow> (None, collected, s)
      | Some i \<Rightarrow>
          if length collected < MAX_EVENTS then
            (let nxt = fc_next (g_slots s i);
                 s1 = list_remove_locked my_widx i s
             in if fc_magic (g_slots s1 i) = CONN_MAGIC
                then drain_batch fuel my_widx nxt (collected @ [i])
                       (upd_conn i (\<lambda>c. c\<lparr>fc_closed := True\<rparr>) s1)
                else drain_batch fuel my_widx nxt collected s1)
          else (cur, collected, s))"

fun drain_loop :: "nat \<Rightarrow> nat \<Rightarrow> 'a tcp_scheme \<Rightarrow> 'a tcp_scheme" where
  "drain_loop 0 my_widx s = s"
| "drain_loop (Suc fuel) my_widx s =
     (case drain_batch CONN_SLOT_COUNT my_widx (conn_list_head s my_widx) [] s of
        (cur, collected, s1) \<Rightarrow>
          let s2 = s1\<lparr>conn_list_head := (conn_list_head s1)(my_widx := cur)\<rparr>;
              s3 = unref_all collected s2
          in if length collected < MAX_EVENTS then s3 else drain_loop fuel my_widx s3)"

definition worker_exit :: "nat \<Rightarrow> nat list \<Rightarrow> 'a tcp_scheme \<Rightarrow> 'a tcp_scheme" where
  "worker_exit my_widx garbage s =
     (let s1 = s\<lparr>w_stopping := (w_stopping s)(my_widx := True)\<rparr>;
          s2 = drain_loop CONN_SLOT_COUNT my_widx s1;
          s3 = unref_all garbage s2
      in os_close (w_epoll_fd s3 my_widx) s3)"

section \<open>Handing a connection to a worker\<close>

text \<open>\<open>atomic_fetch_add(&next_worker_idx, 1) % WORKER_COUNT\<close>, an \<open>int\<close>.\<close>

definition pick_worker :: "u32 \<Rightarrow> int" where
  "pick_worker counter = c_rem (sint counter) (int WORKER_COUNT)"

text \<open>The structure as the handoff fills it, with the outcome of the two allocations.\<close>

definition init_conn :: "nat \<Rightarrow> fd \<Rightarrow> fd \<Rightarrow> bool \<Rightarrow> bool \<Rightarrow> full_conn \<Rightarrow> full_conn" where
  "init_conn idx client_fd target_fd ok1 ok2 c =
     c\<lparr>fc_refs := 1, fc_registered := False, fc_finalized := False, fc_widx := idx,
       fc_magic := CONN_MAGIC, fc_ep_u64 := ep_u64_of (fc_gen c) (fc_slot c),
       fc_client_fd := client_fd, fc_target_fd := target_fd,
       fc_c2t_buf := (if ok1 then Some [] else None),
       fc_t2c_buf := (if ok2 then Some [] else None)\<rparr>"

definition ready_conn :: "int \<Rightarrow> full_conn \<Rightarrow> full_conn" where
  "ready_conn now c =
     c\<lparr>fc_last_active := now, fc_closed := False, fc_client_eof := False, fc_eof_since := 0,
       fc_target_eof_since := 0, fc_c2t_len := 0, fc_c2t_off := 0, fc_t2c_len := 0, fc_t2c_off := 0,
       fc_client_events := EPOLLIN OR EPOLLRDHUP, fc_target_events := EPOLLIN OR EPOLLRDHUP\<rparr>"

text \<open>Both \<open>EPOLL_CTL_ADD\<close>s; the second is only attempted when the first succeeded.\<close>

definition register_conn :: "fd \<Rightarrow> nat \<Rightarrow> fd \<Rightarrow> fd \<Rightarrow> 'a tcp_scheme \<Rightarrow> bool \<times> 'a tcp_scheme" where
  "register_conn ep i client_fd target_fd s =
     (let c = g_slots s i in
      case os_epoll_ctl s CTL_ADD ep client_fd (fc_client_events c) (fc_ep_u64 c) of
        (False, s1) \<Rightarrow> (False, s1)
      | (True, s1) \<Rightarrow> os_epoll_ctl s1 CTL_ADD ep target_fd (fc_target_events c)
                        (fc_ep_u64 c OR CONN_EV_TARGET_FLAG))"

text \<open>
  The part of the handoff under the list lock: refuse when the worker is stopping, link the
  connection, register both descriptors, and take everything back when that fails.
\<close>

definition handoff_admit :: "nat \<Rightarrow> nat \<Rightarrow> fd \<Rightarrow> fd \<Rightarrow> 'a tcp_scheme \<Rightarrow> 'a tcp_scheme" where
  "handoff_admit w i client_fd target_fd s =
     (if w_stopping s w then conn_unref i s
      else
        case register_conn (w_epoll_fd s w) i client_fd target_fd (list_add_locked w i s) of
          (False, s1) \<Rightarrow>
            conn_unref i (list_remove_locked w i (upd_conn i (\<lambda>c. c\<lparr>fc_closed := True\<rparr>) s1))
        | (True, s1) \<Rightarrow>
            upd_conn i (\<lambda>c. c\<lparr>fc_registered := True\<rparr>)
              (ghost_stamp_record (fc_ep_u64 (g_slots s1 i)) client_fd target_fd w s1))"

text \<open>
  \<open>None\<close> is undefined behaviour: the round-robin counter, an \<open>int\<close>, has wrapped and the worker
  index is negative, so \<open>workers[idx]\<close> is out of bounds.
\<close>

definition handoff_to_worker :: "fd \<Rightarrow> fd \<Rightarrow> 'a tcp_scheme \<Rightarrow> 'a tcp_scheme option" where
  "handoff_to_worker client_fd target_fd s =
     (let idxi = pick_worker (next_worker_idx s);
          s0 = s\<lparr>next_worker_idx := next_worker_idx s + 1\<rparr>
      in if idxi < 0 then None else Some (
         let w = nat idxi in
         case slot_acquire s0 of
           (None, s1) \<Rightarrow>
             os_close target_fd (os_close client_fd (release_java_socket target_fd
               (s1\<lparr>g_conn_count := g_conn_count s1 - 1\<rparr>)))
         | (Some i, s1) \<Rightarrow>
             (case os_malloc s1 of (ok1, s2) \<Rightarrow> case os_malloc s2 of (ok2, s3) \<Rightarrow>
              let s4 = upd_conn i (init_conn w client_fd target_fd ok1 ok2) s3 in
              if \<not> ok1 \<or> \<not> ok2 then conn_unref i s4
              else handoff_admit w i client_fd target_fd (upd_conn i (ready_conn (o_now s4)) s4))))"

end
