(* ===== verification/Session_Table.thy ===== *)
theory Session_Table
  imports Dlist_Heap
begin

text \<open>
  The abstract specification of a table of reference-counted sessions: slots with an in-use flag
  and a free stack, per-worker lists threaded through the slots, a count of sessions. It keeps
  only what ownership depends on; an engine refines it when the view of its state commutes with
  the operations below. The invariant says that every slot in use is owned exactly once, by a
  worker's list or by the code that has taken the session off its list.
\<close>

section \<open>The table and its operations\<close>

record cell =
  cl_live :: bool                 \<comment> \<open>the magic number is in place\<close>
  cl_closed :: bool
  cl_reg :: bool
  cl_refs :: int
  cl_fin :: bool
  cl_widx :: nat
  cl_slot :: nat
  cl_next :: "nat option"
  cl_prev :: "nat option"

record table =
  tb_cell :: "nat \<Rightarrow> cell"
  tb_active :: "nat \<Rightarrow> bool"
  tb_free :: "nat list"
  tb_head :: "nat \<Rightarrow> nat option"
  tb_count :: int

definition upd_cell :: "nat \<Rightarrow> (cell \<Rightarrow> cell) \<Rightarrow> table \<Rightarrow> table" where
  "upd_cell i f t = t\<lparr>tb_cell := (tb_cell t)(i := f (tb_cell t i))\<rparr>"

definition tb_link :: "nat \<Rightarrow> nat \<Rightarrow> table \<Rightarrow> table" where
  "tb_link w i t =
     (let h = tb_head t w;
          t1 = upd_cell i (\<lambda>c. c\<lparr>cl_next := h, cl_prev := None\<rparr>) t;
          t2 = (case h of None \<Rightarrow> t1 | Some j \<Rightarrow> upd_cell j (\<lambda>c. c\<lparr>cl_prev := Some i\<rparr>) t1)
      in t2\<lparr>tb_head := (tb_head t2)(w := Some i)\<rparr>)"

definition tb_unlink :: "nat \<Rightarrow> nat \<Rightarrow> table \<Rightarrow> table" where
  "tb_unlink w i t =
     (let c = tb_cell t i;
          t1 = (case cl_prev c of
                  Some p \<Rightarrow> upd_cell p (\<lambda>d. d\<lparr>cl_next := cl_next c\<rparr>) t
                | None \<Rightarrow> t\<lparr>tb_head := (tb_head t)(w := cl_next c)\<rparr>);
          t2 = (case cl_next (tb_cell t1 i) of
                  Some q \<Rightarrow> upd_cell q (\<lambda>d. d\<lparr>cl_prev := cl_prev (tb_cell t1 i)\<rparr>) t1
                | None \<Rightarrow> t1)
      in upd_cell i (\<lambda>d. d\<lparr>cl_next := None, cl_prev := None\<rparr>) t2)"

text \<open>Closing a session and taking it off its list.\<close>

definition tb_retire :: "nat \<Rightarrow> nat \<Rightarrow> table \<Rightarrow> table" where
  "tb_retire w i t = tb_unlink w i (upd_cell i (\<lambda>c. c\<lparr>cl_closed := True\<rparr>) t)"

definition tb_release :: "nat \<Rightarrow> table \<Rightarrow> table" where
  "tb_release i t = t\<lparr>tb_active := (tb_active t)(i := False), tb_free := tb_free t @ [i]\<rparr>"

definition tb_finalize :: "nat \<Rightarrow> table \<Rightarrow> table" where
  "tb_finalize i t =
     (if cl_fin (tb_cell t i) then t
      else
        let t1 = upd_cell i (\<lambda>c. c\<lparr>cl_fin := True\<rparr>) t;
            c = tb_cell t1 i;
            t2 = (if cl_next c \<noteq> None \<or> cl_prev c \<noteq> None \<or> tb_head t1 (cl_widx c) = Some i
                  then tb_unlink (cl_widx c) i t1 else t1);
            t3 = upd_cell i (\<lambda>c. c\<lparr>cl_live := False\<rparr>) t2
        in tb_release (cl_slot (tb_cell t3 i)) (t3\<lparr>tb_count := tb_count t3 - 1\<rparr>))"

definition tb_unref :: "nat \<Rightarrow> table \<Rightarrow> table" where
  "tb_unref i t =
     (let old = cl_refs (tb_cell t i); t1 = upd_cell i (\<lambda>c. c\<lparr>cl_refs := old - 1\<rparr>) t
      in if old = 1 then tb_finalize i t1 else t1)"

text \<open>Taking the top free slot for a new session with the given control data.\<close>

definition tb_acquire :: "cell \<Rightarrow> table \<Rightarrow> (nat \<times> table) option" where
  "tb_acquire c t =
     (if tb_free t = [] then None
      else let i = last (tb_free t)
           in Some (i, t\<lparr>tb_free := butlast (tb_free t), tb_active := (tb_active t)(i := True),
                         tb_cell := (tb_cell t)(i := c\<lparr>cl_slot := i\<rparr>)\<rparr>))"

lemma upd_cell_simps [simp]:
  "tb_cell (upd_cell i f t) = (tb_cell t)(i := f (tb_cell t i))" "tb_active (upd_cell i f t) = tb_active t"
  "tb_free (upd_cell i f t) = tb_free t" "tb_head (upd_cell i f t) = tb_head t" "tb_count (upd_cell i f t) = tb_count t"
  by (simp_all add: upd_cell_def)

lemma upd_cell_twice: "upd_cell i f (upd_cell i g t) = upd_cell i (\<lambda>c. f (g c)) t"
  by (simp add: upd_cell_def)

section \<open>Links\<close>

definition tb_nxt :: "table \<Rightarrow> nat \<Rightarrow> nat option" where
  "tb_nxt t i = cl_next (tb_cell t i)"

definition tb_prv :: "table \<Rightarrow> nat \<Rightarrow> nat option" where
  "tb_prv t i = cl_prev (tb_cell t i)"

definition tb_list :: "table \<Rightarrow> nat \<Rightarrow> nat list \<Rightarrow> bool" where
  "tb_list t w xs \<longleftrightarrow> dl_rep (tb_head t w) (tb_nxt t) (tb_prv t) xs"

text \<open>The fields a cell keeps under list surgery.\<close>

definition no_links :: "cell \<Rightarrow> cell" where
  "no_links c = c\<lparr>cl_next := None, cl_prev := None\<rparr>"

lemma no_links_eq:
  assumes "no_links c = no_links d"
  shows "cl_live c = cl_live d" "cl_closed c = cl_closed d" "cl_reg c = cl_reg d" "cl_refs c = cl_refs d"
    "cl_fin c = cl_fin d" "cl_widx c = cl_widx d" "cl_slot c = cl_slot d"
  using assms by (cases c; cases d; simp add: no_links_def)+

lemma tb_list_cong:
  assumes "tb_head t w = tb_head s w" and "\<And>j. j \<in> set xs \<Longrightarrow> tb_nxt t j = tb_nxt s j"
    and "\<And>j. j \<in> set xs \<Longrightarrow> tb_prv t j = tb_prv s j"
  shows "tb_list t w xs = tb_list s w xs"
  unfolding tb_list_def dl_rep_def
  using dl_seg_frame [of xs "tb_nxt t" "tb_nxt s" "tb_prv t" "tb_prv s"] assms by auto

lemma tb_unlink_links:
  fixes t :: table and i :: nat
  defines "n1 \<equiv> (case tb_prv t i of None \<Rightarrow> tb_nxt t | Some p \<Rightarrow> (tb_nxt t)(p := tb_nxt t i))"
  shows "tb_nxt (tb_unlink w i t) = n1(i := None)"
    and "tb_prv (tb_unlink w i t) =
       (case n1 i of None \<Rightarrow> tb_prv t | Some q \<Rightarrow> (tb_prv t)(q := tb_prv t i))(i := None)"
    and "tb_head (tb_unlink w i t) =
       (case tb_prv t i of None \<Rightarrow> (tb_head t)(w := tb_nxt t i) | Some p \<Rightarrow> tb_head t)"
  unfolding n1_def
  by (auto simp: tb_unlink_def Let_def tb_nxt_def tb_prv_def fun_eq_iff split: option.split)

lemma tb_unlink_view:
  "no_links (tb_cell (tb_unlink w i t) j) = no_links (tb_cell t j)" "tb_active (tb_unlink w i t) = tb_active t"
  "tb_free (tb_unlink w i t) = tb_free t" "tb_count (tb_unlink w i t) = tb_count t"
  by (auto simp: tb_unlink_def Let_def no_links_def split: option.split)

lemma tb_link_view:
  "no_links (tb_cell (tb_link w i t) j) = no_links (tb_cell t j)" "tb_active (tb_link w i t) = tb_active t"
  "tb_free (tb_link w i t) = tb_free t" "tb_count (tb_link w i t) = tb_count t"
  by (auto simp: tb_link_def Let_def no_links_def split: option.split)

lemma tb_unlink_list:
  assumes "tb_list t w xs" and "i \<in> set xs"
  shows "tb_list (tb_unlink w i t) w (remove1 i xs)"
proof -
  obtain as bs where xs: "xs = as @ i # bs" "i \<notin> set as" using split_list_first [OF assms(2)] by auto
  have rep: "dl_rep (tb_head t w) (tb_nxt t) (tb_prv t) (as @ i # bs)" using assms(1) xs by (simp add: tb_list_def)
  have "dl_rep (tb_head (tb_unlink w i t) w) (tb_nxt (tb_unlink w i t)) (tb_prv (tb_unlink w i t)) (as @ bs)"
    unfolding tb_unlink_links by (rule dl_rep_remove [OF rep refl refl]) (simp split: option.split)
  then show ?thesis using xs by (simp add: tb_list_def remove1_append)
qed

lemma tb_unlink_outside:
  assumes "tb_list t w xs" and "i \<in> set xs" and "j \<notin> set xs"
  shows "tb_nxt (tb_unlink w i t) j = tb_nxt t j \<and> tb_prv (tb_unlink w i t) j = tb_prv t j"
proof -
  obtain as bs where xs: "xs = as @ i # bs" using assms(2) by (meson split_list)
  have n: "tb_nxt t i = hd_opt None bs" and p: "tb_prv t i = last_opt None as"
    using assms(1) dl_rep_next unfolding tb_list_def xs by metis+
  have "tb_prv t i \<noteq> Some j" "j \<noteq> i" "tb_nxt t i \<noteq> Some j"
    using n p xs assms(3) by (cases bs; cases as rule: rev_cases; auto)+
  then show ?thesis by (auto simp: tb_unlink_links split: option.split)
qed

lemma tb_link_links:
  assumes "tb_head t w \<noteq> Some i"
  shows "tb_nxt (tb_link w i t) = (tb_nxt t)(i := tb_head t w)"
    and "tb_prv (tb_link w i t) =
       (case tb_head t w of None \<Rightarrow> (tb_prv t)(i := None) | Some y \<Rightarrow> (tb_prv t)(i := None, y := Some i))"
    and "tb_head (tb_link w i t) = (tb_head t)(w := Some i)"
  using assms by (auto simp: tb_link_def Let_def tb_nxt_def tb_prv_def fun_eq_iff split: option.split)

section \<open>The ownership invariant\<close>

definition cell_owned :: "nat \<Rightarrow> nat \<Rightarrow> cell \<Rightarrow> bool" where
  "cell_owned w i c \<longleftrightarrow> cl_live c \<and> \<not> cl_closed c \<and> cl_refs c = 1 \<and> \<not> cl_fin c \<and> cl_widx c = w \<and> cl_slot c = i"

definition cell_off :: "nat \<Rightarrow> cell \<Rightarrow> bool" where
  "cell_off i c \<longleftrightarrow> (cl_closed c \<or> \<not> cl_reg c) \<and> cl_refs c = 1 \<and> \<not> cl_fin c \<and> cl_slot c = i \<and>
     cl_next c = None \<and> cl_prev c = None"

definition tb_used :: "nat \<Rightarrow> table \<Rightarrow> int" where
  "tb_used N t = int (card {i. i < N \<and> tb_active t i})"

text \<open>
  \<open>L w\<close> is the list of worker \<open>w\<close>, \<open>G\<close> the sessions off the lists, \<open>K\<close> the share of the count held
  elsewhere.
\<close>

definition tb_inv :: "nat \<Rightarrow> int \<Rightarrow> table \<Rightarrow> (nat \<Rightarrow> nat list) \<Rightarrow> nat list \<Rightarrow> bool" where
  "tb_inv N K t L G \<longleftrightarrow>
     distinct (tb_free t) \<and> set (tb_free t) = {i. i < N \<and> \<not> tb_active t i} \<and>
     (\<forall>w. tb_list t w (L w)) \<and>
     (\<forall>w w'. w \<noteq> w' \<longrightarrow> set (L w) \<inter> set (L w') = {}) \<and>
     (\<forall>w. \<forall>i \<in> set (L w). i < N \<and> tb_active t i \<and> cell_owned w i (tb_cell t i)) \<and>
     distinct G \<and>
     (\<forall>i \<in> set G. i < N \<and> tb_active t i \<and> cell_off i (tb_cell t i) \<and> (\<forall>w. i \<notin> set (L w))) \<and>
     (\<forall>i < N. tb_active t i \<longrightarrow> i \<in> set G \<or> (\<exists>w. i \<in> set (L w))) \<and>
     tb_count t = K + tb_used N t"

lemma tb_invD:
  assumes "tb_inv N K t L G"
  shows "distinct (tb_free t)" and "set (tb_free t) = {i. i < N \<and> \<not> tb_active t i}" and "tb_list t w (L w)"
    and "w \<noteq> w' \<Longrightarrow> i \<in> set (L w) \<Longrightarrow> i \<notin> set (L w')"
    and "i \<in> set (L w) \<Longrightarrow> i < N" and "i \<in> set (L w) \<Longrightarrow> tb_active t i"
    and "i \<in> set (L w) \<Longrightarrow> cell_owned w i (tb_cell t i)"
    and "distinct G" and "i \<in> set G \<Longrightarrow> i < N" and "i \<in> set G \<Longrightarrow> tb_active t i"
    and "i \<in> set G \<Longrightarrow> cell_off i (tb_cell t i)" and "i \<in> set G \<Longrightarrow> i \<notin> set (L w)"
    and "i < N \<Longrightarrow> tb_active t i \<Longrightarrow> i \<notin> set G \<Longrightarrow> \<exists>w. i \<in> set (L w)"
    and "tb_count t = K + tb_used N t"
  using assms unfolding tb_inv_def by blast+

lemma tb_invI:
  assumes "distinct (tb_free t)" and "set (tb_free t) = {i. i < N \<and> \<not> tb_active t i}" and "\<And>w. tb_list t w (L w)"
    and "\<And>w w' i. w \<noteq> w' \<Longrightarrow> i \<in> set (L w) \<Longrightarrow> i \<notin> set (L w')"
    and "\<And>w i. i \<in> set (L w) \<Longrightarrow> i < N \<and> tb_active t i \<and> cell_owned w i (tb_cell t i)"
    and "distinct G" and "\<And>i. i \<in> set G \<Longrightarrow> i < N \<and> tb_active t i \<and> cell_off i (tb_cell t i)"
    and "\<And>i w. i \<in> set G \<Longrightarrow> i \<notin> set (L w)"
    and "\<And>i. i < N \<Longrightarrow> tb_active t i \<Longrightarrow> i \<notin> set G \<Longrightarrow> \<exists>w. i \<in> set (L w)"
    and "tb_count t = K + tb_used N t"
  shows "tb_inv N K t L G"
  using assms unfolding tb_inv_def by blast

lemma tb_inv_perm: "tb_inv N K t L G \<Longrightarrow> distinct H \<Longrightarrow> set H = set G \<Longrightarrow> tb_inv N K t L H"
  by (simp add: tb_inv_def)

lemma tb_inv_distinct: "tb_inv N K t L G \<Longrightarrow> distinct (L w)"
  using tb_invD(3) [of N K t L G w] by (simp add: tb_list_def dl_rep_def)

lemma tb_inv_head: "tb_inv N K t L G \<Longrightarrow> tb_head t w = hd_opt None (L w)"
  using tb_invD(3) [of N K t L G w] by (simp add: tb_list_def dl_rep_def)

lemma tb_inv_bound:
  assumes "tb_inv N K t L G"
  shows "length (L w) \<le> N"
proof -
  have "set (L w) \<subseteq> {..<N}" using tb_invD(5) [OF assms] by auto
  then have "card (set (L w)) \<le> N" by (metis card_lessThan card_mono finite_lessThan)
  then show ?thesis using distinct_card [OF tb_inv_distinct [OF assms]] by metis
qed

lemma cell_owned_cong: "no_links c = no_links d \<Longrightarrow> cell_owned w i c = cell_owned w i d"
  using no_links_eq [of c d] by (simp add: cell_owned_def)

lemma cell_off_cong:
  "no_links c = no_links d \<Longrightarrow> cl_next c = cl_next d \<Longrightarrow> cl_prev c = cl_prev d \<Longrightarrow> cell_off i c = cell_off i d"
  using no_links_eq [of c d] by (simp add: cell_off_def)

section \<open>Preservation\<close>

lemma tb_inv_retire:
  assumes inv: "tb_inv N K t L G" and i: "i \<in> set (L w)"
  shows "tb_inv N K (tb_retire w i t) (L(w := remove1 i (L w))) (G @ [i])" (is "tb_inv N K ?t ?L _")
proof -
  let ?u = "upd_cell i (\<lambda>c. c\<lparr>cl_closed := True\<rparr>) t"
  have t: "?t = tb_unlink w i ?u" by (simp add: tb_retire_def)
  note d = tb_invD [OF inv] and view = tb_unlink_view [of w i ?u, folded t]
  have lists: "tb_list ?u v (L v)" for v
    using d(3) [of v] tb_list_cong [of ?u v t "L v"] by (simp add: tb_nxt_def tb_prv_def)
  have set_L: "set (?L v) = set (L v) - {i}" for v
    using tb_inv_distinct [OF inv, of v] d(4) [OF _ i, of v] by (cases "v = w") (simp_all add: set_remove1_eq)
  show ?thesis
  proof (rule tb_invI)
    show "tb_list ?t v (?L v)" for v
    proof (cases "v = w")
      case False
      have "tb_head ?t v = tb_head ?u v" using False by (simp add: t tb_unlink_links(3) split: option.split)
      moreover have "tb_nxt ?t j = tb_nxt ?u j \<and> tb_prv ?t j = tb_prv ?u j" if "j \<in> set (L v)" for j
        unfolding t by (rule tb_unlink_outside [OF lists i]) (use d(4) False that in blast)
      ultimately show ?thesis using tb_list_cong [of ?t v ?u "L v"] lists False by simp
    qed (use tb_unlink_list [OF lists i] t in simp)
    show "v \<noteq> v' \<Longrightarrow> j \<in> set (?L v) \<Longrightarrow> j \<notin> set (?L v')" for v v' j unfolding set_L using d(4) by blast
    show "j < N \<and> tb_active ?t j \<and> cell_owned v j (tb_cell ?t j)" if "j \<in> set (?L v)" for v j
    proof -
      have j: "j \<in> set (L v)" "j \<noteq> i" using that unfolding set_L by auto
      then show ?thesis using d(5-7) [OF j(1)] view cell_owned_cong [OF view(1), of v j j] by simp
    qed
    show "distinct (G @ [i])" using d(8) d(12) i by auto
    show "j < N \<and> tb_active ?t j \<and> cell_off j (tb_cell ?t j)" if j: "j \<in> set (G @ [i])" for j
    proof (cases "j = i")
      case True
      have "tb_nxt ?t i = None" "tb_prv ?t i = None" by (simp_all add: t tb_unlink_links)
      then show ?thesis using d(5-7) [OF i] view no_links_eq [OF view(1) [of i]] True
        by (simp add: cell_owned_def cell_off_def tb_nxt_def tb_prv_def)
    next
      case False
      then have g: "j \<in> set G" using j by simp
      have "tb_nxt ?t j = tb_nxt ?u j \<and> tb_prv ?t j = tb_prv ?u j"
        unfolding t by (rule tb_unlink_outside [OF lists i d(12) [OF g]])
      then show ?thesis using d(9-11) [OF g] view cell_off_cong [OF view(1), of j j] False
        by (simp add: tb_nxt_def tb_prv_def)
    qed
    show "j \<in> set (G @ [i]) \<Longrightarrow> j \<notin> set (?L v)" for j v unfolding set_L using d(12) by auto
    show "\<exists>v. j \<in> set (?L v)" if "j < N" "tb_active ?t j" "j \<notin> set (G @ [i])" for j
    proof -
      have "\<exists>v. j \<in> set (L v)" using d(13) that view by simp
      then show ?thesis using that unfolding set_L by auto
    qed
    show "distinct (tb_free ?t)" "set (tb_free ?t) = {i. i < N \<and> \<not> tb_active ?t i}" "tb_count ?t = K + tb_used N ?t"
      using d(1,2,14) view by (simp_all add: tb_used_def)
  qed
qed

lemma card_drop_one:
  assumes "i < N" and "P i"
  shows "int (card {j. j < N \<and> (j \<noteq> i \<and> P j)}) = int (card {j. j < (N :: nat) \<and> P j}) - 1"
proof -
  have "{j. j < N \<and> P j} = insert i {j. j < N \<and> (j \<noteq> i \<and> P j)}" using assms by auto
  moreover have "finite {j. j < N \<and> (j \<noteq> i \<and> P j)}" by (rule finite_subset [of _ "{..<N}"]) auto
  ultimately have "card {j. j < N \<and> P j} = Suc (card {j. j < N \<and> (j \<noteq> i \<and> P j)})" by simp
  then show ?thesis by simp
qed

text \<open>Dropping the last reference of a session that is off the lists.\<close>

lemma tb_unref_off:
  assumes inv: "tb_inv N K t L (i # G)"
  shows "tb_unref i t = t\<lparr>tb_cell := (tb_cell t)(i := (tb_cell t i)\<lparr>cl_refs := 0, cl_fin := True, cl_live := False\<rparr>),
     tb_count := tb_count t - 1, tb_active := (tb_active t)(i := False), tb_free := tb_free t @ [i]\<rparr>"
proof -
  note d = tb_invD [OF inv]
  have "tb_head t w \<noteq> Some i" for w
    using tb_inv_head [OF inv, of w] d(12) [of i w] by (cases "L w") auto
  then show ?thesis using d(11) [of i]
    by (simp add: tb_unref_def tb_finalize_def Let_def cell_off_def upd_cell_def tb_release_def)
qed

lemma tb_inv_unref:
  assumes inv: "tb_inv N K t L (i # G)"
  shows "tb_inv N K (tb_unref i t) L G"
proof -
  note d = tb_invD [OF inv] and u = tb_unref_off [OF inv]
  let ?t = "tb_unref i t"
  have i: "i < N" "tb_active t i" "i \<notin> set G" "\<And>w. i \<notin> set (L w)" using d(8) d(9,10) [of i] d(12) [of i] by auto
  have "tb_list ?t w (L w) = tb_list t w (L w)" for w
    by (rule tb_list_cong) (use i(4) [of w] in \<open>auto simp: u tb_nxt_def tb_prv_def\<close>)
  then have lists: "tb_list ?t w (L w)" for w using d(3) by simp
  have "{j. j < N \<and> tb_active ?t j} = {j. j < N \<and> (j \<noteq> i \<and> tb_active t j)}" by (auto simp: u)
  then have used: "tb_used N ?t = tb_used N t - 1"
    using card_drop_one [OF i(1), of "tb_active t"] i(2) by (simp add: tb_used_def)
  show ?thesis
  proof (rule tb_invI)
    show "distinct (tb_free ?t)" "set (tb_free ?t) = {i. i < N \<and> \<not> tb_active ?t i}"
      using d(1,2) i by (auto simp: u)
    show "j < N \<and> tb_active ?t j \<and> cell_owned v j (tb_cell ?t j)" if "j \<in> set (L v)" for v j
      using d(5-7) [OF that] i(4) [of v] that by (auto simp: u)
    show "j < N \<and> tb_active ?t j \<and> cell_off j (tb_cell ?t j)" if "j \<in> set G" for j
      using d(9-11) [of j] i(3) that by (auto simp: u)
    show "\<exists>w. j \<in> set (L w)" if "j < N" "tb_active ?t j" "j \<notin> set G" for j
      using d(13) [of j] that by (auto simp: u split: if_splits)
    show "tb_count ?t = K + tb_used N ?t" using d(14) used by (simp add: u)
  qed (use d lists in auto)
qed

lemma tb_inv_link:
  assumes inv: "tb_inv N K t L (i # G)" and own: "cell_owned w i (tb_cell t i)"
  shows "tb_inv N K (tb_link w i t) (L(w := i # L w)) G" (is "tb_inv N K ?t ?L G")
proof -
  note d = tb_invD [OF inv] and view = tb_link_view [of w i t]
  have i: "i < N" "tb_active t i" "i \<notin> set G" "\<And>v. i \<notin> set (L v)" using d(8) d(9,10) [of i] d(12) [of i] by auto
  have h: "tb_head t w \<noteq> Some i" using tb_inv_head [OF inv, of w] i(4) [of w] by (cases "L w") auto
  note l = tb_link_links [OF h]
  have out: "tb_nxt ?t j = tb_nxt t j \<and> tb_prv ?t j = tb_prv t j" if "j \<noteq> i" "j \<notin> set (L w)" for j
    using that tb_inv_head [OF inv, of w] by (cases "L w") (auto simp: l)
  show ?thesis
  proof (rule tb_invI)
    show "tb_list ?t v (?L v)" for v
    proof (cases "v = w")
      case True
      have "dl_rep (tb_head t w) (tb_nxt t) (tb_prv t) (L w)" using d(3) by (simp add: tb_list_def)
      from dl_rep_add [OF this i(4) l(1,2)] show ?thesis using True by (simp add: tb_list_def l(3))
    next
      case False
      have "tb_nxt ?t j = tb_nxt t j \<and> tb_prv ?t j = tb_prv t j" if "j \<in> set (L v)" for j
        by (rule out) (use i(4) [of v] d(4) [OF False] that in auto)
      then show ?thesis using tb_list_cong [of ?t v t "L v"] d(3) False by (simp add: l(3))
    qed
    show "v \<noteq> v' \<Longrightarrow> j \<in> set (?L v) \<Longrightarrow> j \<notin> set (?L v')" for v v' j
      using d(4) [of v v' j] i(4) by (auto split: if_splits dest: d(4))
    show "j < N \<and> tb_active ?t j \<and> cell_owned v j (tb_cell ?t j)" if "j \<in> set (?L v)" for v j
      using that d(5-7) [of j v] i own view cell_owned_cong [OF view(1), of v j j] by (auto split: if_splits)
    show "j < N \<and> tb_active ?t j \<and> cell_off j (tb_cell ?t j)" if "j \<in> set G" for j
    proof -
      have "j \<noteq> i" "j \<notin> set (L w)" using that i(3) d(12) [of j w] by auto
      then show ?thesis using d(9-11) [of j] that view out [of j] cell_off_cong [OF view(1), of j j]
        by (simp add: tb_nxt_def tb_prv_def)
    qed
    show "j \<in> set G \<Longrightarrow> j \<notin> set (?L v)" for j v using d(12) [of j v] i(3) by auto
    show "\<exists>v. j \<in> set (?L v)" if j: "j < N" "tb_active ?t j" "j \<notin> set G" for j
    proof (cases "j = i")
      case False
      have "tb_active t j" using j view by simp
      with False obtain v where "j \<in> set (L v)" using d(13) [of j] j by auto
      then show ?thesis by (intro exI [of _ v]) auto
    qed (auto intro: exI [of _ w])
    show "distinct (tb_free ?t)" "set (tb_free ?t) = {i. i < N \<and> \<not> tb_active ?t i}" "tb_count ?t = K + tb_used N ?t"
      using d(1,2,14) view by (simp_all add: tb_used_def)
  qed (use d(8) in simp)
qed

lemma tb_inv_acquire:
  assumes inv: "tb_inv N (K + 1) t L G" and acq: "tb_acquire c t = Some (i, t')"
    and c: "cl_refs c = 1" "\<not> cl_fin c" "\<not> cl_reg c" "cl_next c = None" "cl_prev c = None"
  shows "tb_inv N K t' L (i # G) \<and> i < N \<and> \<not> tb_active t i"
proof -
  note d = tb_invD [OF inv]
  from acq have ne: "tb_free t \<noteq> []" and i: "i = last (tb_free t)"
    and t': "t' = t\<lparr>tb_free := butlast (tb_free t), tb_active := (tb_active t)(i := True),
                   tb_cell := (tb_cell t)(i := c\<lparr>cl_slot := i\<rparr>)\<rparr>"
    by (auto simp: tb_acquire_def Let_def split: if_splits)
  have fr: "tb_free t = butlast (tb_free t) @ [i]" using ne i by simp
  have free: "i < N" "\<not> tb_active t i" using d(2) ne i last_in_set [OF ne] by auto
  have out: "i \<notin> set G" "i \<notin> set (L w)" for w using free d(10) [of i] d(6) [of i w] by auto
  have "tb_list t' w (L w) = tb_list t w (L w)" for w
    by (rule tb_list_cong) (use out(2) [of w] in \<open>auto simp: t' tb_nxt_def tb_prv_def\<close>)
  then have lists: "tb_list t' w (L w)" for w using d(3) by simp
  have "{j. j < N \<and> tb_active t' j} = insert i {j. j < N \<and> tb_active t j}" using free by (auto simp: t')
  moreover have "finite {j. j < N \<and> tb_active t j}" by (rule finite_subset [of _ "{..<N}"]) auto
  ultimately have used: "tb_used N t' = tb_used N t + 1" using free by (simp add: tb_used_def)
  have "set (tb_free t) = insert i (set (butlast (tb_free t)))" "i \<notin> set (butlast (tb_free t))" "distinct (butlast (tb_free t))"
    using d(1) fr by (metis Un_insert_right distinct_append list.set(1,2) set_append sup_bot_right disjoint_insert(1) distinct_butlast)+
  then have fs: "distinct (tb_free t')" "set (tb_free t') = {j. j < N \<and> \<not> tb_active t' j}"
    using d(2) by (auto simp: t')
  have "tb_inv N K t' L (i # G)"
  proof (rule tb_invI)
    show "j < N \<and> tb_active t' j \<and> cell_owned v j (tb_cell t' j)" if "j \<in> set (L v)" for v j
      using d(5-7) [OF that] out(2) [of v] that by (auto simp: t')
    show "j < N \<and> tb_active t' j \<and> cell_off j (tb_cell t' j)" if "j \<in> set (i # G)" for j
      using d(9-11) [of j] out(1) that free c by (auto simp: t' cell_off_def)
    show "\<exists>w. j \<in> set (L w)" if "j < N" "tb_active t' j" "j \<notin> set (i # G)" for j
      using d(13) [of j] that by (auto simp: t')
    show "tb_count t' = K + tb_used N t'" using d(14) used by (simp add: t')
  qed (use d lists fs out in auto)
  then show ?thesis using free by simp
qed

text \<open>While a session is off the lists, the free stack has room for its slot.\<close>

lemma tb_inv_room:
  assumes "tb_inv N K t L G" and "i \<in> set G"
  shows "length (tb_free t) < N"
proof -
  note d = tb_invD [OF assms(1)]
  have "set (tb_free t) \<subset> {..<N}" using d(2) d(9,10) [OF assms(2)] by auto
  then have "card (set (tb_free t)) < N" by (metis card_lessThan finite_lessThan psubset_card_mono)
  then show ?thesis using distinct_card [OF d(1)] by simp
qed

section \<open>Engines that implement the table\<close>

text \<open>
  What an engine owes the table: its list surgery, closing and dropping a reference act on the view as
  the table's operations, and keep its own well-formedness. Then ownership carries over. The TCP
  engine and the UDP engine are the two instances.
\<close>

locale session_engine =
  fixes N :: nat
    and view :: "'s \<Rightarrow> table"
    and wf :: "'s \<Rightarrow> bool"
    and link :: "nat \<Rightarrow> nat \<Rightarrow> 's \<Rightarrow> 's"
    and unlink :: "nat \<Rightarrow> nat \<Rightarrow> 's \<Rightarrow> 's"
    and close :: "nat \<Rightarrow> 's \<Rightarrow> 's"
    and unref :: "nat \<Rightarrow> 's \<Rightarrow> 's"
  assumes view_link: "view (link w i s) = tb_link w i (view s)" and wf_link: "wf (link w i s) = wf s"
    and view_unlink: "view (unlink w i s) = tb_unlink w i (view s)" and wf_unlink: "wf (unlink w i s) = wf s"
    and view_close: "view (close i s) = upd_cell i (\<lambda>c. c\<lparr>cl_closed := True\<rparr>) (view s)" and wf_close: "wf (close i s) = wf s"
    and view_unref: "wf s \<Longrightarrow> length (tb_free (view s)) < N \<Longrightarrow> view (unref i s) = tb_unref i (view s) \<and> wf (unref i s)"
begin

definition owned :: "int \<Rightarrow> 's \<Rightarrow> (nat \<Rightarrow> nat list) \<Rightarrow> nat list \<Rightarrow> bool" where
  "owned K s L G \<longleftrightarrow> wf s \<and> tb_inv N K (view s) L G"

lemma owned_retire:
  assumes "owned K s L G" and "i \<in> set (L w)"
  shows "owned K (unlink w i (close i s)) (L(w := remove1 i (L w))) (G @ [i])"
proof -
  have "tb_inv N K (tb_retire w i (view s)) (L(w := remove1 i (L w))) (G @ [i])"
    by (rule tb_inv_retire [where L = L]) (use assms in \<open>simp_all add: owned_def\<close>)
  then show ?thesis using assms(1) by (simp add: owned_def view_unlink view_close wf_unlink wf_close tb_retire_def)
qed

lemma owned_link:
  assumes "owned K s L (i # G)" and "cell_owned w i (tb_cell (view s) i)"
  shows "owned K (link w i s) (L(w := i # L w)) G"
  using assms tb_inv_link [of N K "view s" L i G w] by (simp add: owned_def view_link wf_link)

lemma owned_view_unref:
  assumes "owned K s L (i # G)"
  shows "view (unref i s) = tb_unref i (view s)" and "wf (unref i s)"
  using assms view_unref [of s i] tb_inv_room [of N K "view s" L "i # G" i] by (simp_all add: owned_def)

lemma owned_unref:
  assumes "owned K s L (i # G)"
  shows "owned K (unref i s) L G"
  using assms tb_inv_unref [of N K "view s" L i G] owned_view_unref [OF assms] by (simp add: owned_def)

lemma owned_unref_all: "owned K s L (xs @ G) \<Longrightarrow> owned K (foldl (\<lambda>t i. unref i t) s xs) L G"
  by (induction xs arbitrary: s) (simp_all add: owned_unref)

end

end
