(* ===== verification/Tcp_Table.thy ===== *)
theory Tcp_Table
  imports Tcp_Worker Session_Table
begin

text \<open>
  The TCP engine implements the session table of \<open>Session_Table\<close>: the view of its state, and that list
  surgery, closing, the release of slots and dropping a reference act on the view as the table's
  operations. \<open>Tcp_Invariant\<close> takes its ownership lemmas from the table.
\<close>

section \<open>The view\<close>

definition conn_cell :: "full_conn \<Rightarrow> cell" where
  "conn_cell c = \<lparr>cl_live = (fc_magic c = CONN_MAGIC), cl_closed = fc_closed c, cl_reg = fc_registered c,
     cl_refs = fc_refs c, cl_fin = fc_finalized c, cl_widx = fc_widx c, cl_slot = fc_slot c,
     cl_next = fc_next c, cl_prev = fc_prev c\<rparr>"

definition ctab :: "'a tcp_scheme \<Rightarrow> table" where
  "ctab s = \<lparr>tb_cell = (\<lambda>i. conn_cell (g_slots s i)), tb_active = g_slot_state s, tb_free = tcp_free s,
     tb_head = conn_list_head s, tb_count = g_conn_count s\<rparr>"

lemma conn_cell_simps [simp]:
  "cl_live (conn_cell c) \<longleftrightarrow> fc_magic c = CONN_MAGIC" "cl_closed (conn_cell c) = fc_closed c" "cl_reg (conn_cell c) = fc_registered c"
  "cl_refs (conn_cell c) = fc_refs c" "cl_fin (conn_cell c) = fc_finalized c" "cl_widx (conn_cell c) = fc_widx c"
  "cl_slot (conn_cell c) = fc_slot c" "cl_next (conn_cell c) = fc_next c" "cl_prev (conn_cell c) = fc_prev c"
  by (simp_all add: conn_cell_def)

lemma ctab_simps [simp]:
  "tb_cell (ctab s) i = conn_cell (g_slots s i)" "tb_active (ctab s) = g_slot_state s" "tb_free (ctab s) = tcp_free s"
  "tb_head (ctab s) = conn_list_head s" "tb_count (ctab s) = g_conn_count s"
  by (simp_all add: ctab_def)

lemma conn_cell_ctl [simp]:
  "conn_cell (c\<lparr>fc_next := n\<rparr>) = (conn_cell c)\<lparr>cl_next := n\<rparr>" "conn_cell (c\<lparr>fc_prev := p\<rparr>) = (conn_cell c)\<lparr>cl_prev := p\<rparr>"
  "conn_cell (c\<lparr>fc_closed := b\<rparr>) = (conn_cell c)\<lparr>cl_closed := b\<rparr>" "conn_cell (c\<lparr>fc_refs := k\<rparr>) = (conn_cell c)\<lparr>cl_refs := k\<rparr>"
  "conn_cell (c\<lparr>fc_finalized := b\<rparr>) = (conn_cell c)\<lparr>cl_fin := b\<rparr>" "conn_cell (c\<lparr>fc_magic := 0\<rparr>) = (conn_cell c)\<lparr>cl_live := False\<rparr>"
  by (simp_all add: conn_cell_def CONN_MAGIC_def)

lemma ctab_upd:
  assumes "\<And>c. conn_cell (f c) = g (conn_cell c)"
  shows "ctab (upd_conn i f s) = upd_cell i g (ctab s)"
  using assms by (simp add: ctab_def upd_cell_def upd_conn_def tcp_free_def fun_eq_iff)

lemma ctab_data: "(\<And>c. conn_cell (f c) = conn_cell c) \<Longrightarrow> ctab (upd_conn i f s) = ctab s"
  by (simp add: ctab_def upd_conn_def tcp_free_def fun_eq_iff)

section \<open>Lists\<close>

lemma ctab_head: "ctab (s\<lparr>conn_list_head := h\<rparr>) = (ctab s)\<lparr>tb_head := h\<rparr>"
  by (simp add: ctab_def tcp_free_def)

lemma ctab_links:
  "ctab (upd_conn i (\<lambda>c. c\<lparr>fc_next := x\<rparr>) s) = upd_cell i (\<lambda>c. c\<lparr>cl_next := x\<rparr>) (ctab s)"
  "ctab (upd_conn i (\<lambda>c. c\<lparr>fc_prev := x\<rparr>) s) = upd_cell i (\<lambda>c. c\<lparr>cl_prev := x\<rparr>) (ctab s)"
  by (rule ctab_upd, simp)+

lemma ctab_unlink: "ctab (list_remove_locked w i s) = tb_unlink w i (ctab s)"
  by (cases "fc_prev (g_slots s i)"; cases "fc_next (g_slots s i)")
    (auto simp: list_remove_locked_def tb_unlink_def Let_def ctab_links ctab_head upd_cell_twice split: option.split)

lemma ctab_link: "ctab (list_add_locked w i s) = tb_link w i (ctab s)"
  by (cases "conn_list_head s w")
    (simp_all add: list_add_locked_def tb_link_def Let_def ctab_links ctab_head upd_cell_twice)

lemma ctab_close: "ctab (upd_conn i (\<lambda>c. c\<lparr>fc_closed := True\<rparr>) s) = upd_cell i (\<lambda>c. c\<lparr>cl_closed := True\<rparr>) (ctab s)"
  by (rule ctab_upd) simp

lemma ctab_retire: "ctab (list_remove_locked w i (upd_conn i (\<lambda>c. c\<lparr>fc_closed := True\<rparr>) s)) = tb_retire w i (ctab s)"
  by (simp add: ctab_unlink ctab_close tb_retire_def)

section \<open>Releasing\<close>

text \<open>There is room on the free stack for one more slot.\<close>

definition free_stack :: "'a tcp_scheme \<Rightarrow> nat list \<times> nat" where
  "free_stack s = (g_free_slots s, g_free_slot_top s)"

definition free_room :: "'a tcp_scheme \<Rightarrow> bool" where
  "free_room s \<longleftrightarrow> snd (free_stack s) < length (fst (free_stack s))"

lemma free_stack_simps [simp]:
  "free_stack (upd_conn i f s) = free_stack s" "free_stack (s\<lparr>g_conn_count := n\<rparr>) = free_stack s"
  "free_stack (list_remove_locked w i s) = free_stack s" "free_stack (list_add_locked w i s) = free_stack s"
  by (auto simp: free_stack_def upd_conn_def list_remove_locked_def list_add_locked_def Let_def split: option.split)

lemma close_fds_view:
  "ctab (close_target i (close_client i s)) = ctab s" "free_stack (close_target i (close_client i s)) = free_stack s"
proof -
  have "ctab (os_close f u) = ctab u" "ctab (release_java_socket f u) = ctab u" for f and u :: "'a tcp_scheme"
    by (simp_all add: os_close_def release_java_socket_def log_ev_def ctab_def tcp_free_def)
  moreover have "free_stack (os_close f u) = free_stack u" "free_stack (release_java_socket f u) = free_stack u" for f and u :: "'a tcp_scheme"
    by (simp_all add: os_close_def release_java_socket_def log_ev_def free_stack_def)
  moreover have "ctab (upd_conn i (\<lambda>c. c\<lparr>fc_client_fd := f\<rparr>) u) = ctab u" "ctab (upd_conn i (\<lambda>c. c\<lparr>fc_target_fd := f\<rparr>) u) = ctab u"
    for f and u :: "'a tcp_scheme" by (rule ctab_data, simp add: conn_cell_def)+
  ultimately show "ctab (close_target i (close_client i s)) = ctab s" "free_stack (close_target i (close_client i s)) = free_stack s"
    by (simp_all add: close_target_def close_client_def Let_def)
qed

lemma ctab_release: "free_room s \<Longrightarrow> ctab (slot_release j s) = tb_release j (ctab s)"
  by (simp add: ctab_def tb_release_def slot_release_def tcp_free_def take_Suc_conv_app_nth free_room_def free_stack_def)

lemma ctab_count: "ctab (s\<lparr>g_conn_count := n\<rparr>) = (ctab s)\<lparr>tb_count := n\<rparr>"
  by (simp add: ctab_def tcp_free_def)

lemma finalize_refines:
  assumes r: "free_room s"
  shows "ctab (conn_finalize i s) = tb_finalize i (ctab s) \<and>
    length (g_free_slots (conn_finalize i s)) = length (g_free_slots s) \<and> g_free_slot_top (conn_finalize i s) \<le> length (g_free_slots s)"
proof (cases "fc_finalized (g_slots s i)")
  case True
  then show ?thesis using r by (simp add: conn_finalize_def tb_finalize_def ctab_def tcp_free_def free_room_def free_stack_def)
next
  case False
  define s1 where "s1 = upd_conn i (\<lambda>c. c\<lparr>fc_finalized := True\<rparr>) s"
  define s2 where "s2 = (if fc_next (g_slots s1 i) \<noteq> None \<or> fc_prev (g_slots s1 i) \<noteq> None \<or>
      conn_list_head s1 (fc_widx (g_slots s1 i)) = Some i then list_remove_locked (fc_widx (g_slots s1 i)) i s1 else s1)"
  define s3 where "s3 = upd_conn i (\<lambda>c. c\<lparr>fc_magic := 0\<rparr>) s2"
  define s5 where "s5 = upd_conn i (\<lambda>c. c\<lparr>fc_c2t_buf := None, fc_t2c_buf := None\<rparr>) (close_target i (close_client i s3))"
  define s6 where "s6 = s5\<lparr>g_conn_count := g_conn_count s5 - 1\<rparr>"
  have fin: "conn_finalize i s = slot_release (fc_slot (g_slots s6 i)) s6"
    using False by (simp add: conn_finalize_def Let_def s1_def s2_def s3_def s5_def s6_def)
  have t1: "ctab s1 = upd_cell i (\<lambda>c. c\<lparr>cl_fin := True\<rparr>) (ctab s)" unfolding s1_def by (rule ctab_upd) simp
  have t2: "ctab s2 = (if cl_next (tb_cell (ctab s1) i) \<noteq> None \<or> cl_prev (tb_cell (ctab s1) i) \<noteq> None \<or>
      tb_head (ctab s1) (cl_widx (tb_cell (ctab s1) i)) = Some i then tb_unlink (cl_widx (tb_cell (ctab s1) i)) i (ctab s1) else ctab s1)"
    by (simp add: s2_def ctab_unlink)
  have t3: "ctab s3 = upd_cell i (\<lambda>c. c\<lparr>cl_live := False\<rparr>) (ctab s2)" unfolding s3_def by (rule ctab_upd) simp
  have t5: "ctab s5 = ctab s3" unfolding s5_def
    by (rule trans [OF ctab_data close_fds_view(1)]) (simp add: conn_cell_def)
  have t6: "ctab s6 = (ctab s3)\<lparr>tb_count := tb_count (ctab s3) - 1\<rparr>" using t5 by (simp add: s6_def ctab_count flip: t5)
  have sl: "fc_slot (g_slots s6 i) = cl_slot (tb_cell (ctab s3) i)"
    using arg_cong [OF t6, of "\<lambda>t. cl_slot (tb_cell t i)"] by simp
  have st: "free_stack s6 = free_stack s" by (simp add: s6_def s5_def s3_def s2_def s1_def close_fds_view(2))
  then have r6: "free_room s6" using r by (simp add: free_room_def)
  have "ctab (conn_finalize i s) = tb_finalize i (ctab s)"
    using False unfolding fin ctab_release [OF r6] sl t6 t3 t2 t1 by (simp add: tb_finalize_def Let_def)
  then show ?thesis using st r by (simp add: fin slot_release_def free_stack_def free_room_def)
qed

lemma unref_refines:
  assumes "free_room s"
  shows "ctab (conn_unref i s) = tb_unref i (ctab s) \<and>
    length (g_free_slots (conn_unref i s)) = length (g_free_slots s) \<and> g_free_slot_top (conn_unref i s) \<le> length (g_free_slots s)"
proof -
  let ?s = "upd_conn i (\<lambda>c. c\<lparr>fc_refs := fc_refs (g_slots s i) - 1\<rparr>) s"
  have u: "ctab ?s = upd_cell i (\<lambda>c. c\<lparr>cl_refs := fc_refs (g_slots s i) - 1\<rparr>) (ctab s)" by (rule ctab_upd) simp
  have st: "free_stack ?s = free_stack s" "free_room ?s" using assms by (simp_all add: free_room_def)
  show ?thesis using finalize_refines [OF st(2), of i] u st assms
    by (auto simp: conn_unref_def tb_unref_def Let_def free_stack_def free_room_def)
qed

end
