(* ===== verification/Tcp_Invariant.thy ===== *)
theory Tcp_Invariant
  imports Tcp_Table
begin

unbundle bit_operations_syntax

text \<open>
  The resource invariant of the TCP engine and its preservation by every operation: the slots
  in use are exactly the connections on the workers' lists plus those waiting on a garbage
  list, each is owned once, and the global connection count agrees with them.
\<close>

section \<open>The invariant\<close>

definition live_on :: "nat \<Rightarrow> nat \<Rightarrow> full_conn \<Rightarrow> bool" where
  "live_on w i c \<longleftrightarrow> fc_magic c = CONN_MAGIC \<and> \<not> fc_closed c \<and> fc_refs c = 1 \<and>
     \<not> fc_finalized c \<and> fc_widx c = w \<and> fc_slot c = i"

definition dying :: "nat \<Rightarrow> full_conn \<Rightarrow> bool" where
  "dying i c \<longleftrightarrow> (fc_closed c \<or> \<not> fc_registered c) \<and> fc_refs c = 1 \<and> \<not> fc_finalized c \<and> fc_slot c = i \<and>
     fc_next c = None \<and> fc_prev c = None"

definition active_count :: "'a tcp_scheme \<Rightarrow> int" where
  "active_count s = int (card {i. i < CONN_SLOT_COUNT \<and> g_slot_state s i})"

text \<open>
  \<open>L w\<close> is the list of worker \<open>w\<close>, \<open>G\<close> the connections off the lists (closed and waiting to be
  released, or acquired and not linked yet), and \<open>K\<close> the share
  of the connection count held outside the engine: UDP sessions and handshakes in progress.
\<close>

definition eng_inv :: "int \<Rightarrow> 'a tcp_scheme \<Rightarrow> (nat \<Rightarrow> nat list) \<Rightarrow> nat list \<Rightarrow> bool" where
  "eng_inv K s L G \<longleftrightarrow>
     tcp_pool.pool_inv s \<and>
     (\<forall>w. conn_list s w (L w)) \<and>
     (\<forall>w w'. w \<noteq> w' \<longrightarrow> set (L w) \<inter> set (L w') = {}) \<and>
     (\<forall>w. \<forall>i \<in> set (L w). i < CONN_SLOT_COUNT \<and> g_slot_state s i \<and> live_on w i (g_slots s i)) \<and>
     distinct G \<and>
     (\<forall>i \<in> set G. i < CONN_SLOT_COUNT \<and> g_slot_state s i \<and> dying i (g_slots s i) \<and> (\<forall>w. i \<notin> set (L w))) \<and>
     (\<forall>i < CONN_SLOT_COUNT. g_slot_state s i \<longrightarrow> i \<in> set G \<or> (\<exists>w. i \<in> set (L w))) \<and>
     g_conn_count s = K + active_count s"

lemma eng_invD:
  assumes "eng_inv K s L G"
  shows "tcp_pool.pool_inv s" and "conn_list s w (L w)"
    and "w \<noteq> w' \<Longrightarrow> i \<in> set (L w) \<Longrightarrow> i \<notin> set (L w')"
    and "i \<in> set (L w) \<Longrightarrow> i < CONN_SLOT_COUNT" and "i \<in> set (L w) \<Longrightarrow> g_slot_state s i"
    and "i \<in> set (L w) \<Longrightarrow> live_on w i (g_slots s i)"
    and "distinct G" and "i \<in> set G \<Longrightarrow> i < CONN_SLOT_COUNT" and "i \<in> set G \<Longrightarrow> g_slot_state s i"
    and "i \<in> set G \<Longrightarrow> dying i (g_slots s i)" and "i \<in> set G \<Longrightarrow> i \<notin> set (L w)"
    and "i < CONN_SLOT_COUNT \<Longrightarrow> g_slot_state s i \<Longrightarrow> i \<notin> set G \<Longrightarrow> \<exists>w. i \<in> set (L w)"
    and "g_conn_count s = K + active_count s"
  using assms unfolding eng_inv_def by blast+

lemma eng_invI:
  assumes "tcp_pool.pool_inv s" and "\<And>w. conn_list s w (L w)"
    and "\<And>w w' i. w \<noteq> w' \<Longrightarrow> i \<in> set (L w) \<Longrightarrow> i \<notin> set (L w')"
    and "\<And>w i. i \<in> set (L w) \<Longrightarrow> i < CONN_SLOT_COUNT \<and> g_slot_state s i \<and> live_on w i (g_slots s i)"
    and "distinct G"
    and "\<And>i. i \<in> set G \<Longrightarrow> i < CONN_SLOT_COUNT \<and> g_slot_state s i \<and> dying i (g_slots s i)"
    and "\<And>i w. i \<in> set G \<Longrightarrow> i \<notin> set (L w)"
    and "\<And>i. i < CONN_SLOT_COUNT \<Longrightarrow> g_slot_state s i \<Longrightarrow> i \<notin> set G \<Longrightarrow> \<exists>w. i \<in> set (L w)"
    and "g_conn_count s = K + active_count s"
  shows "eng_inv K s L G"
  using assms unfolding eng_inv_def by blast

text \<open>It is the invariant of the session table, read through the view.\<close>

lemma slots_wf_stack: "tcp_slots_wf s \<longleftrightarrow> length (fst (free_stack s)) = CONN_SLOT_COUNT \<and> snd (free_stack s) \<le> CONN_SLOT_COUNT"
  by (simp add: tcp_slots_wf_def free_stack_def)

interpretation tcp_tab: session_engine CONN_SLOT_COUNT ctab tcp_slots_wf list_add_locked list_remove_locked
  "\<lambda>i. upd_conn i (\<lambda>c. c\<lparr>fc_closed := True\<rparr>)" conn_unref
proof (unfold_locales, goal_cases)
  case (7 s i)
  then have "free_room s" by (simp add: free_room_def free_stack_def tcp_free_def tcp_slots_wf_def)
  with 7 show ?case using unref_refines [of s i] by (simp add: tcp_slots_wf_def)
qed (simp_all add: ctab_link ctab_unlink ctab_close slots_wf_stack)

lemma eng_inv_table: "eng_inv K s L G = tcp_tab.owned K s L G"
proof -
  have "tb_nxt (ctab s) = conn_nxt s" "tb_prv (ctab s) = conn_prv s"
    by (simp_all add: tb_nxt_def tb_prv_def conn_nxt_def conn_prv_def fun_eq_iff)
  moreover have "cell_owned w i (conn_cell c) = live_on w i c" "cell_off i (conn_cell c) = dying i c" for w i c
    by (simp_all add: cell_owned_def live_on_def cell_off_def dying_def)
  moreover have "tb_used CONN_SLOT_COUNT (ctab s) = active_count s" by (simp add: tb_used_def active_count_def)
  ultimately show ?thesis
    unfolding eng_inv_def tcp_tab.owned_def tb_inv_def tcp_pool.pool_inv_def conn_list_def tb_list_def by simp
qed

section \<open>Operations outside the control fields\<close>

definition ctl_view :: "full_conn \<Rightarrow> u32 \<times> bool \<times> bool \<times> int \<times> bool \<times> nat \<times> nat \<times> u32 \<times> nat option \<times> nat option" where
  "ctl_view c = (fc_magic c, fc_closed c, fc_registered c, fc_refs c, fc_finalized c, fc_widx c, fc_slot c, fc_gen c,
     fc_next c, fc_prev c)"

definition same_ctl :: "'a tcp_scheme \<Rightarrow> 'a tcp_scheme \<Rightarrow> bool" where
  "same_ctl s t \<longleftrightarrow>
     (\<forall>j. ctl_view (g_slots t j) = ctl_view (g_slots s j)) \<and>
     g_slot_state t = g_slot_state s \<and> g_free_slots t = g_free_slots s \<and>
     g_free_slot_top t = g_free_slot_top s \<and> conn_list_head t = conn_list_head s \<and>
     g_conn_count t = g_conn_count s"

lemma same_ctl_refl: "same_ctl s s"
  by (simp add: same_ctl_def)

lemma same_ctl_trans: "same_ctl s t \<Longrightarrow> same_ctl t u \<Longrightarrow> same_ctl s u"
  by (simp add: same_ctl_def)

lemma same_ctl_upd:
  "same_ctl s t \<Longrightarrow> (\<And>c. ctl_view (f c) = ctl_view c) \<Longrightarrow> same_ctl s (upd_conn i f t)"
  by (simp add: same_ctl_def)

lemma conn_list_cong:
  assumes "conn_list_head t w = conn_list_head s w"
    and "\<And>j. j \<in> set xs \<Longrightarrow> conn_nxt t j = conn_nxt s j" "\<And>j. j \<in> set xs \<Longrightarrow> conn_prv t j = conn_prv s j"
  shows "conn_list t w xs = conn_list s w xs"
  unfolding conn_list_def dl_rep_def
  using dl_seg_frame [of xs "conn_nxt t" "conn_nxt s" "conn_prv t" "conn_prv s"] assms by auto

lemma eng_inv_same_ctl:
  assumes "eng_inv K s L G" and "same_ctl s t"
  shows "eng_inv K t L G"
proof -
  have v: "fc_magic (g_slots t j) = fc_magic (g_slots s j)" "fc_closed (g_slots t j) = fc_closed (g_slots s j)"
    "fc_registered (g_slots t j) = fc_registered (g_slots s j)"
    "fc_refs (g_slots t j) = fc_refs (g_slots s j)" "fc_finalized (g_slots t j) = fc_finalized (g_slots s j)"
    "fc_widx (g_slots t j) = fc_widx (g_slots s j)" "fc_slot (g_slots t j) = fc_slot (g_slots s j)"
    "fc_next (g_slots t j) = fc_next (g_slots s j)" "fc_prev (g_slots t j) = fc_prev (g_slots s j)" for j
    using assms(2) by (auto simp: same_ctl_def ctl_view_def)
  have c: "g_slot_state t = g_slot_state s" "g_free_slots t = g_free_slots s"
    "g_free_slot_top t = g_free_slot_top s" "conn_list_head t = conn_list_head s"
    "g_conn_count t = g_conn_count s"
    using assms(2) by (auto simp: same_ctl_def)
  have p: "tcp_pool.pool_inv t = tcp_pool.pool_inv s"
    by (simp add: tcp_pool.pool_inv_def tcp_slots_wf_def tcp_free_def c)
  have l: "conn_list t w xs = conn_list s w xs" for w xs
    by (rule conn_list_cong) (simp_all add: c conn_nxt_def conn_prv_def v)
  show ?thesis
    using assms(1) unfolding eng_inv_def live_on_def dying_def active_count_def by (simp add: p l v c)
qed

text \<open>The data path leaves the control fields alone.\<close>

lemma try_send_loop_frame:
  "try_send_loop s f buf len off tot = (res, s') \<Longrightarrow> \<exists>q l. s' = s\<lparr>o_send := q, o_log := l\<rparr>"
proof (induction s f buf len off tot arbitrary: res s' rule: try_send_loop.induct)
  case (1 s f buf len off tot)
  show ?case
  proof (cases "off < len")
    case False
    with "1.prems" have "s' = s\<lparr>o_send := o_send s, o_log := o_log s\<rparr>"
      by (simp add: try_send_loop.simps [of s])
    then show ?thesis by blast
  next
    case True
    obtain sent e s1 where os: "os_send s f (take (len - off) (drop off buf)) = ((sent, e), s1)"
      by (metis prod.exhaust)
    from os_send_form [OF os] obtain q l where s1: "s1 = s\<lparr>o_send := q, o_log := l\<rparr>" by blast
    show ?thesis
    proof (cases "sent > 0")
      case False
      with "1.prems" True os s1 show ?thesis by (auto simp: try_send_loop.simps [of s])
    next
      case sent: True
      then have "try_send_loop s1 f buf len (off + nat sent) (tot + nat sent) = (res, s')"
        using "1.prems" True os by (simp add: try_send_loop.simps [of s])
      from "1.IH" [OF True os [symmetric] refl sent this] s1 show ?thesis by auto
    qed
  qed
qed

lemma try_send_frame: "try_send s f buf len off = (res, s') \<Longrightarrow> \<exists>q l. s' = s\<lparr>o_send := q, o_log := l\<rparr>"
proof (cases "f < 0")
  case True
  assume "try_send s f buf len off = (res, s')"
  with True have "s' = s\<lparr>o_send := o_send s, o_log := o_log s\<rparr>" by (simp add: try_send_def)
  then show ?thesis by blast
qed (auto simp: try_send_def dest: try_send_loop_frame)

lemma same_ctl_os:
  "same_ctl s t \<Longrightarrow> same_ctl s (t\<lparr>o_send := q, o_log := l\<rparr>)"
  "same_ctl s t \<Longrightarrow> same_ctl s (t\<lparr>o_recv := r\<rparr>)"
  "same_ctl s t \<Longrightarrow> same_ctl s (t\<lparr>g_tx_bytes := x\<rparr>)"
  "same_ctl s t \<Longrightarrow> same_ctl s (t\<lparr>g_rx_bytes := x\<rparr>)"
  by (simp_all add: same_ctl_def)

lemma send_c2t_ctl: "send_c2t w i s = (r, s') \<Longrightarrow> same_ctl s s'"
  by (auto simp: send_c2t_def Let_def account_upload_def ctl_view_def dest!: try_send_frame
      split: prod.splits if_splits intro!: same_ctl_os same_ctl_upd same_ctl_refl)

lemma send_t2c_ctl: "send_t2c i s = (r, s') \<Longrightarrow> same_ctl s s'"
  by (auto simp: send_t2c_def Let_def ctl_view_def dest!: try_send_frame
      split: prod.splits intro!: same_ctl_os same_ctl_upd same_ctl_refl)

lemma recv_ctl: "os_recv s f n = ((r, d, e), s') \<Longrightarrow> same_ctl s s'"
  by (auto dest!: os_recv_form intro!: same_ctl_os same_ctl_refl)

lemma flush_to_client_ctl: "flush_to_client i (f, s) = (f', s') \<Longrightarrow> same_ctl s s'"
  by (auto simp: flush_to_client_def same_ctl_refl split: if_splits prod.splits dest: send_t2c_ctl)

lemma flush_to_target_ctl: "flush_to_target w i (f, s) = (f', s') \<Longrightarrow> same_ctl s s'"
  by (auto simp: flush_to_target_def same_ctl_refl split: if_splits prod.splits dest: send_c2t_ctl)

lemma read_from_client_ctl: "read_from_client w i now (f, s) = (f', s') \<Longrightarrow> same_ctl s s'"
proof -
  assume a: "read_from_client w i now (f, s) = (f', s')"
  obtain r d e s1 where rc: "os_recv s (fc_client_fd (g_slots s i)) BUFFER_SIZE = ((r, d, e), s1)"
    by (metis prod.exhaust)
  let ?s2 = "upd_conn i (\<lambda>c. c\<lparr>fc_c2t_buf := Some (buf_write (bytes_of (fc_c2t_buf c)) 0 d),
           fc_c2t_len := nat r, fc_c2t_off := 0\<rparr>) s1"
  have 2: "same_ctl s ?s2" by (rule same_ctl_upd [OF recv_ctl [OF rc]]) (simp add: ctl_view_def)
  have 3: "same_ctl s (upd_conn i (\<lambda>c. c\<lparr>fc_client_eof := True, fc_eof_since := now\<rparr>) s1)"
    by (rule same_ctl_upd [OF recv_ctl [OF rc]]) (simp add: ctl_view_def)
  show ?thesis
    using a rc recv_ctl [OF rc] 3 same_ctl_trans [OF 2 send_c2t_ctl [of w i ?s2]]
    by (auto simp: read_from_client_def Let_def same_ctl_refl split: if_split_asm prod.splits)
qed

lemma read_from_target_ctl: "read_from_target w i (f, s) = (f', s') \<Longrightarrow> same_ctl s s'"
proof -
  assume a: "read_from_target w i (f, s) = (f', s')"
  obtain r d e s1 where rc: "os_recv s (fc_target_fd (g_slots s i)) BUFFER_SIZE = ((r, d, e), s1)"
    by (metis prod.exhaust)
  let ?s2 = "upd_conn i (\<lambda>c. c\<lparr>fc_t2c_buf := Some (buf_write (bytes_of (fc_t2c_buf c)) 0 d),
           fc_t2c_len := nat r, fc_t2c_off := 0\<rparr>) s1"
  let ?s3 = "?s2\<lparr>g_rx_bytes := (g_rx_bytes ?s2)(w := g_rx_bytes ?s2 w + r)\<rparr>"
  have "same_ctl s ?s2" by (rule same_ctl_upd [OF recv_ctl [OF rc]]) (simp add: ctl_view_def)
  then have 3: "same_ctl s ?s3" by (rule same_ctl_os)
  show ?thesis
    using a rc recv_ctl [OF rc] same_ctl_trans [OF 3 send_t2c_ctl [of i ?s3]]
    by (auto simp: read_from_target_def Let_def same_ctl_refl split: if_split_asm prod.splits)
qed

lemma forward_data_ctl:
  assumes "forward_data w i now s = (f, s')"
  shows "same_ctl s s'"
proof -
  obtain f1 s1 where 1: "flush_to_client i (False, s) = (f1, s1)" by force
  obtain f2 s2 where 2: "flush_to_target w i (f1, s1) = (f2, s2)" by force
  obtain f3 s3 where 3: "read_from_client w i now (f2, s2) = (f3, s3)" by force
  have 4: "read_from_target w i (f3, s3) = (f, s')" using assms 1 2 3 by (simp add: forward_data_def)
  show ?thesis
    using flush_to_client_ctl [OF 1] flush_to_target_ctl [OF 2] read_from_client_ctl [OF 3]
      read_from_target_ctl [OF 4] by (blast intro: same_ctl_trans)
qed

lemma relay_io_ctl:
  assumes "relay_io w i t ev now s = (f, s')"
  shows "same_ctl s s'"
proof -
  define s0 where "s0 = upd_conn i (\<lambda>c. c\<lparr>fc_last_active := now\<rparr>) s"
  obtain f1 s1 where s1: "(if \<not> (ev AND (EPOLLERR OR EPOLLHUP) \<noteq> 0) then forward_data w i now s0
      else (True, s0)) = (f1, s1)"
    by force
  have 0: "same_ctl s s0" unfolding s0_def by (rule same_ctl_upd [OF same_ctl_refl]) (simp add: ctl_view_def)
  have 1: "same_ctl s s1" using s1 0 same_ctl_trans [OF 0 forward_data_ctl] by (auto split: if_splits)
  have "s' = s1 \<or> s' = upd_conn i (\<lambda>c. c\<lparr>fc_target_eof_since := now\<rparr>) s1"
    using assms s1 unfolding relay_io_def s0_def [symmetric] Let_def by (auto split: if_split_asm)
  moreover have "same_ctl s (upd_conn i (\<lambda>c. c\<lparr>fc_target_eof_since := now\<rparr>) s1)"
    by (rule same_ctl_upd [OF 1]) (simp add: ctl_view_def)
  ultimately show ?thesis using 1 by auto
qed

lemma masks_only_ctl: "masks_only i s t \<Longrightarrow> same_ctl s t"
  unfolding masks_only_def by (elim exE conjE) (simp add: same_ctl_def ctl_view_def)

lemma stamp_purge_ctl: "stamp_purge u s = (b, t) \<Longrightarrow> same_ctl s t"
  by (auto simp: stamp_purge_def Let_def same_ctl_def split: option.splits if_splits)

lemma ghost_track_ctl: "same_ctl s (ghost_stuck_track u now s)"
proof -
  let ?s1 = "s\<lparr>g_stuck := (g_stuck s)(stuck_index u := stuck_bump u now (g_stuck s (stuck_index u)))\<rparr>"
  have 1: "same_ctl s ?s1" by (simp add: same_ctl_def)
  obtain b t where p: "stamp_purge u ?s1 = (b, t)" by force
  have 2: "same_ctl s t" by (rule same_ctl_trans [OF 1 stamp_purge_ctl [OF p]])
  have 3: "same_ctl s (t\<lparr>g_ghost_purged := x, g_stuck := y\<rparr>)" for x y
    using 2 by (simp add: same_ctl_def)
  show ?thesis
    unfolding ghost_stuck_track_def Let_def using p 1 2 3 by (auto split: bool.splits)
qed

section \<open>Releasing a connection\<close>

definition fin_log :: "full_conn \<Rightarrow> sysev list" where
  "fin_log c = (if fc_client_fd c \<ge> 0 then [CLOSE (fc_client_fd c)] else []) @
     (if fc_target_fd c \<ge> 0 then [JAVA_RELEASE (fc_target_fd c), CLOSE (fc_target_fd c)] else [])"

definition dead_conn :: "full_conn \<Rightarrow> full_conn" where
  "dead_conn c = c\<lparr>fc_finalized := True, fc_magic := 0,
     fc_client_fd := (if fc_client_fd c \<ge> 0 then -1 else fc_client_fd c),
     fc_target_fd := (if fc_target_fd c \<ge> 0 then -1 else fc_target_fd c),
     fc_c2t_buf := None, fc_t2c_buf := None\<rparr>"

lemma close_both_form:
  "close_target i (close_client i s) =
     s\<lparr>o_log := o_log s @ fin_log (g_slots s i),
       g_slots := (g_slots s)(i := (g_slots s i)\<lparr>
         fc_client_fd := (if fc_client_fd (g_slots s i) \<ge> 0 then -1 else fc_client_fd (g_slots s i)),
         fc_target_fd := (if fc_target_fd (g_slots s i) \<ge> 0 then -1 else fc_target_fd (g_slots s i))\<rparr>)\<rparr>"
  by (cases "fc_client_fd (g_slots s i) \<ge> 0"; cases "fc_target_fd (g_slots s i) \<ge> 0")
    (simp_all add: close_client_def close_target_def os_close_def release_java_socket_def log_ev_def
      upd_conn_def fin_log_def Let_def)

lemma conn_finalize_unlinked:
  assumes "\<not> fc_finalized (g_slots s i)" and "fc_next (g_slots s i) = None" "fc_prev (g_slots s i) = None"
    and "conn_list_head s (fc_widx (g_slots s i)) \<noteq> Some i"
  shows "conn_finalize i s = slot_release (fc_slot (g_slots s i))
    (s\<lparr>o_log := o_log s @ fin_log (g_slots s i), g_slots := (g_slots s)(i := dead_conn (g_slots s i)),
       g_conn_count := g_conn_count s - 1\<rparr>)"
proof -
  let ?c = "(g_slots s i)\<lparr>fc_finalized := True, fc_magic := 0\<rparr>"
  have f: "fin_log ?c = fin_log (g_slots s i)" by (simp add: fin_log_def)
  have "conn_finalize i s = (let s4 = close_target i (close_client i (s\<lparr>g_slots := (g_slots s)(i := ?c)\<rparr>));
      s5 = upd_conn i (\<lambda>c. c\<lparr>fc_c2t_buf := None, fc_t2c_buf := None\<rparr>) s4;
      s6 = s5\<lparr>g_conn_count := g_conn_count s5 - 1\<rparr>
    in slot_release (fc_slot (g_slots s6 i)) s6)"
    using assms by (simp add: conn_finalize_def Let_def upd_conn_def)
  also have "\<dots> = slot_release (fc_slot (g_slots s i))
    (s\<lparr>o_log := o_log s @ fin_log (g_slots s i), g_slots := (g_slots s)(i := dead_conn (g_slots s i)),
       g_conn_count := g_conn_count s - 1\<rparr>)"
    unfolding close_both_form Let_def upd_conn_def by (simp add: f dead_conn_def)
  finally show ?thesis .
qed

lemma conn_unref_last:
  assumes "fc_refs (g_slots s i) = 1"
    and "\<not> fc_finalized (g_slots s i)" and "fc_next (g_slots s i) = None" "fc_prev (g_slots s i) = None"
    and "conn_list_head s (fc_widx (g_slots s i)) \<noteq> Some i"
  shows "conn_unref i s = slot_release (fc_slot (g_slots s i))
    (s\<lparr>o_log := o_log s @ fin_log (g_slots s i),
       g_slots := (g_slots s)(i := dead_conn ((g_slots s i)\<lparr>fc_refs := 0\<rparr>)),
       g_conn_count := g_conn_count s - 1\<rparr>)"
proof -
  let ?s = "upd_conn i (\<lambda>c. c\<lparr>fc_refs := 0\<rparr>) s"
  have "conn_finalize i ?s = slot_release (fc_slot (g_slots ?s i))
    (?s\<lparr>o_log := o_log ?s @ fin_log (g_slots ?s i), g_slots := (g_slots ?s)(i := dead_conn (g_slots ?s i)),
       g_conn_count := g_conn_count ?s - 1\<rparr>)"
    by (rule conn_finalize_unlinked) (use assms in simp_all)
  then show ?thesis
    using assms(1) by (simp add: conn_unref_def Let_def upd_conn_def fin_log_def)
qed

lemma conn_unref_last_refs:
  assumes "fc_refs (g_slots s i) = 1"
  shows "fc_refs (g_slots (conn_unref i s) i) = 0"
proof -
  have "fc_refs (g_slots (conn_finalize i t) i) = fc_refs (g_slots t i)" for t :: "'a tcp_scheme"
    unfolding conn_finalize_def Let_def close_both_form
    using list_remove_links_only [of "upd_conn i (\<lambda>c. c\<lparr>fc_finalized := True\<rparr>) t" "fc_widx (g_slots t i)" i]
    by (auto simp: links_only_def slot_release_def upd_conn_def)
  then show ?thesis using assms by (simp add: conn_unref_def Let_def upd_conn_def)
qed

lemma slot_release_simps [simp]:
  "g_slots (slot_release j s) = g_slots s" "conn_list_head (slot_release j s) = conn_list_head s"
  "g_conn_count (slot_release j s) = g_conn_count s" "o_log (slot_release j s) = o_log s"
  "g_slot_state (slot_release j s) = (g_slot_state s)(j := False)"
  "w_epoll_fd (slot_release j s) = w_epoll_fd s" "w_stopping (slot_release j s) = w_stopping s"
  by (simp_all add: slot_release_def)

lemma conn_links_release [simp]:
  "conn_nxt (slot_release j s) = conn_nxt s" "conn_prv (slot_release j s) = conn_prv s"
  by (simp_all add: conn_nxt_def conn_prv_def fun_eq_iff)

lemma active_count_release:
  assumes "i < CONN_SLOT_COUNT" and "g_slot_state s i" and "g_slot_state t = (g_slot_state s)(i := False)"
  shows "active_count t = active_count s - 1"
proof -
  have "{j. j < CONN_SLOT_COUNT \<and> g_slot_state t j} = {j. j < CONN_SLOT_COUNT \<and> (j \<noteq> i \<and> g_slot_state s j)}"
    using assms(3) by auto
  then show ?thesis
    using card_drop_one [of i CONN_SLOT_COUNT "g_slot_state s"] assms(1,2) by (simp add: active_count_def)
qed

text \<open>The release of one connection that is off the lists, whatever list it was waiting on.\<close>

lemma release_step:
  assumes pool: "tcp_pool.pool_inv s" and i: "i < CONN_SLOT_COUNT" "g_slot_state s i"
    and c: "fc_refs (g_slots s i) = 1" "\<not> fc_finalized (g_slots s i)" "fc_slot (g_slots s i) = i"
      "fc_next (g_slots s i) = None" "fc_prev (g_slots s i) = None"
    and h: "conn_list_head s (fc_widx (g_slots s i)) \<noteq> Some i"
  shows "tcp_pool.pool_inv (conn_unref i s) \<and>
     (\<forall>j. j \<noteq> i \<longrightarrow> g_slots (conn_unref i s) j = g_slots s j) \<and>
     conn_list_head (conn_unref i s) = conn_list_head s \<and>
     g_slot_state (conn_unref i s) = (g_slot_state s)(i := False) \<and>
     g_conn_count (conn_unref i s) = g_conn_count s - 1 \<and>
     active_count (conn_unref i s) = active_count s - 1 \<and>
     o_log (conn_unref i s) = o_log s @ fin_log (g_slots s i) \<and>
     w_epoll_fd (conn_unref i s) = w_epoll_fd s \<and> w_stopping (conn_unref i s) = w_stopping s"
proof -
  let ?t = "s\<lparr>o_log := o_log s @ fin_log (g_slots s i),
       g_slots := (g_slots s)(i := dead_conn ((g_slots s i)\<lparr>fc_refs := 0\<rparr>)),
       g_conn_count := g_conn_count s - 1\<rparr>"
  have u: "conn_unref i s = slot_release i ?t"
    using conn_unref_last [OF c(1,2,4,5) h] c(3) by simp
  have "tcp_pool.pool_inv ?t" using pool
    by (simp add: tcp_pool.pool_inv_def tcp_slots_wf_def tcp_free_def)
  then have "tcp_pool.pool_inv (conn_unref i s)"
    using tcp_pool.release_inv [of ?t i] i u by simp
  moreover have "active_count (conn_unref i s) = active_count s - 1"
    by (rule active_count_release [OF i]) (simp add: u)
  ultimately show ?thesis by (simp add: u)
qed

lemma eng_unref_step:
  assumes inv: "eng_inv K s L (i # G)"
  shows "tcp_pool.pool_inv (conn_unref i s)" and "j \<noteq> i \<Longrightarrow> g_slots (conn_unref i s) j = g_slots s j"
    and "conn_list_head (conn_unref i s) = conn_list_head s"
    and "g_slot_state (conn_unref i s) = (g_slot_state s)(i := False)"
    and "g_conn_count (conn_unref i s) = g_conn_count s - 1"
    and "active_count (conn_unref i s) = active_count s - 1"
    and "o_log (conn_unref i s) = o_log s @ fin_log (g_slots s i)"
    and "w_epoll_fd (conn_unref i s) = w_epoll_fd s" and "w_stopping (conn_unref i s) = w_stopping s"
proof -
  note d = eng_invD [OF inv]
  have h: "conn_list_head s w \<noteq> Some i" for w
    using d(2) [of w] d(11) [of i w] by (metis conn_list_def dl_rep_head list.set_intros(1))
  have "i < CONN_SLOT_COUNT" "g_slot_state s i" "dying i (g_slots s i)" using d(8-10) [of i] by auto
  note r = release_step [OF d(1) this(1,2)]
  show "tcp_pool.pool_inv (conn_unref i s)" and "j \<noteq> i \<Longrightarrow> g_slots (conn_unref i s) j = g_slots s j"
    and "conn_list_head (conn_unref i s) = conn_list_head s"
    and "g_slot_state (conn_unref i s) = (g_slot_state s)(i := False)"
    and "g_conn_count (conn_unref i s) = g_conn_count s - 1"
    and "active_count (conn_unref i s) = active_count s - 1"
    and "o_log (conn_unref i s) = o_log s @ fin_log (g_slots s i)"
    and "w_epoll_fd (conn_unref i s) = w_epoll_fd s" and "w_stopping (conn_unref i s) = w_stopping s"
    using r \<open>dying i (g_slots s i)\<close> h by (auto simp: dying_def)
qed

lemma eng_inv_unref: "eng_inv K s L (i # G) \<Longrightarrow> eng_inv K (conn_unref i s) L G"
  unfolding eng_inv_table by (rule tcp_tab.owned_unref)

lemma unref_all_simps [simp]:
  "unref_all [] s = s" "unref_all (i # G) s = unref_all G (conn_unref i s)"
  "unref_all (G @ H) s = unref_all H (unref_all G s)"
  by (simp_all add: unref_all_def)

lemma unref_all_frame:
  assumes "eng_inv K s L (G @ H)"
  shows "(\<forall>j. j \<notin> set G \<longrightarrow> g_slots (unref_all G s) j = g_slots s j) \<and>
     conn_list_head (unref_all G s) = conn_list_head s \<and>
     w_epoll_fd (unref_all G s) = w_epoll_fd s \<and> w_stopping (unref_all G s) = w_stopping s"
  using assms
proof (induction G arbitrary: s)
  case (Cons i G)
  then have inv: "eng_inv K s L (i # (G @ H))" by simp
  from Cons.IH [OF eng_inv_unref [OF inv]] show ?case
    by (simp add: eng_unref_step [OF inv])
qed simp

lemma eng_inv_unref_all: "eng_inv K s L (G @ H) \<Longrightarrow> eng_inv K (unref_all G s) L H"
  unfolding eng_inv_table unref_all_def by (rule tcp_tab.owned_unref_all)

section \<open>Closing and unlinking a connection\<close>

lemma links_only_view:
  assumes "links_only s t"
  shows "fc_magic (g_slots t j) = fc_magic (g_slots s j) \<and> fc_closed (g_slots t j) = fc_closed (g_slots s j) \<and>
     fc_registered (g_slots t j) = fc_registered (g_slots s j) \<and>
     fc_refs (g_slots t j) = fc_refs (g_slots s j) \<and> fc_finalized (g_slots t j) = fc_finalized (g_slots s j) \<and>
     fc_widx (g_slots t j) = fc_widx (g_slots s j) \<and> fc_slot (g_slots t j) = fc_slot (g_slots s j) \<and>
     fc_client_fd (g_slots t j) = fc_client_fd (g_slots s j) \<and>
     fc_target_fd (g_slots t j) = fc_target_fd (g_slots s j) \<and>
     g_slot_state t = g_slot_state s \<and> g_free_slots t = g_free_slots s \<and>
     g_free_slot_top t = g_free_slot_top s \<and> g_conn_count t = g_conn_count s \<and> o_log t = o_log s \<and>
     w_stopping t = w_stopping s \<and> w_epoll_fd t = w_epoll_fd s"
  using assms by (auto simp: links_only_def)

lemma eng_inv_retire:
  "eng_inv K s L G \<Longrightarrow> i \<in> set (L w) \<Longrightarrow>
   eng_inv K (list_remove_locked w i (upd_conn i (\<lambda>c. c\<lparr>fc_closed := True\<rparr>) s)) (L(w := remove1 i (L w))) (G @ [i])"
  unfolding eng_inv_table by (rule tcp_tab.owned_retire)

text \<open>Linking a connection that is off the lists.\<close>

lemma eng_inv_link:
  "eng_inv K s L (i # G) \<Longrightarrow> live_on w i (g_slots s i) \<Longrightarrow> eng_inv K (list_add_locked w i s) (L(w := i # L w)) G"
  unfolding eng_inv_table by (rule tcp_tab.owned_link) (simp_all add: cell_owned_def live_on_def)

section \<open>Refinement\<close>

lemma ctab_same_ctl: "same_ctl s t \<Longrightarrow> ctab t = ctab s"
  by (auto simp: same_ctl_def ctl_view_def ctab_def conn_cell_def tcp_free_def fun_eq_iff)

text \<open>
  C26. The TCP engine implements the session table, the same specification the UDP engine implements:
  through \<open>ctab\<close>, the list surgery written out in the code is the table's link and unlink, closing a
  connection is its retire, dropping a reference its unref (with the release of the slot when it was
  the last), and forwarding data, adjusting event masks and tracking ghosts are no step at all.
\<close>

theorem tcp_refines_table:
  assumes "free_room s"
  shows "ctab (conn_unref i s) = tb_unref i (ctab s) \<and>
    ctab (list_add_locked w i s) = tb_link w i (ctab s) \<and> ctab (list_remove_locked w i s) = tb_unlink w i (ctab s) \<and>
    ctab (list_remove_locked w i (upd_conn i (\<lambda>c. c\<lparr>fc_closed := True\<rparr>) s)) = tb_retire w i (ctab s) \<and>
    ctab (slot_release i s) = tb_release i (ctab s) \<and>
    ctab (snd (relay_io w i tgt ev now s)) = ctab s \<and> ctab (update_conn_events ep i s) = ctab s \<and>
    ctab (ghost_stuck_track u now s) = ctab s"
  using unref_refines [OF assms, of i] ctab_release [OF assms, of i]
    ctab_same_ctl [OF relay_io_ctl [OF prod.collapse [symmetric, of "relay_io w i tgt ev now s"]]]
    ctab_same_ctl [OF masks_only_ctl [OF update_conn_events_masks [of i s ep]]] ctab_same_ctl [OF ghost_track_ctl [where s = s and u = u and now = now]]
  by (simp add: ctab_link ctab_unlink ctab_close tb_retire_def)

theorem tcp_refines_table_witness:
  "ctab (conn_unref 1 ((slots_init tcp_boot)\<lparr>g_free_slot_top := 5\<rparr>)) = tb_unref 1 (ctab ((slots_init tcp_boot)\<lparr>g_free_slot_top := 5\<rparr>))"
proof -
  have "free_room ((slots_init tcp_boot)\<lparr>g_free_slot_top := 5\<rparr>)"
    by (simp add: free_room_def free_stack_def slots_init_def CONN_SLOT_COUNT_def)
  from tcp_refines_table [OF this, of 1] show ?thesis by simp
qed

end
