(* ===== verification/Tcp_Engine.thy ===== *)
theory Tcp_Engine
  imports Tcp_Invariant
begin

unbundle bit_operations_syntax

text \<open>
  The worker loop and the handoff keep the resource invariant: event batches, the timeout scan,
  the exit path and the registration of new connections, each with what it does to the lists.
\<close>

section \<open>Events\<close>

text \<open>What a batch may do to the garbage list and to the lists of the other workers.\<close>

definition batch_frame ::
  "nat \<Rightarrow> (nat \<Rightarrow> nat list) \<Rightarrow> (nat \<Rightarrow> nat list) \<Rightarrow> nat list \<Rightarrow> nat list \<Rightarrow> nat \<Rightarrow> bool" where
  "batch_frame w L L' G G' n \<longleftrightarrow>
     (\<forall>v. v \<noteq> w \<longrightarrow> L' v = L v) \<and> set (L' w) \<subseteq> set (L w) \<and> length G' \<le> length G + n"

lemma batch_frame_refl: "batch_frame w L L G G n"
  by (simp add: batch_frame_def)

lemma batch_frame_trans:
  "batch_frame w L L1 G G1 m \<Longrightarrow> batch_frame w L1 L2 G1 G2 n \<Longrightarrow> batch_frame w L L2 G G2 (m + n)"
  unfolding batch_frame_def by (elim conjE) auto

lemma eng_inv_list_bound:
  assumes "eng_inv K s L G"
  shows "length (L w) \<le> CONN_SLOT_COUNT"
proof -
  have "set (L w) \<subseteq> {..<CONN_SLOT_COUNT}" using eng_invD(4) [OF assms] by auto
  moreover have "distinct (L w)" using eng_invD(2) [OF assms, of w] by (simp add: conn_list_def dl_rep_def)
  ultimately show ?thesis by (metis card_lessThan card_mono distinct_card finite_lessThan)
qed

lemma relay_event_inv:
  assumes inv: "eng_inv K s L G" and i: "i \<in> set (L w)"
    and ev: "relay_event w i t e now (s, G) = (s', G')"
  shows "\<exists>L'. eng_inv K s' L' G' \<and> batch_frame w L L' G G' 1"
proof -
  obtain f s2 where io: "relay_io w i t e now s = (f, s2)" by force
  have inv2: "eng_inv K s2 L G" by (rule eng_inv_same_ctl [OF inv relay_io_ctl [OF io]])
  show ?thesis
  proof (cases f)
    case True
    then have "s' = list_remove_locked w i (upd_conn i (\<lambda>c. c\<lparr>fc_closed := True\<rparr>) s2)" "G' = G @ [i]"
      using ev io eng_invD(6) [OF inv2 i] by (auto simp: relay_event_def live_on_def)
    moreover have "batch_frame w L (L(w := remove1 i (L w))) G (G @ [i]) 1"
      by (simp add: batch_frame_def set_remove1_subset)
    ultimately show ?thesis using eng_inv_retire [OF inv2 i] by blast
  next
    case False
    then have "s' = update_conn_events (w_epoll_fd s2 w) i s2" "G' = G"
      using ev io by (auto simp: relay_event_def)
    moreover have "eng_inv K (update_conn_events (w_epoll_fd s2 w) i s2) L G"
      by (rule eng_inv_same_ctl [OF inv2 masks_only_ctl [OF update_conn_events_masks]])
    ultimately show ?thesis using batch_frame_refl by blast
  qed
qed

text \<open>An event that passes the checks belongs to a connection on the worker's own list.\<close>

lemma process_on_list:
  assumes "eng_inv K s L G" and "i < CONN_SLOT_COUNT"
    and "conn_event_check_slot e (fc_gen (g_slots s i)) (fc_magic (g_slots s i)) (g_slot_state s i)
           (fc_widx (g_slots s i)) w (fc_closed (g_slots s i)) (fc_registered (g_slots s i)) = CONN_EV_PROCESS"
  shows "i \<in> set (L w)"
proof -
  have c: "g_slot_state s i" "fc_widx (g_slots s i) = w" "\<not> fc_closed (g_slots s i)" "fc_registered (g_slots s i)"
    using assms(3) by (auto simp: conn_check_process)
  have "i \<notin> set G" using eng_invD(10) [OF assms(1), of i] c by (auto simp: dying_def)
  then obtain v where v: "i \<in> set (L v)" using eng_invD(12) [OF assms(1,2)] c(1) by blast
  then have "v = w" using eng_invD(6) [OF assms(1) v] c(2) by (simp add: live_on_def)
  with v show ?thesis by simp
qed

lemma bad_slot_unat:
  fixes x :: u32
  assumes "\<not> conn_event_bad_slot (sint x) (int CONN_SLOT_COUNT)"
  shows "unat x < CONN_SLOT_COUNT"
proof -
  have r: "0 \<le> sint x" "sint x < int CONN_SLOT_COUNT" using assms by (auto simp: conn_event_bad_slot_def)
  have "uint x = sint x" using uint_u32_sint [of x] r by (simp add: CONN_SLOT_COUNT_def)
  then show ?thesis using r by (simp add: unat_eq_nat_uint nat_less_iff)
qed

lemma same_ctl_stat:
  "same_ctl s t \<Longrightarrow> same_ctl s (t\<lparr>g_st_bad_slot := n\<rparr>)"
  "same_ctl s t \<Longrightarrow> same_ctl s (t\<lparr>g_st_stale_skip := n\<rparr>)"
  by (simp_all add: same_ctl_def)

lemma worker_event_inv:
  assumes inv: "eng_inv K s L G" and ev: "worker_event w now e (s, G) = (s', G')"
  shows "\<exists>L'. eng_inv K s' L' G' \<and> batch_frame w L L' G G' 1"
proof -
  obtain raw m where e: "e = (raw, m)" by force
  obtain sidx egen tgt where d: "conn_event_decode raw = (sidx, egen, tgt)" by (metis prod.exhaust)
  let ?c = "g_slots s (unat sidx)"
  define disp where "disp = conn_event_check_slot egen (fc_gen ?c) (fc_magic ?c) (g_slot_state s (unat sidx))
     (fc_widx ?c) w (fc_closed ?c) (fc_registered ?c)"
  show ?thesis
  proof (cases "\<not> conn_event_bad_slot (sint sidx) (int CONN_SLOT_COUNT) \<and> disp = CONN_EV_PROCESS")
    case True
    then have "relay_event w (unat sidx) tgt m now (s, G) = (s', G')"
      using ev e d by (simp add: worker_event_def disp_def Let_def)
    moreover have "unat sidx \<in> set (L w)"
      using process_on_list [OF inv bad_slot_unat] True unfolding disp_def by blast
    ultimately show ?thesis using relay_event_inv [OF inv] by blast
  next
    case False
    then have "same_ctl s s'" "G' = G"
      using ev e d unfolding worker_event_def disp_def [symmetric] Let_def
      by (auto intro!: same_ctl_stat same_ctl_refl ghost_track_ctl split: if_splits conn_event_disp.splits
          simp: disp_def)
    then show ?thesis using eng_inv_same_ctl [OF inv] batch_frame_refl by blast
  qed
qed

lemma worker_events_inv:
  assumes "eng_inv K s L G" and "worker_events w now es (s, G) = (ex, s', G')"
  shows "\<exists>L'. eng_inv K s' L' G' \<and> batch_frame w L L' G G' (length es)"
  using assms
proof (induction es arbitrary: s G L)
  case Nil
  then show ?case using batch_frame_refl by auto
next
  case (Cons e es)
  show ?case
  proof (cases "fst e = 0")
    case True
    then show ?thesis using Cons.prems batch_frame_refl by fastforce
  next
    case False
    obtain s1 G1 where s1: "worker_event w now e (s, G) = (s1, G1)" by force
    from worker_event_inv [OF Cons.prems(1) s1]
    obtain L1 where L1: "eng_inv K s1 L1 G1" "batch_frame w L L1 G G1 1" by blast
    from Cons.IH [OF L1(1)] Cons.prems(2) False s1
    obtain L2 where "eng_inv K s' L2 G'" "batch_frame w L1 L2 G1 G' (length es)" by auto
    then show ?thesis using batch_frame_trans [OF L1(2)] by fastforce
  qed
qed

section \<open>The timeout scan\<close>

lemma scan_expired_links:
  "links_only s t \<Longrightarrow> scan_expired now (g_slots t j) = scan_expired now (g_slots s j)"
  by (auto simp: links_only_def scan_expired_def scan_live_def)

lemma scan_conn_inv:
  assumes inv: "eng_inv K s L G" and i: "i \<in> set (L w)" and sc: "scan_conn w now i (s, G) = (s', G')"
  shows "\<exists>L'. eng_inv K s' L' G' \<and>
     (L' = L \<and> \<not> scan_expired now (g_slots s' i) \<or> L' = L(w := remove1 i (L w))) \<and>
     (\<forall>j v. j \<noteq> i \<longrightarrow> j \<in> set (L v) \<longrightarrow> scan_expired now (g_slots s' j) = scan_expired now (g_slots s j)) \<and>
     (length G \<le> MAX_EVENTS \<longrightarrow> length G' \<le> MAX_EVENTS)"
proof -
  define s1 where "s1 = (if scan_live (g_slots s i) \<and> fc_target_eof_since (g_slots s i) = 0 \<and>
       fc_t2c_len (g_slots s i) > 0 \<and> fc_target_fd (g_slots s i) \<ge> 0 \<and> os_peek s (fc_target_fd (g_slots s i)) = 0
     then upd_conn i (\<lambda>c. c\<lparr>fc_target_eof_since := now\<rparr>) s else s)"
  have "same_ctl s s1" unfolding s1_def
    using same_ctl_upd [OF same_ctl_refl [of s], of "\<lambda>c. c\<lparr>fc_target_eof_since := now\<rparr>"]
    by (simp add: ctl_view_def same_ctl_refl)
  then have inv1: "eng_inv K s1 L G" by (rule eng_inv_same_ctl [OF inv])
  have s1_j: "g_slots s1 j = g_slots s j" if "j \<noteq> i" for j using that by (simp add: s1_def)
  show ?thesis
  proof (cases "scan_expired now (g_slots s1 i)")
    case False
    then have "s' = s1" "G' = G" using sc by (auto simp: scan_conn_def Let_def s1_def)
    then show ?thesis using False inv1 s1_j by auto
  next
    case True
    let ?cl = "upd_conn i (\<lambda>c. c\<lparr>fc_closed := True\<rparr>) s1"
    define s2 where "s2 = list_remove_locked w i ?cl"
    have res: "(s', G') = (if length G < MAX_EVENTS then (s2, G @ [i]) else (unref_all G s2, [i]))"
      using sc True unfolding scan_conn_def prod.case Let_def s1_def [symmetric] s2_def by simp
    have inv2: "eng_inv K s2 (L(w := remove1 i (L w))) (G @ [i])"
      unfolding s2_def by (rule eng_inv_retire [OF inv1 i])
    have e2: "scan_expired now (g_slots s2 j) = scan_expired now (g_slots s j)" if "j \<noteq> i" for j
      using scan_expired_links [OF list_remove_links_only [of ?cl w i]] that s1_j by (simp add: s2_def)
    have "g_slots (unref_all G s2) j = g_slots s2 j" if "j \<in> set (L v)" for j v
    proof -
      have "j \<notin> set G" using eng_invD(11) [OF inv] that by blast
      then show ?thesis using unref_all_frame [OF inv2] by blast
    qed
    then show ?thesis
      using res inv2 e2 eng_inv_unref_all [OF inv2]
      by (auto simp: MAX_EVENTS_def split: if_splits)
  qed
qed

text \<open>
  Chasing the links from the middle of the list visits exactly the rest of it: with fuel for the
  remaining elements the loop ends at NULL, and no connection it leaves linked is expired.
\<close>

lemma scan_chase:
  assumes "eng_inv K s L G" and "L w = xs @ ys" and "length ys \<le> fuel"
    and "\<forall>x \<in> set xs. \<not> scan_expired now (g_slots s x)"
    and "scan_loop fuel w now (hd_opt None ys) (s, G) = (s', G')"
  shows "\<exists>L'. eng_inv K s' L' G' \<and> (\<forall>v. v \<noteq> w \<longrightarrow> L' v = L v) \<and> set (L' w) \<subseteq> set (L w) \<and>
     (\<forall>x \<in> set (L' w). \<not> scan_expired now (g_slots s' x)) \<and>
     (length G \<le> MAX_EVENTS \<longrightarrow> length G' \<le> MAX_EVENTS)"
  using assms
proof (induction fuel arbitrary: s G L xs ys)
  case 0
  then have "s' = s" "G' = G" by auto
  then show ?case using 0 by auto
next
  case (Suc fuel)
  show ?case
  proof (cases ys)
    case Nil
    then show ?thesis using Suc.prems by auto
  next
    case (Cons i zs)
    have rep: "conn_list s w (xs @ i # zs)" using eng_invD(2) [OF Suc.prems(1), of w] Suc.prems(2) Cons by simp
    then have nxt: "fc_next (g_slots s i) = hd_opt None zs"
      unfolding conn_list_def using dl_rep_next(1) [of _ "conn_nxt s"] by (metis conn_nxt_def)
    have dist: "distinct (xs @ i # zs)" using rep by (simp add: conn_list_def dl_rep_def)
    obtain s1 G1 where st: "scan_conn w now i (s, G) = (s1, G1)" by force
    have iL: "i \<in> set (L w)" using Suc.prems(2) Cons by simp
    from scan_conn_inv [OF Suc.prems(1) iL st] obtain L1 where L1: "eng_inv K s1 L1 G1"
      "L1 = L \<and> \<not> scan_expired now (g_slots s1 i) \<or> L1 = L(w := remove1 i (L w))"
      "\<forall>j v. j \<noteq> i \<longrightarrow> j \<in> set (L v) \<longrightarrow> scan_expired now (g_slots s1 j) = scan_expired now (g_slots s j)"
      "length G \<le> MAX_EVENTS \<longrightarrow> length G1 \<le> MAX_EVENTS" by blast
    have keep: "\<forall>x \<in> set xs. \<not> scan_expired now (g_slots s1 x)"
    proof
      fix x assume "x \<in> set xs"
      then have "x \<noteq> i" "x \<in> set (L w)" using dist Suc.prems(2) by auto
      then show "\<not> scan_expired now (g_slots s1 x)" using L1(3) Suc.prems(4) \<open>x \<in> set xs\<close> by blast
    qed
    have rest: "scan_loop fuel w now (hd_opt None zs) (s1, G1) = (s', G')"
      using Suc.prems(5) Cons st nxt by simp
    from L1(2) obtain xs1 where xs1: "L1 w = xs1 @ zs" "\<forall>x \<in> set xs1. \<not> scan_expired now (g_slots s1 x)"
      "set (L1 w) \<subseteq> set (L w)" "\<forall>v. v \<noteq> w \<longrightarrow> L1 v = L v"
    proof
      assume "L1 = L \<and> \<not> scan_expired now (g_slots s1 i)"
      then show thesis using that [of "xs @ [i]"] Suc.prems(2) Cons keep by simp
    next
      assume "L1 = L(w := remove1 i (L w))"
      then show thesis using that [of xs] Suc.prems(2) Cons keep dist by (auto simp: remove1_append)
    qed
    from Suc.IH [OF L1(1) xs1(1) _ xs1(2) rest] Suc.prems(3) Cons obtain L2 where L2:
      "eng_inv K s' L2 G'" "\<forall>v. v \<noteq> w \<longrightarrow> L2 v = L1 v" "set (L2 w) \<subseteq> set (L1 w)"
      "\<forall>x \<in> set (L2 w). \<not> scan_expired now (g_slots s' x)"
      "length G1 \<le> MAX_EVENTS \<longrightarrow> length G' \<le> MAX_EVENTS" by auto
    show ?thesis
      by (intro exI [of _ L2]) (use L2 L1(4) xs1(3,4) in auto)
  qed
qed

text \<open>One turn of the loop, before the garbage is released and after.\<close>

lemma eng_inv_set_cong:
  "eng_inv K s L G \<Longrightarrow> distinct H \<Longrightarrow> set H = set G \<Longrightarrow> eng_inv K s L H"
  by (simp add: eng_inv_def)

lemma eng_inv_swap: "eng_inv K s L (G @ H) \<Longrightarrow> eng_inv K s L (H @ G)"
  using eng_invD(7) [of K s L "G @ H"] by (intro eng_inv_set_cong [of K s L "G @ H" "H @ G"]) auto

text \<open>A slot whose connection has been released and that nobody has taken since.\<close>

definition released :: "'a tcp_scheme \<Rightarrow> nat \<Rightarrow> bool" where
  "released s i \<longleftrightarrow> \<not> g_slot_state s i \<and> fc_refs (g_slots s i) \<le> 0"

lemma unref_all_states:
  assumes "eng_inv K s L (G @ H)"
  shows "g_slot_state (unref_all G s) = (\<lambda>j. g_slot_state s j \<and> j \<notin> set G) \<and>
     (\<forall>i \<in> set G. fc_refs (g_slots (unref_all G s) i) = 0)"
  using assms
proof (induction G arbitrary: s)
  case (Cons i G)
  then have inv: "eng_inv K s L (i # (G @ H))" by simp
  note st = eng_unref_step [OF inv]
  have "i \<notin> set G" using eng_invD(7) [OF inv] by simp
  then have "g_slots (unref_all G (conn_unref i s)) i = g_slots (conn_unref i s) i"
    using unref_all_frame [OF eng_inv_unref [OF inv]] by blast
  moreover have "fc_refs (g_slots (conn_unref i s) i) = 0"
    using eng_invD(10) [OF inv, of i] conn_unref_last_refs [of s i] by (simp add: dying_def)
  ultimately show ?case using Cons.IH [OF eng_inv_unref [OF inv]] st(4) by (auto simp: fun_eq_iff)
qed simp

lemma worker_iteration_inv:
  assumes inv: "eng_inv K s L []" and n: "length events \<le> MAX_EVENTS"
    and it: "worker_iteration w now events lc s = (ex, s', G, lc')"
  shows "\<exists>L'. eng_inv K s' L' (if ex then G else []) \<and> (\<forall>v. v \<noteq> w \<longrightarrow> L' v = L v) \<and> set (L' w) \<subseteq> set (L w) \<and>
     length G \<le> MAX_EVENTS \<and>
     (\<not> ex \<longrightarrow> (\<forall>i \<in> set G. released s' i) \<and>
        (now - lc \<ge> 5 \<longrightarrow> (\<forall>i \<in> set (L' w). \<not> scan_expired now (g_slots s' i))))"
proof -
  obtain x s1 G1 where ev: "worker_events w now events (s, []) = (x, s1, G1)" by (metis prod.exhaust)
  from worker_events_inv [OF inv ev] n obtain L1 where L1: "eng_inv K s1 L1 G1"
    "\<forall>v. v \<noteq> w \<longrightarrow> L1 v = L v" "set (L1 w) \<subseteq> set (L w)" "length G1 \<le> MAX_EVENTS"
    by (auto simp: batch_frame_def)
  show ?thesis
  proof (cases x)
    case True
    then show ?thesis using it ev L1 by (auto simp: worker_iteration_def)
  next
    case nx: False
    show ?thesis
    proof (cases "now - lc \<ge> 5")
      case False
      then have "\<not> ex" "s' = unref_all G1 s1" "G = G1" using it ev nx by (auto simp: worker_iteration_def)
      then show ?thesis using False L1 eng_inv_unref_all [of K s1 L1 G1 "[]"] unref_all_states [of K s1 L1 G1 "[]"]
        by (auto simp: released_def)
    next
      case True
      obtain s2 G2 where sc: "scan_loop CONN_SLOT_COUNT w now (conn_list_head s1 w) (s1, G1) = (s2, G2)" by force
      have "conn_list_head s1 w = hd_opt None (L1 w)"
        using eng_invD(2) [OF L1(1), of w] by (simp add: conn_list_def dl_rep_def)
      with scan_chase [OF L1(1), of w "[]" "L1 w" CONN_SLOT_COUNT now s2 G2] eng_inv_list_bound [OF L1(1)] sc
      obtain L2 where L2: "eng_inv K s2 L2 G2" "\<forall>v. v \<noteq> w \<longrightarrow> L2 v = L1 v" "set (L2 w) \<subseteq> set (L1 w)"
        "\<forall>i \<in> set (L2 w). \<not> scan_expired now (g_slots s2 i)" "length G2 \<le> MAX_EVENTS" using L1(4) by auto
      have res: "\<not> ex" "s' = unref_all G2 s2" "G = G2"
        using it ev nx sc True by (auto simp: worker_iteration_def)
      have inv2: "eng_inv K s2 L2 (G2 @ [])" using L2(1) by simp
      have "g_slots s' i = g_slots s2 i" if "i \<in> set (L2 w)" for i
        using unref_all_frame [OF inv2] eng_invD(11) [OF L2(1), of i w] that res(2) by blast
      then show ?thesis
        by (intro exI [of _ L2])
          (use res eng_inv_unref_all [OF inv2] unref_all_states [OF inv2] L1 L2 in \<open>auto simp: released_def\<close>)
    qed
  qed
qed

section \<open>Leaving the loop\<close>

lemma upd_conn_commute:
  "upd_conn i f (upd_conn i g s) = upd_conn i (\<lambda>c. f (g c)) s"
  "i \<noteq> j \<Longrightarrow> upd_conn i f (upd_conn j g s) = upd_conn j g (upd_conn i f s)"
  "upd_conn i f (s\<lparr>conn_list_head := h\<rparr>) = (upd_conn i f s)\<lparr>conn_list_head := h\<rparr>"
  by (simp_all add: upd_conn_def fun_upd_twist [of j i])
lemma upd_conn_swap:
  assumes "\<And>c. f (g c) = g (f c)"
  shows "upd_conn i f (upd_conn j g s) = upd_conn j g (upd_conn i f s)"
proof (cases "i = j")
  case True
  then show ?thesis using assms by (simp only: upd_conn_commute(1))
qed (rule upd_conn_commute(2))

lemma upd_closed_next:
  "upd_conn i (\<lambda>c. c\<lparr>fc_closed := True\<rparr>) (upd_conn j (\<lambda>d. d\<lparr>fc_next := x\<rparr>) s) =
   upd_conn j (\<lambda>d. d\<lparr>fc_next := x\<rparr>) (upd_conn i (\<lambda>c. c\<lparr>fc_closed := True\<rparr>) s)"
  "upd_conn i (\<lambda>c. c\<lparr>fc_closed := True\<rparr>) (upd_conn j (\<lambda>d. d\<lparr>fc_prev := x\<rparr>) s) =
   upd_conn j (\<lambda>d. d\<lparr>fc_prev := x\<rparr>) (upd_conn i (\<lambda>c. c\<lparr>fc_closed := True\<rparr>) s)"
  by (rule upd_conn_swap; simp)+

lemma list_remove_closed:
   "upd_conn i (\<lambda>c. c\<lparr>fc_closed := True\<rparr>) (list_remove_locked w i s) =
   list_remove_locked w i (upd_conn i (\<lambda>c. c\<lparr>fc_closed := True\<rparr>) s)"
  by (simp add: list_remove_locked_def Let_def upd_closed_next upd_conn_commute(3) split: option.split)
lemma drain_batch_inv:
  assumes "eng_inv K s L (G @ C)" and "length (L w) \<le> fuel" and "length C \<le> MAX_EVENTS"
    and "drain_batch fuel w (conn_list_head s w) C s = (cur, C', s')"
  shows "\<exists>L'. eng_inv K s' L' (G @ C') \<and> (\<forall>v. v \<noteq> w \<longrightarrow> L' v = L v) \<and> cur = conn_list_head s' w \<and>
     length C' \<le> MAX_EVENTS \<and> (length C' < MAX_EVENTS \<longrightarrow> L' w = []) \<and>
     length (L' w) + length C' = length (L w) + length C \<and> w_stopping s' = w_stopping s"
  using assms
proof (induction fuel arbitrary: s L C)
  case 0
  then have "C' = C" "s' = s" "cur = conn_list_head s w" by auto
  then show ?case using 0 by auto
next
  case (Suc fuel)
  have head: "conn_list_head s w = hd_opt None (L w)" and dist: "distinct (L w)"
    using eng_invD(2) [OF Suc.prems(1), of w] by (auto simp: conn_list_def dl_rep_def)
  show ?case
  proof (cases "L w = [] \<or> length C = MAX_EVENTS")
    case True
    then have "C' = C" "s' = s" "cur = conn_list_head s w"
      using Suc.prems(4) head by (auto split: option.splits list.splits)
    then show ?thesis using Suc.prems True by auto
  next
    case False
    then obtain i zs where L: "L w = i # zs" and C: "length C < MAX_EVENTS"
      using Suc.prems(3) by (cases "L w") auto
    let ?s1 = "list_remove_locked w i (upd_conn i (\<lambda>c. c\<lparr>fc_closed := True\<rparr>) s)"
    have i: "i \<in> set (L w)" using L by simp
    have inv1: "eng_inv K ?s1 (L(w := zs)) (G @ (C @ [i]))"
      using eng_inv_retire [OF Suc.prems(1) i] L by simp
    have "fc_next (g_slots s i) = hd_opt None zs"
      using eng_invD(2) [OF Suc.prems(1), of w] L dl_rep_next(1) [of _ "conn_nxt s" _ "[]"]
      unfolding conn_list_def by (metis append_Nil conn_nxt_def)
    moreover have "conn_list_head ?s1 w = hd_opt None zs"
      using eng_invD(2) [OF inv1, of w] by (simp add: conn_list_def dl_rep_def)
    moreover have "fc_magic (g_slots (list_remove_locked w i s) i) = CONN_MAGIC"
      using eng_invD(6) [OF Suc.prems(1) i] links_only_view [OF list_remove_links_only [of s w i]]
      by (simp add: live_on_def)
    ultimately have "drain_batch fuel w (conn_list_head ?s1 w) (C @ [i]) ?s1 = (cur, C', s')"
      using Suc.prems(4) head L C by (simp add: list_remove_closed)
    from Suc.IH [OF inv1 _ _ this] Suc.prems(2) L C
    obtain L' where "eng_inv K s' L' (G @ C') \<and> (\<forall>v. v \<noteq> w \<longrightarrow> L' v = L v) \<and> cur = conn_list_head s' w \<and>
     length C' \<le> MAX_EVENTS \<and> (length C' < MAX_EVENTS \<longrightarrow> L' w = []) \<and>
     length (L' w) + length C' = length (L w) + length C \<and> w_stopping s' = w_stopping ?s1" by auto
    moreover have "w_stopping ?s1 = w_stopping s"
      using links_only_view [OF list_remove_links_only [of "upd_conn i (\<lambda>c. c\<lparr>fc_closed := True\<rparr>) s" w i]]
      by simp
    ultimately show ?thesis by auto
  qed
qed

lemma drain_loop_inv:
  assumes "eng_inv K s L G" and "length (L w) < MAX_EVENTS * fuel"
  shows "eng_inv K (drain_loop fuel w s) (L(w := [])) G \<and> w_stopping (drain_loop fuel w s) = w_stopping s"
  using assms
proof (induction fuel arbitrary: s L)
  case (Suc fuel)
  obtain cur C s1 where b: "drain_batch CONN_SLOT_COUNT w (conn_list_head s w) [] s = (cur, C, s1)"
    by (metis prod.exhaust)
  from drain_batch_inv [of K s L G "[]" w CONN_SLOT_COUNT cur C s1] b Suc.prems(1)
    eng_inv_list_bound [OF Suc.prems(1), of w]
  obtain L1 where L1: "eng_inv K s1 L1 (G @ C)" "\<forall>v. v \<noteq> w \<longrightarrow> L1 v = L v" "cur = conn_list_head s1 w"
    "length C < MAX_EVENTS \<longrightarrow> L1 w = []" "length (L1 w) + length C = length (L w)"
    "w_stopping s1 = w_stopping s" "length C \<le> MAX_EVENTS"
    by (auto simp: MAX_EVENTS_def)
  let ?s3 = "unref_all C s1"
  have inv3: "eng_inv K ?s3 L1 G" by (rule eng_inv_unref_all [OF eng_inv_swap [OF L1(1)]])
  have st3: "w_stopping ?s3 = w_stopping s" using unref_all_frame [OF eng_inv_swap [OF L1(1)]] L1(6) by simp
  have upd: "L1(w := []) = L(w := [])" using L1(2) by auto
  have step: "drain_loop (Suc fuel) w s = (if length C < MAX_EVENTS then ?s3 else drain_loop fuel w ?s3)"
    using b L1(3) by (simp add: Let_def)
  show ?case
  proof (cases "length C < MAX_EVENTS")
    case True
    then have "L1 = L(w := [])" using L1(4) upd by (metis fun_upd_triv)
    moreover have "drain_loop (Suc fuel) w s = ?s3" using True step by (simp only: if_True)
    ultimately show ?thesis using inv3 st3 by metis
  next
    case False
    then have "length (L1 w) < MAX_EVENTS * fuel" using L1(5,7) Suc.prems(2) by simp
    moreover have "drain_loop (Suc fuel) w s = drain_loop fuel w ?s3" using False step by (simp only: if_False)
    ultimately show ?thesis using Suc.IH [OF inv3] upd st3 by metis
  qed
qed simp

lemma worker_exit_inv:
  assumes "eng_inv K s L G"
  shows "eng_inv K (worker_exit w G s) (L(w := [])) [] \<and> w_stopping (worker_exit w G s) w"
proof -
  let ?s1 = "s\<lparr>w_stopping := (w_stopping s)(w := True)\<rparr>"
  let ?s2 = "drain_loop CONN_SLOT_COUNT w ?s1"
  have "eng_inv K ?s1 L G" by (rule eng_inv_same_ctl [OF assms]) (simp add: same_ctl_def)
  from drain_loop_inv [OF this, of w CONN_SLOT_COUNT] eng_inv_list_bound [OF assms, of w]
  have s2: "eng_inv K ?s2 (L(w := [])) G" "w_stopping ?s2 w"
    by (auto simp: MAX_EVENTS_def CONN_SLOT_COUNT_def)
  have inv2: "eng_inv K ?s2 (L(w := [])) (G @ [])" using s2(1) by simp
  let ?s3 = "unref_all G ?s2"
  have "same_ctl ?s3 (os_close (w_epoll_fd ?s3 w) ?s3)" by (simp add: os_close_def log_ev_def same_ctl_def)
  from eng_inv_same_ctl [OF eng_inv_unref_all [OF inv2] this]
  show ?thesis using s2(2) unref_all_frame [OF inv2]
    by (simp add: worker_exit_def Let_def os_close_def log_ev_def)
qed

text \<open>What an exit adds to the log, and what it does to the connections of the other workers.\<close>

lemma grew_unref: "grew s (conn_unref i s)"
proof -
  have r: "o_log (list_remove_locked w i t) = o_log t" for w and t :: "'a tcp_scheme"
    using links_only_view [OF list_remove_links_only [of t w i]] by simp
  have "grew t (conn_finalize i t)" for t :: "'a tcp_scheme"
    unfolding grew_def conn_finalize_def Let_def close_both_form by (simp add: r)
  from this [of "upd_conn i (\<lambda>c. c\<lparr>fc_refs := 0\<rparr>) s"] show ?thesis
    by (simp add: conn_unref_def Let_def grew_def)
qed

lemma grew_unref_all: "grew s (unref_all g s)"
  by (induction g arbitrary: s) (auto intro: grew_trans [OF grew_unref])

lemma grew_drain_loop: "grew s (drain_loop n w s)"
proof (induction n arbitrary: s)
  case (Suc n)
  have r: "o_log (list_remove_locked w i t) = o_log t" for i and t :: "'a tcp_scheme"
    using links_only_view [OF list_remove_links_only [of t w i]] by simp
  have b: "o_log (snd (snd (drain_batch m w cur c t))) = o_log t" for m cur c and t :: "'a tcp_scheme"
    by (induction m arbitrary: cur c t) (simp_all add: Let_def r split: option.split)
  obtain cur c t where d: "drain_batch CONN_SLOT_COUNT w (conn_list_head s w) [] s = (cur, c, t)" by (metis prod.exhaust)
  let ?u = "unref_all c (t\<lparr>conn_list_head := (conn_list_head t)(w := cur)\<rparr>)"
  have "o_log t = o_log s" using d b [of CONN_SLOT_COUNT "conn_list_head s w" "[]" s] by simp
  then have "grew s (t\<lparr>conn_list_head := (conn_list_head t)(w := cur)\<rparr>)" by (simp add: grew_eq)
  from grew_trans [OF this grew_unref_all] have "grew s ?u" .
  with grew_trans [OF this Suc.IH] show ?case by (simp add: d Let_def)
qed simp

lemma grew_worker_exit: "grew s (worker_exit w g s)"
proof -
  let ?s1 = "s\<lparr>w_stopping := (w_stopping s)(w := True)\<rparr>"
  have "grew s ?s1" by (simp add: grew_eq)
  from grew_trans [OF grew_trans [OF this grew_drain_loop] grew_unref_all] have "grew s (unref_all g (drain_loop CONN_SLOT_COUNT w ?s1))" .
  then show ?thesis by (auto simp: worker_exit_def Let_def grew_def os_close_def log_ev_def)
qed

text \<open>Stale entries of the garbage array: released slots are passed through the exit path unharmed.\<close>

lemma drain_batch_rest:
  "drain_batch fuel w cur C s = (cur', C', s') \<Longrightarrow>
   g_slot_state s' = g_slot_state s \<and> (\<forall>j. fc_refs (g_slots s' j) = fc_refs (g_slots s j) \<and>
     fc_client_fd (g_slots s' j) = fc_client_fd (g_slots s j) \<and> fc_target_fd (g_slots s' j) = fc_target_fd (g_slots s j))"
proof (induction fuel w cur C s rule: drain_batch.induct)
  case (2 fuel w cur C s)
  show ?case
  proof (cases cur)
    case (Some i)
    have "g_slot_state (list_remove_locked w i s) = g_slot_state s \<and>
        (\<forall>j. fc_refs (g_slots (list_remove_locked w i s) j) = fc_refs (g_slots s j) \<and>
          fc_client_fd (g_slots (list_remove_locked w i s) j) = fc_client_fd (g_slots s j) \<and>
          fc_target_fd (g_slots (list_remove_locked w i s) j) = fc_target_fd (g_slots s j))"
      using links_only_view [OF list_remove_links_only [of s w i]] by simp
    then show ?thesis using 2 Some by (auto simp: Let_def split: if_splits)
  qed (use 2 in simp)
qed simp

lemma drain_loop_released:
  assumes "eng_inv K s L G" and "released s j"
  shows "released (drain_loop fuel w s) j"
  using assms
proof (induction fuel arbitrary: s L)
  case (Suc fuel)
  obtain cur C s1 where b: "drain_batch CONN_SLOT_COUNT w (conn_list_head s w) [] s = (cur, C, s1)"
    by (metis prod.exhaust)
  from drain_batch_inv [of K s L G "[]" w CONN_SLOT_COUNT cur C s1] b Suc.prems(1)
    eng_inv_list_bound [OF Suc.prems(1), of w]
  obtain L1 where L1: "eng_inv K s1 L1 (G @ C)" "cur = conn_list_head s1 w" by (auto simp: MAX_EVENTS_def)
  note sw = eng_inv_swap [OF L1(1)]
  have r1: "released s1 j" using Suc.prems(2) drain_batch_rest [OF b] by (simp add: released_def)
  then have "j \<notin> set C" using eng_invD(9) [OF L1(1), of j] by (auto simp: released_def)
  then have r3: "released (unref_all C s1) j"
    using r1 unref_all_frame [OF sw] unref_all_states [OF sw] by (simp add: released_def)
  have "drain_loop (Suc fuel) w s = (if length C < MAX_EVENTS then unref_all C s1 else drain_loop fuel w (unref_all C s1))"
    using b L1(2) by (simp add: Let_def)
  then show ?case using r3 Suc.IH [OF eng_inv_unref_all [OF sw] r3] by simp
qed simp

text \<open>The connections of the other workers keep their descriptors.\<close>

lemma drain_others:
  assumes "eng_inv K s L []" and "j \<in> set (L v)" and "v \<noteq> w"
  shows "fc_client_fd (g_slots (drain_loop fuel w s) j) = fc_client_fd (g_slots s j) \<and>
     fc_target_fd (g_slots (drain_loop fuel w s) j) = fc_target_fd (g_slots s j)"
  using assms
proof (induction fuel arbitrary: s L)
  case (Suc fuel)
  obtain cur C s1 where b: "drain_batch CONN_SLOT_COUNT w (conn_list_head s w) [] s = (cur, C, s1)"
    by (metis prod.exhaust)
  from drain_batch_inv [of K s L "[]" "[]" w CONN_SLOT_COUNT cur C s1] b Suc.prems(1)
    eng_inv_list_bound [OF Suc.prems(1), of w]
  obtain L1 where L1: "eng_inv K s1 L1 (C @ [])" "cur = conn_list_head s1 w" "L1 v = L v" using assms(3) by (auto simp: MAX_EVENTS_def)
  have j: "j \<in> set (L1 v)" using L1(3) Suc.prems(2) by simp
  then have "j \<notin> set C" using eng_invD(11) [OF L1(1), of j v] by auto
  then have c: "g_slots (unref_all C s1) j = g_slots s1 j" using unref_all_frame [OF L1(1)] by blast
  have "drain_loop (Suc fuel) w s = (if length C < MAX_EVENTS then unref_all C s1 else drain_loop fuel w (unref_all C s1))"
    using b L1(2) by (simp add: Let_def)
  then show ?case using c drain_batch_rest [OF b] Suc.IH [OF eng_inv_unref_all [OF L1(1)] j assms(3)] by simp
qed simp

lemma unref_released:
  assumes inv: "eng_inv K s L []" and r: "released s i"
  shows "eng_inv K (conn_unref i s) L [] \<and> (\<forall>j. released s j \<longrightarrow> released (conn_unref i s) j) \<and>
     o_log (conn_unref i s) = o_log s \<and> w_stopping (conn_unref i s) = w_stopping s \<and> w_epoll_fd (conn_unref i s) = w_epoll_fd s"
proof -
  let ?t = "upd_conn i (\<lambda>c. c\<lparr>fc_refs := fc_refs (g_slots s i) - 1\<rparr>) s"
  have t: "conn_unref i s = ?t" using r by (simp add: conn_unref_def Let_def released_def)
  have "conn_list ?t w (L w) = conn_list s w (L w)" for w
    by (rule conn_list_cong) (auto simp: conn_nxt_def conn_prv_def)
  moreover have "tcp_pool.pool_inv ?t = tcp_pool.pool_inv s" "active_count ?t = active_count s"
    by (auto simp: tcp_pool.pool_inv_def tcp_slots_wf_def tcp_free_def active_count_def)
  moreover have "g_slots ?t j = g_slots s j" if "j \<in> set (L w)" for j w
    using that eng_invD(5) [OF inv, of j w] r by (auto simp: released_def)
  ultimately have "eng_inv K ?t L []" using inv unfolding eng_inv_def by simp
  then show ?thesis using r unfolding t by (simp add: released_def)
qed

lemma unref_all_released:
  assumes "eng_inv K s L []" and "\<forall>i \<in> set G. released s i"
  shows "eng_inv K (unref_all G s) L [] \<and> o_log (unref_all G s) = o_log s \<and>
     w_stopping (unref_all G s) = w_stopping s \<and> w_epoll_fd (unref_all G s) = w_epoll_fd s"
  using assms
proof (induction G arbitrary: s)
  case (Cons i G)
  then show ?case using unref_released [OF Cons.prems(1), of i] Cons.IH [of "conn_unref i s"] by simp
qed simp

lemma worker_exit_stale:
  assumes inv: "eng_inv K s L []" and G: "\<forall>i \<in> set G. released s i"
  shows "eng_inv K (worker_exit w G s) (L(w := [])) [] \<and> w_stopping (worker_exit w G s) w"
proof -
  let ?s1 = "s\<lparr>w_stopping := (w_stopping s)(w := True)\<rparr>"
  let ?s2 = "drain_loop CONN_SLOT_COUNT w ?s1"
  have inv1: "eng_inv K ?s1 L []" by (rule eng_inv_same_ctl [OF inv]) (simp add: same_ctl_def)
  from drain_loop_inv [OF inv1, of w CONN_SLOT_COUNT] eng_inv_list_bound [OF inv, of w]
  have s2: "eng_inv K ?s2 (L(w := [])) []" "w_stopping ?s2 w"
    by (auto simp: MAX_EVENTS_def CONN_SLOT_COUNT_def)
  have "\<forall>i \<in> set G. released ?s2 i" using G drain_loop_released [OF inv1] by (simp add: released_def)
  note u = unref_all_released [OF s2(1) this]
  let ?s3 = "unref_all G ?s2"
  have "same_ctl ?s3 (os_close (w_epoll_fd ?s3 w) ?s3)" by (simp add: os_close_def log_ev_def same_ctl_def)
  from eng_inv_same_ctl [OF conjunct1 [OF u] this] show ?thesis
    using s2(2) u by (simp add: worker_exit_def Let_def os_close_def log_ev_def)
qed

section \<open>Handing a connection over\<close>

lemma active_count_acquire:
  assumes "i < CONN_SLOT_COUNT" and "\<not> g_slot_state s i" and "g_slot_state t = (g_slot_state s)(i := True)"
  shows "active_count t = active_count s + 1"
proof -
  have "g_slot_state s = (g_slot_state t)(i := False)" "g_slot_state t i" using assms(2,3) by (auto simp: fun_eq_iff)
  from active_count_release [OF assms(1) this(2,1)] show ?thesis by simp
qed

text \<open>A slot taken for a connection whose count was reserved beforehand.\<close>

lemma eng_inv_acquire:
  assumes inv: "eng_inv (K + 1) s L G" and acq: "slot_acquire s = (Some i, s1)"
    and f: "dying i (f (g_slots s1 i))"
  shows "eng_inv K (upd_conn i f s1) L (i # G)"
proof -
  note d = eng_invD [OF inv]
  note a = tcp_pool.acquire_Some [OF d(1) acq]
  have frame: "conn_list_head s1 = conn_list_head s" "g_conn_count s1 = g_conn_count s"
    "j \<noteq> i \<Longrightarrow> g_slots s1 j = g_slots s j" for j
    using acq by (auto simp: slot_acquire_def Let_def split: if_splits)
  have out: "i \<notin> set G" "i \<notin> set (L w)" for w using a d(5) [of i w] d(9) [of i] by auto
  have "conn_list (upd_conn i f s1) w (L w) = conn_list s w (L w)" for w
    by (rule conn_list_cong) (use out(2) [of w] in \<open>auto simp: conn_nxt_def conn_prv_def frame\<close>)
  moreover have "active_count (upd_conn i f s1) = active_count s + 1"
    by (rule active_count_acquire [of i]) (use a in simp_all)
  moreover have "tcp_pool.pool_inv (upd_conn i f s1)"
    using a by (simp add: tcp_pool.pool_inv_def tcp_slots_wf_def tcp_free_def)
  ultimately show ?thesis
    using inv a f out frame unfolding eng_inv_def by (auto simp: fun_upd_def)
qed

lemma eng_inv_count:
  assumes "eng_inv K s L G" and "g_conn_count s - n = K' + (g_conn_count s - K)"
  shows "eng_inv K' (s\<lparr>g_conn_count := g_conn_count s - n\<rparr>) L G" (is "eng_inv K' ?t L G")
proof -
  have "conn_list ?t w (L w) = conn_list s w (L w)" for w
    by (rule conn_list_cong) (auto simp: conn_nxt_def conn_prv_def)
  moreover have "tcp_pool.pool_inv ?t = tcp_pool.pool_inv s" "active_count ?t = active_count s"
    by (auto simp: tcp_pool.pool_inv_def tcp_slots_wf_def tcp_free_def active_count_def)
  ultimately show ?thesis using assms unfolding eng_inv_def by simp
qed

lemma same_ctl_malloc: "os_malloc s = (b, t) \<Longrightarrow> same_ctl s t \<and> o_log t = o_log s \<and> g_slots t = g_slots s"
  by (auto simp: os_malloc_def same_ctl_def split: list.splits)

lemma register_conn_ctl:
  assumes "register_conn ep i cf tf s = (ok, t)"
  shows "same_ctl s t \<and> g_slots t = g_slots s \<and> w_stopping t = w_stopping s \<and>
     (\<exists>l. o_log t = o_log s @ l \<and> length l \<le> 2 \<and> (\<forall>e \<in> set l. \<exists>f m u. e = CTL CTL_ADD ep f m u) \<and>
       (ok \<longrightarrow> l = [CTL CTL_ADD ep cf (fc_client_events (g_slots s i)) (fc_ep_u64 (g_slots s i)),
                   CTL CTL_ADD ep tf (fc_target_events (g_slots s i)) (fc_ep_u64 (g_slots s i) OR CONN_EV_TARGET_FLAG)]))"
  using assms
  by (auto simp: register_conn_def os_epoll_ctl_def log_ev_def same_ctl_def Let_def
      split: list.splits if_splits bool.splits)

lemma ghost_stamp_ctl: "same_ctl s (ghost_stamp_record u cf tf w s) \<and>
    g_slots (ghost_stamp_record u cf tf w s) = g_slots s \<and> o_log (ghost_stamp_record u cf tf w s) = o_log s"
  by (simp add: ghost_stamp_record_def Let_def same_ctl_def)

text \<open>Both descriptors closed exactly once, and the Java side told exactly once.\<close>

definition closed_once :: "fd \<Rightarrow> fd \<Rightarrow> sysev list \<Rightarrow> bool" where
  "closed_once cf tf l \<longleftrightarrow> count_list l (CLOSE cf) = 1 \<and> count_list l (CLOSE tf) = 1 \<and>
     count_list l (JAVA_RELEASE tf) = 1"

text \<open>The state right after a slot was filled: the connection is off the lists and unregistered.\<close>

lemma handoff_fill:
  assumes inv: "eng_inv (K + 1) s L []" and acq: "slot_acquire s = (Some i, s1)"
    and m: "os_malloc s1 = (ok1, s2)" "os_malloc s2 = (ok2, s3)"
  shows "eng_inv K (upd_conn i (init_conn w cf tf ok1 ok2) s3) L [i]"
proof -
  have c: "g_slots s1 i = zero_conn\<lparr>fc_gen := fc_gen (g_slots s i) + 1, fc_slot := i\<rparr>"
    using acq by (auto simp: slot_acquire_def Let_def split: if_splits)
  let ?f = "init_conn w cf tf ok1 ok2"
  have "eng_inv K (upd_conn i ?f s1) L [i]"
    by (rule eng_inv_acquire [OF inv acq]) (simp add: c dying_def init_conn_def zero_conn_def)
  moreover have "same_ctl (upd_conn i ?f s1) (upd_conn i ?f s3)"
    using same_ctl_malloc [OF m(1)] same_ctl_malloc [OF m(2)] by (simp add: same_ctl_def)
  ultimately show ?thesis by (rule eng_inv_same_ctl)
qed

lemma unref_single:
  assumes "eng_inv K s L [i]" and "fc_client_fd (g_slots s i) = cf" "fc_target_fd (g_slots s i) = tf"
    and "0 \<le> cf" "0 \<le> tf"
  shows "eng_inv K (conn_unref i s) L [] \<and>
     o_log (conn_unref i s) = o_log s @ [CLOSE cf, JAVA_RELEASE tf, CLOSE tf]"
  using eng_inv_unref [OF assms(1)] eng_unref_step(7) [OF assms(1)] assms(2-5) by (simp add: fin_log_def)

lemma eng_inv_set_registered:
  assumes "eng_inv K s L []"
  shows "eng_inv K (upd_conn i (\<lambda>c. c\<lparr>fc_registered := True\<rparr>) s) L []" (is "eng_inv K ?t L []")
proof -
  have "conn_list ?t w (L w) = conn_list s w (L w)" for w
    by (rule conn_list_cong) (auto simp: conn_nxt_def conn_prv_def)
  moreover have "tcp_pool.pool_inv ?t = tcp_pool.pool_inv s" "active_count ?t = active_count s"
    by (auto simp: tcp_pool.pool_inv_def tcp_slots_wf_def tcp_free_def active_count_def)
  moreover have "live_on w j (g_slots ?t j) = live_on w j (g_slots s j)" for w j
    by (simp add: live_on_def)
  ultimately show ?thesis using assms unfolding eng_inv_def by simp
qed

lemma ctl_log_closes:
  assumes "\<forall>e \<in> set l. \<exists>f m u. e = CTL CTL_ADD ep f m u" and "cf \<noteq> tf"
  shows "closed_once cf tf (l @ [CLOSE cf, JAVA_RELEASE tf, CLOSE tf])"
proof -
  have "CLOSE x \<notin> set l" "JAVA_RELEASE x \<notin> set l" for x using assms(1) by auto
  then show ?thesis using assms(2) by (simp add: closed_once_def count_list_append)
qed

text \<open>The outcome of a handoff: a registered connection at the front of its list, or everything undone.\<close>

definition handed_over ::
  "nat \<Rightarrow> fd \<Rightarrow> fd \<Rightarrow> 'a tcp_scheme \<Rightarrow> (nat \<Rightarrow> nat list) \<Rightarrow> 'a tcp_scheme \<Rightarrow> (nat \<Rightarrow> nat list) \<Rightarrow> sysev list \<Rightarrow> bool" where
  "handed_over w cf tf s L s' L' l \<longleftrightarrow>
     (\<exists>i. L' = L(w := i # L w) \<and> fst (slot_acquire s) = Some i \<and> fc_registered (g_slots s' i) \<and> conn_wf (g_slots s' i) \<and>
        fc_client_fd (g_slots s' i) = cf \<and> fc_target_fd (g_slots s' i) = tf \<and>
        fc_last_active (g_slots s' i) = o_now s \<and>
        l = [CTL CTL_ADD (w_epoll_fd s w) cf (EPOLLIN OR EPOLLRDHUP) (ep_u64_of (fc_gen (g_slots s' i)) i),
             CTL CTL_ADD (w_epoll_fd s w) tf (EPOLLIN OR EPOLLRDHUP)
               (ep_u64_of (fc_gen (g_slots s' i)) i OR CONN_EV_TARGET_FLAG)])"

definition ready_fields :: "nat \<Rightarrow> nat \<Rightarrow> fd \<Rightarrow> fd \<Rightarrow> int \<Rightarrow> full_conn \<Rightarrow> bool" where
  "ready_fields w i cf tf now c \<longleftrightarrow> live_on w i c \<and> conn_wf c \<and> fc_client_fd c = cf \<and> fc_target_fd c = tf \<and>
     fc_last_active c = now \<and> fc_ep_u64 c = ep_u64_of (fc_gen c) i \<and>
     fc_client_events c = EPOLLIN OR EPOLLRDHUP \<and> fc_target_events c = EPOLLIN OR EPOLLRDHUP"

lemma ready_fields_links:
  "links_only s t \<Longrightarrow> ready_fields w i cf tf now (g_slots t i) = ready_fields w i cf tf now (g_slots s i)"
  by (auto simp: links_only_def ready_fields_def live_on_def conn_wf_def)

lemma handoff_admit_outcome:
  assumes inv: "eng_inv K s L [i]" and c: "ready_fields w i cf tf now (g_slots s i)" and now: "now = o_now s0"
    and ep: "w_epoll_fd s w = w_epoll_fd s0 w" and fds: "0 \<le> cf" "0 \<le> tf" "cf \<noteq> tf" and acq: "fst (slot_acquire s0) = Some i"
  shows "\<exists>L' l. eng_inv K (handoff_admit w i cf tf s) L' [] \<and> o_log (handoff_admit w i cf tf s) = o_log s @ l \<and>
     (handed_over w cf tf s0 L (handoff_admit w i cf tf s) L' l \<or> L' = L \<and> closed_once cf tf l)"
proof (cases "w_stopping s w")
  case True
  have "closed_once cf tf [CLOSE cf, JAVA_RELEASE tf, CLOSE tf]" using ctl_log_closes [of "[]"] fds(3) by simp
  then show ?thesis using unref_single [OF inv _ _ fds(1,2)] c True
    by (auto simp: handoff_admit_def ready_fields_def)
next
  case False
  let ?a = "list_add_locked w i s"
  note la = list_add_links_only [of s w i]
  obtain ok t where reg: "register_conn (w_epoll_fd s w) i cf tf ?a = (ok, t)" by force
  note r = register_conn_ctl [OF reg]
  have ca: "ready_fields w i cf tf now (g_slots ?a i)" using ready_fields_links [OF la] c by blast
  have inva: "eng_inv K ?a (L(w := i # L w)) []"
    by (rule eng_inv_link [OF inv]) (use c in \<open>simp add: ready_fields_def\<close>)
  have invt: "eng_inv K t (L(w := i # L w)) []" using eng_inv_same_ctl [OF inva] r by blast
  obtain l where l: "o_log t = o_log s @ l" "\<forall>e \<in> set l. \<exists>f m u. e = CTL CTL_ADD (w_epoll_fd s w) f m u"
    "ok \<longrightarrow> l = [CTL CTL_ADD (w_epoll_fd s w) cf (EPOLLIN OR EPOLLRDHUP) (ep_u64_of (fc_gen (g_slots t i)) i),
          CTL CTL_ADD (w_epoll_fd s w) tf (EPOLLIN OR EPOLLRDHUP) (ep_u64_of (fc_gen (g_slots t i)) i OR CONN_EV_TARGET_FLAG)]"
    using r ca links_only_view [OF la] by (auto simp: ready_fields_def)
  show ?thesis
  proof (cases ok)
    case True
    let ?g = "ghost_stamp_record (fc_ep_u64 (g_slots t i)) cf tf w t"
    have "eng_inv K ?g (L(w := i # L w)) []" using eng_inv_same_ctl [OF invt] ghost_stamp_ctl by blast
    then have "eng_inv K (handoff_admit w i cf tf s) (L(w := i # L w)) []"
      using eng_inv_set_registered False True reg by (simp add: handoff_admit_def)
    moreover have "handed_over w cf tf s0 L (handoff_admit w i cf tf s) (L(w := i # L w)) l"
      unfolding handed_over_def
      by (rule exI [of _ i]) (use False True reg l(3) ca r ep now acq ghost_stamp_ctl [of t] in
          \<open>simp add: handoff_admit_def ready_fields_def conn_wf_def\<close>)
    moreover have "o_log (handoff_admit w i cf tf s) = o_log s @ l"
      using False True reg l(1) ghost_stamp_ctl [of t] by (simp add: handoff_admit_def)
    ultimately show ?thesis by blast
  next
    case nok: False
    let ?cl = "upd_conn i (\<lambda>c. c\<lparr>fc_closed := True\<rparr>) t"
    let ?r = "list_remove_locked w i ?cl"
    have "eng_inv K ?r L [i]" using eng_inv_retire [OF invt, of i w] by simp
    moreover have "fc_client_fd (g_slots ?r i) = cf" "fc_target_fd (g_slots ?r i) = tf" "o_log ?r = o_log s @ l"
      using links_only_view [OF list_remove_links_only [of ?cl w i]] ca r l(1) by (auto simp: ready_fields_def)
    ultimately have "eng_inv K (conn_unref i ?r) L [] \<and>
        o_log (conn_unref i ?r) = o_log s @ (l @ [CLOSE cf, JAVA_RELEASE tf, CLOSE tf])"
      using unref_single [of K ?r L i cf tf] fds(1,2) by simp
    then show ?thesis using ctl_log_closes [OF l(2) fds(3)] False nok reg by (auto simp: handoff_admit_def)
  qed
qed

lemma handoff_outcome:
  assumes inv: "eng_inv (K + 1) s L []" and fds: "0 \<le> cf" "0 \<le> tf" "cf \<noteq> tf"
    and idx: "0 \<le> sint (next_worker_idx s)"
  shows "\<exists>s' L' l. handoff_to_worker cf tf s = Some s' \<and> eng_inv K s' L' [] \<and> o_log s' = o_log s @ l \<and>
     (handed_over (nat (pick_worker (next_worker_idx s))) cf tf s L s' L' l \<or> L' = L \<and> closed_once cf tf l)"
proof -
  let ?w = "nat (pick_worker (next_worker_idx s))" and ?s0 = "s\<lparr>next_worker_idx := next_worker_idx s + 1\<rparr>"
  have some: "\<not> pick_worker (next_worker_idx s) < 0"
    using idx c_rem_nonneg [of "sint (next_worker_idx s)" "int WORKER_COUNT"]
    by (simp add: pick_worker_def WORKER_COUNT_def)
  have inv0: "eng_inv (K + 1) ?s0 L []" by (rule eng_inv_same_ctl [OF inv]) (simp add: same_ctl_def)
  obtain oi s1 where acq: "slot_acquire ?s0 = (oi, s1)" by force
  have fr: "o_log s1 = o_log s" "o_now s1 = o_now s" "w_epoll_fd s1 = w_epoll_fd s"
    using acq by (auto simp: slot_acquire_def Let_def split: if_splits)
  show ?thesis
  proof (cases oi)
    case None
    let ?t = "os_close tf (os_close cf (release_java_socket tf (s1\<lparr>g_conn_count := g_conn_count s1 - 1\<rparr>)))"
    have "same_ctl (?s0\<lparr>g_conn_count := g_conn_count s - 1\<rparr>) ?t"
      using acq None by (auto simp: slot_acquire_def Let_def os_close_def release_java_socket_def log_ev_def
          same_ctl_def split: if_splits)
    moreover have "eng_inv K (?s0\<lparr>g_conn_count := g_conn_count s - 1\<rparr>) L []"
      using eng_inv_count [OF inv0, of 1 K] by simp
    ultimately have "eng_inv K ?t L []" by (rule eng_inv_same_ctl [rotated])
    moreover have "o_log ?t = o_log s @ [JAVA_RELEASE tf, CLOSE cf, CLOSE tf]" using fr
      by (simp add: os_close_def release_java_socket_def log_ev_def)
    moreover have "closed_once cf tf [JAVA_RELEASE tf, CLOSE cf, CLOSE tf]" using fds(3) by (simp add: closed_once_def)
    ultimately show ?thesis using some acq None by (auto simp: handoff_to_worker_def Let_def)
  next
    case (Some i)
    obtain ok1 s2 where m1: "os_malloc s1 = (ok1, s2)" by force
    obtain ok2 s3 where m2: "os_malloc s2 = (ok2, s3)" by force
    let ?s4 = "upd_conn i (init_conn ?w cf tf ok1 ok2) s3"
    have top: "fst (slot_acquire s) = Some i" using acq Some by (auto simp: slot_acquire_def Let_def split: if_splits)
    have inv4: "eng_inv K ?s4 L [i]" by (rule handoff_fill [OF inv0 acq [unfolded Some] m1 m2])
    have fr4: "o_log ?s4 = o_log s" "o_now ?s4 = o_now s" "w_epoll_fd ?s4 = w_epoll_fd s"
      using fr m1 m2 by (auto simp: os_malloc_def split: list.splits)
    have c3: "g_slots s3 i = zero_conn\<lparr>fc_gen := fc_gen (g_slots s i) + 1, fc_slot := i\<rparr>"
      using acq Some m1 m2 by (auto simp: slot_acquire_def Let_def os_malloc_def split: if_splits list.splits)
    show ?thesis
    proof (cases "ok1 \<and> ok2")
      case False
      have "fc_client_fd (g_slots ?s4 i) = cf" "fc_target_fd (g_slots ?s4 i) = tf" by (simp_all add: init_conn_def)
      from unref_single [OF inv4 this fds(1,2)] ctl_log_closes [of "[]" _ cf tf] fds(3) fr4
      show ?thesis using some acq Some m1 m2 False by (auto simp: handoff_to_worker_def Let_def)
    next
      case True
      let ?s5 = "upd_conn i (ready_conn (o_now ?s4)) ?s4"
      have "eng_inv K ?s5 L [i]"
        by (rule eng_inv_same_ctl [OF inv4])
          (simp add: same_ctl_def ctl_view_def ready_conn_def init_conn_def c3 zero_conn_def)
      moreover have "ready_fields ?w i cf tf (o_now s) (g_slots ?s5 i)"
        using fds(3) fr4 True by (simp add: ready_fields_def live_on_def conn_wf_def ready_conn_def init_conn_def
            c3 zero_conn_def bytes_of_def BUFFER_SIZE_def)
      ultimately obtain L' l where "eng_inv K (handoff_admit ?w i cf tf ?s5) L' []"
        "o_log (handoff_admit ?w i cf tf ?s5) = o_log s @ l"
        "handed_over ?w cf tf s L (handoff_admit ?w i cf tf ?s5) L' l \<or> L' = L \<and> closed_once cf tf l"
        using handoff_admit_outcome [of K ?s5 L i ?w cf tf "o_now s" s] fr4 fds top by auto
      moreover have "handoff_to_worker cf tf s = Some (handoff_admit ?w i cf tf ?s5)"
        using some acq Some m1 m2 True by (simp add: handoff_to_worker_def Let_def)
      ultimately show ?thesis by blast
    qed
  qed
qed

section \<open>Frames of the ghost tracker and of finalizing\<close>

lemma stamp_purge_conns: "stamp_purge u s = (b, t) \<Longrightarrow> g_slots t = g_slots s"
  by (auto simp: stamp_purge_def Let_def split: option.splits if_splits)

lemma ghost_track_frame:
  "g_slots (ghost_stuck_track u now s) = g_slots s" (is ?slots)
  "g_slot_state (ghost_stuck_track u now s) = g_slot_state s \<and>
   conn_list_head (ghost_stuck_track u now s) = conn_list_head s \<and>
   g_conn_count (ghost_stuck_track u now s) = g_conn_count s" (is ?tables)
  "\<exists>l. o_log (ghost_stuck_track u now s) = o_log s @ l \<and> (\<forall>e \<in> set l. \<exists>ep f. e = CTL CTL_DEL ep f 0 0)" (is ?log)
proof -
  let ?s1 = "s\<lparr>g_stuck := (g_stuck s)(stuck_index u := stuck_bump u now (g_stuck s (stuck_index u)))\<rparr>"
  obtain b t where p: "stamp_purge u ?s1 = (b, t)" by force
  have t: "g_slots t = g_slots s"
    "\<exists>l. o_log t = o_log s @ l \<and> (\<forall>e \<in> set l. \<exists>ep f. e = CTL CTL_DEL ep f 0 0)"
    using stamp_purge_conns [OF p] stamp_purge_log [OF p] by (simp, fastforce)
  from t p show ?slots ?log
    by (auto simp: ghost_stuck_track_def Let_def split: bool.splits)
  show ?tables using ghost_track_ctl [of s u now] by (simp add: same_ctl_def)
qed

lemma conn_finalize_mark: "fc_finalized (g_slots (conn_finalize i s) i)"
proof -
  define s1 where "s1 = upd_conn i (\<lambda>c. c\<lparr>fc_finalized := True\<rparr>) s"
  define s2 where "s2 = (if fc_next (g_slots s1 i) \<noteq> None \<or> fc_prev (g_slots s1 i) \<noteq> None \<or>
       conn_list_head s1 (fc_widx (g_slots s1 i)) = Some i
     then list_remove_locked (fc_widx (g_slots s1 i)) i s1 else s1)"
  have "fc_finalized (g_slots s2 i)"
    using links_only_view [OF list_remove_links_only [of s1 "fc_widx (g_slots s1 i)" i]]
    by (simp add: s2_def s1_def)
  then show ?thesis
    unfolding conn_finalize_def Let_def s1_def [symmetric] s2_def [symmetric] close_both_form by simp
qed

lemma unref_live:
  assumes "fc_refs (g_slots s i) = 1" and "\<not> fc_finalized (g_slots s i)" and "fc_slot (g_slots s i) = i"
  shows "fc_finalized (g_slots (conn_unref i s) i) \<and> fc_client_fd (g_slots (conn_unref i s) i) < 0 \<and>
     \<not> g_slot_state (conn_unref i s) i \<and> o_log (conn_unref i s) = o_log s @ fin_log (g_slots s i)"
proof -
  define s1 where "s1 = upd_conn i (\<lambda>c. c\<lparr>fc_finalized := True\<rparr>) (upd_conn i (\<lambda>c. c\<lparr>fc_refs := 0\<rparr>) s)"
  define s2 where "s2 = (if fc_next (g_slots s1 i) \<noteq> None \<or> fc_prev (g_slots s1 i) \<noteq> None \<or>
       conn_list_head s1 (fc_widx (g_slots s1 i)) = Some i
     then list_remove_locked (fc_widx (g_slots s1 i)) i s1 else s1)"
  have s2: "fc_finalized (g_slots s2 i)" "fc_slot (g_slots s2 i) = i" "o_log s2 = o_log s" "fin_log (g_slots s2 i) = fin_log (g_slots s i)"
    using links_only_view [OF list_remove_links_only [of s1 "fc_widx (g_slots s1 i)" i]] assms(3)
    by (simp_all add: s2_def s1_def fin_log_def)
  have "conn_unref i s = conn_finalize i (upd_conn i (\<lambda>c. c\<lparr>fc_refs := 0\<rparr>) s)"
    using assms(1) by (simp add: conn_unref_def Let_def)
  moreover have "fin_log (c\<lparr>fc_magic := 0\<rparr>) = fin_log c" for c by (simp add: fin_log_def)
  ultimately show ?thesis using assms(2) s2
    unfolding conn_finalize_def Let_def s1_def [symmetric] s2_def [symmetric] close_both_form by simp
qed

section \<open>Properties\<close>

text \<open>The state a server start leaves: no connection, every slot free, \<open>n\<close> handshakes counted.\<close>

definition engine_start :: "int \<Rightarrow> tcp" where
  "engine_start n = (slots_init tcp_boot)\<lparr>g_conn_count := n\<rparr>"

lemma engine_start_inv: "eng_inv n (engine_start n) (\<lambda>_. []) []"
proof -
  have "tcp_pool.pool_inv (engine_start n)"
    using slots_init_inv [of tcp_boot]
    by (simp add: engine_start_def tcp_pool.pool_inv_def tcp_slots_wf_def tcp_free_def)
  then show ?thesis
    by (simp add: eng_inv_def conn_list_def engine_start_def active_count_def slots_init_def tcp_boot_def)
qed

text \<open>
  C2. A turn of a worker never loses, leaks or doubly owns a connection. Whatever events
  \<open>epoll_wait\<close> delivers (at most \<open>MAX_EVENTS\<close>, stale, forged or for other workers included),
  afterwards the slots in use are again exactly the connections on the workers' lists plus, when
  the turn was cut short by the shutdown event, those collected for release, each owned once; the
  connection count agrees with them; the other workers' lists are untouched; the collected
  connections fit the fixed array; a turn that runs to its end has released all it collected;
  and when the five-second scan ran, no connection that stays on the worker's list is past its idle timeout
  or its half-close grace period.
\<close>

theorem worker_turn_resources:
  assumes "eng_inv K s L []" and "length events \<le> MAX_EVENTS"
    and "worker_iteration w now events lc s = (ex, s', G, lc')"
  shows "\<exists>L'. eng_inv K s' L' (if ex then G else []) \<and> (\<forall>v. v \<noteq> w \<longrightarrow> L' v = L v) \<and> set (L' w) \<subseteq> set (L w) \<and>
     length G \<le> MAX_EVENTS \<and>
     (\<not> ex \<longrightarrow> (\<forall>i \<in> set G. released s' i) \<and>
        (now - lc \<ge> 5 \<longrightarrow> (\<forall>i \<in> set (L' w). \<not> scan_expired now (g_slots s' i))))"
  using worker_iteration_inv [OF assms] .

theorem worker_turn_resources_witness:
  "\<exists>s' L' G. worker_iteration 0 10 [(0xFFFF, 1)] 0 (engine_start 0) = (False, s', G, 10) \<and> eng_inv 0 s' L' []"
proof -
  obtain ex s' G lc' where it: "worker_iteration 0 10 [(0xFFFF, 1)] 0 (engine_start 0) = (ex, s', G, lc')"
    by (metis prod.exhaust)
  then have "\<not> ex \<and> lc' = 10"
    by (auto simp: worker_iteration_def split: prod.splits)
  then show ?thesis using worker_turn_resources [OF engine_start_inv _ it] it
    by (auto simp: MAX_EVENTS_def)
qed

text \<open>
  C14. A worker that leaves its loop releases everything it owns: every connection on its list and
  every one collected before the shutdown event, whatever their number (the list is drained in
  batches of \<open>MAX_EVENTS\<close>), leaving an empty list, the other workers' connections in place and a
  consistent connection count; later handoffs to it are refused. The garbage array may hold the
  connections collected in a turn cut short, or those a finished turn has already released,
  provided no handoff has taken their slots since.
\<close>

theorem worker_exit_releases_all:
  assumes "eng_inv K s L G \<or> eng_inv K s L [] \<and> (\<forall>i \<in> set G. released s i)"
  shows "eng_inv K (worker_exit w G s) (L(w := [])) [] \<and> conn_list_head (worker_exit w G s) w = None \<and>
         w_stopping (worker_exit w G s) w"
proof -
  have e: "eng_inv K (worker_exit w G s) (L(w := [])) [] \<and> w_stopping (worker_exit w G s) w"
    using assms worker_exit_inv [of K s L G w] worker_exit_stale [of K s L G w] by blast
  then have "conn_list (worker_exit w G s) w []"
    using eng_invD(2) [of K "worker_exit w G s" "L(w := [])" "[]" w] by simp
  then show ?thesis using e by (simp add: conn_list_def dl_rep_def)
qed

theorem worker_exit_releases_all_witness:
  "eng_inv 3 (worker_exit 1 [5] (engine_start 3)) (\<lambda>_. []) [] \<and> w_stopping (worker_exit 1 [5] (engine_start 3)) 1"
proof -
  have "released (engine_start 3) 5"
    by (simp add: released_def engine_start_def slots_init_def tcp_boot_def zero_conn_def CONN_SLOT_COUNT_def)
  then show ?thesis using worker_exit_releases_all [of 3 "engine_start 3" "\<lambda>_. []" "[5]" 1] engine_start_inv [of 3]
    by (simp add: fun_upd_idem)
qed

text \<open>
  C13. Handing an established pair of descriptors to a worker either succeeds, and then the
  connection is at the front of the worker's list, registered with the event loop on both
  descriptors under its slot and generation, with empty buffers; or it fails, at whichever point
  (no slot, no memory, worker stopping, either registration refused), and then both descriptors
  are closed exactly once, the Java side is told exactly once, and slot, list and connection
  count are as if the connection had never been.
\<close>

theorem handoff_all_or_nothing:
  assumes "eng_inv (K + 1) s L []" and "0 \<le> cf" "0 \<le> tf" "cf \<noteq> tf"
    and "0 \<le> sint (next_worker_idx s)"
  shows "\<exists>s' L' l. handoff_to_worker cf tf s = Some s' \<and> eng_inv K s' L' [] \<and> o_log s' = o_log s @ l \<and>
     (handed_over (nat (pick_worker (next_worker_idx s))) cf tf s L s' L' l \<or> L' = L \<and> closed_once cf tf l)"
  by (rule handoff_outcome [OF assms])

theorem handoff_all_or_nothing_witness:
  "\<exists>s' L'. handoff_to_worker 5 6 (engine_start 1) = Some s' \<and> eng_inv 0 s' L' []"
proof -
  have "next_worker_idx (engine_start 1) = 0" by (simp add: engine_start_def slots_init_def tcp_boot_def)
  then show ?thesis
    using handoff_all_or_nothing [of 0 "engine_start 1" "\<lambda>_. []" 5 6] engine_start_inv [of 1] by auto
qed

text \<open>
  C39. The round-robin counter is a C \<open>int\<close> that is never reset: as long as it is not negative it
  selects one of the \<open>WORKER_COUNT\<close> workers, but from the \<open>2 ^ 31\<close>-th handoff on, three of every four
  handoffs compute a negative index and leave the worker array.
\<close>

theorem pick_worker_range:
  fixes n :: u32
  shows "(unat n < 2 ^ 31 \<longrightarrow> pick_worker n = int (unat n mod WORKER_COUNT)) \<and>
   (unat n \<ge> 2 ^ 31 \<longrightarrow> (pick_worker n < 0 \<longleftrightarrow> unat n mod WORKER_COUNT \<noteq> 0))"
proof (cases "unat n < 2 ^ 31")
  case True
  then have "sint n = int (unat n)" using sint_u32_of_nat [of "unat n"] by simp
  then show ?thesis using True by (simp add: pick_worker_def c_rem_nonneg WORKER_COUNT_def zmod_int)
next
  case False
  then have "sint n = int (unat n) - 2 ^ 32" by (rule sint_u32_high [OF leI])
  moreover have "int (unat n) < 2 ^ 32" using uint_lt2p [of n] by simp
  ultimately have "pick_worker n = - ((2 ^ 32 - int (unat n)) mod 4)"
    by (simp add: pick_worker_def c_rem_neg WORKER_COUNT_def)
  moreover have "(2 ^ 32 - int (unat n)) mod 4 \<noteq> 0 \<longleftrightarrow> unat n mod 4 \<noteq> 0"
  proof -
    have "(4 :: int) dvd 2 ^ 32 - int (unat n) \<longleftrightarrow> 4 dvd int (unat n)" by (rule dvd_diff_right_iff) simp
    also have "\<dots> \<longleftrightarrow> 4 dvd unat n" by (metis int_dvd_int_iff of_nat_numeral)
    finally show ?thesis by (simp add: dvd_eq_mod_eq_0)
  qed
  moreover have "(2 ^ 32 - int (unat n)) mod 4 \<ge> 0" by simp
  ultimately show ?thesis using False unfolding WORKER_COUNT_def by linarith
qed

theorem pick_worker_range_witness: "pick_worker 6 = 2 \<and> pick_worker 0x80000001 < 0"
  using pick_worker_range [where n = 6] pick_worker_range [where n = "0x80000001"] by (simp add: WORKER_COUNT_def)

text \<open>
  C15. A late or forged event has no effect on any connection. The identifier that \<open>epoll_wait\<close> returns
  names a slot and a generation; when the slot number is outside the table, or the slot is not in
  use, or the generation is not the slot's current one, or the magic number is wrong, or the
  connection belongs to another worker, is closing or is not registered yet, then no connection
  field, slot, list or count changes, nothing is collected for release, and the only system calls
  are \<open>EPOLL_CTL_DEL\<close> of the ghost tracker. In particular an event registered for an earlier
  generation of a slot never reaches the connection that has the slot now.
\<close>

theorem stale_event_harmless:
  assumes "conn_event_decode raw = (sidx, egen, tgt)"
    and "let i = unat sidx; c = g_slots s i in
      sint sidx < 0 \<or> sint sidx \<ge> 1088 \<or> \<not> g_slot_state s i \<or> egen \<noteq> fc_gen c \<or> fc_magic c \<noteq> 0x5EEDF00D \<or>
      fc_widx c \<noteq> w \<or> fc_closed c \<or> \<not> fc_registered c"
    and "worker_event w now (raw, ev) (s, G) = (s', G')"
  shows "G' = G \<and> g_slots s' = g_slots s \<and> g_slot_state s' = g_slot_state s \<and>
     conn_list_head s' = conn_list_head s \<and> g_conn_count s' = g_conn_count s \<and>
     (\<exists>l. o_log s' = o_log s @ l \<and> (\<forall>e \<in> set l. \<exists>ep f. e = CTL CTL_DEL ep f 0 0))"
proof -
  define disp where "disp = (let c = g_slots s (unat sidx) in
     conn_event_check_slot egen (fc_gen c) (fc_magic c) (g_slot_state s (unat sidx))
       (fc_widx c) w (fc_closed c) (fc_registered c))"
  let ?track = "ghost_stuck_track (raw AND NOT CONN_EV_TARGET_FLAG) now s"
  have np: "conn_event_bad_slot (sint sidx) (int CONN_SLOT_COUNT) \<or> disp \<noteq> CONN_EV_PROCESS"
    using assms(2) by (auto simp: disp_def Let_def conn_check_process CONN_MAGIC_def conn_event_bad_slot_def CONN_SLOT_COUNT_def)
  have ev: "(s', G') = (if conn_event_bad_slot (sint sidx) (int CONN_SLOT_COUNT)
      then (s\<lparr>g_st_bad_slot := g_st_bad_slot s + 1\<rparr>, G)
      else case disp of
          CONN_EV_INACTIVE \<Rightarrow> (?track\<lparr>g_st_bad_slot := g_st_bad_slot ?track + 1\<rparr>, G)
        | CONN_EV_STALE \<Rightarrow> (?track\<lparr>g_st_stale_skip := g_st_stale_skip ?track + 1\<rparr>, G)
        | CONN_EV_WRONG_WORKER \<Rightarrow> (s, G)
        | CONN_EV_NOT_READY \<Rightarrow> (s, G)
        | CONN_EV_PROCESS \<Rightarrow> relay_event w (unat sidx) tgt ev now (s, G))"
    using assms(3) unfolding worker_event_def prod.case assms(1) Let_def disp_def by (rule sym)
  note tr = ghost_track_frame [of "raw AND NOT CONN_EV_TARGET_FLAG" now s]
  show ?thesis
  proof (cases "conn_event_bad_slot (sint sidx) (int CONN_SLOT_COUNT)")
    case True
    then show ?thesis using ev by simp
  next
    case False
    then show ?thesis using ev np tr by (cases disp) simp_all
  qed
qed

lemma one_live_connection: "\<exists>(s :: tcp) L i. eng_inv 0 s L [] \<and> i \<in> set (L 0)"
proof -
  obtain i s1 where acq: "slot_acquire (engine_start 1) = (Some i, s1)"
    by (simp add: slot_acquire_def Let_def engine_start_def slots_init_def CONN_SLOT_COUNT_def)
  have inv: "eng_inv (0 + 1) (engine_start 1) (\<lambda>_. []) []" using engine_start_inv [of 1] by simp
  let ?s = "upd_conn i (init_conn 0 5 6 True True) s1"
  have c: "g_slots s1 i = zero_conn\<lparr>fc_gen := fc_gen (g_slots (engine_start 1) i) + 1, fc_slot := i\<rparr>"
    using acq by (auto simp: slot_acquire_def Let_def split: if_splits)
  have "eng_inv 0 ?s (\<lambda>_. []) [i]"
    by (rule eng_inv_acquire [OF inv acq]) (simp add: c dying_def init_conn_def zero_conn_def)
  moreover have "live_on 0 i (g_slots ?s i)" by (simp add: c live_on_def init_conn_def zero_conn_def)
  ultimately have "eng_inv 0 (list_add_locked 0 i ?s) ((\<lambda>_. [])(0 := [i])) []" using eng_inv_link by fastforce
  then show ?thesis by (intro exI [of _ "list_add_locked 0 i ?s"] exI [of _ "(\<lambda>_. [])(0 := [i])"] exI [of _ i]) simp
qed

text \<open>At work: a late event of the generation before, for a slot whose connection is alive.\<close>

theorem stale_event_harmless_witness:
  "\<exists>(s :: tcp) i s'. live_on 0 i (g_slots s i) \<and> g_slot_state s i \<and>
     worker_event 0 0 (conn_ev_id (fc_gen (g_slots s i) - 1) i True, EPOLLHUP) (s, []) = (s', []) \<and> g_slots s' = g_slots s"
proof -
  obtain s :: tcp and L i where s: "eng_inv 0 s L []" "i \<in> set (L 0)" using one_live_connection by blast
  have i: "i < CONN_SLOT_COUNT" "g_slot_state s i" "live_on 0 i (g_slots s i)" using eng_invD(4-6) [OF s(1,2)] by simp_all
  let ?g = "fc_gen (g_slots s i) - 1"
  obtain s' G' where ev: "worker_event 0 0 (conn_ev_id ?g i True, EPOLLHUP) (s, []) = (s', G')" by force
  have d: "conn_event_decode (conn_ev_id ?g i True) = (of_nat i, ?g, True)"
    by (rule conn_decode_id) (use i(1) in \<open>simp add: CONN_SLOT_COUNT_def\<close>)
  have n: "unat (of_nat i :: u32) = i" using i(1) by (simp add: unat_of_nat CONN_SLOT_COUNT_def)
  show ?thesis using stale_event_harmless [OF d _ ev] ev i(2,3) n by auto
qed

text \<open>
  Finalizing is idempotent: the second call finds the mark and only counts the attempt, so
  descriptors are never closed twice and a slot is never pushed to the free stack twice.
\<close>

lemma conn_finalize_idempotent:
  "conn_finalize i (conn_finalize i s) =
     (conn_finalize i s)\<lparr>g_st_double_fin := g_st_double_fin (conn_finalize i s) + 1\<rparr>"
  using conn_finalize_mark [of i s] by (simp add: conn_finalize_def [of i "conn_finalize i s"])

section \<open>A half-close that cannot be consumed\<close>

lemma interest_masks:
  "conn_forward_interest False ceof teof c2t t2c = (c, t) \<Longrightarrow>
   has_ev (map_fwd_to_epoll c) EPOLLIN = (\<not> ceof \<and> \<not> c2t) \<and> has_ev (map_fwd_to_epoll c) EPOLLRDHUP = (\<not> ceof) \<and>
   has_ev (map_fwd_to_epoll c) EPOLLOUT = t2c \<and> has_ev (map_fwd_to_epoll t) EPOLLIN = (\<not> teof \<and> \<not> t2c) \<and>
   has_ev (map_fwd_to_epoll t) EPOLLRDHUP = (\<not> teof) \<and> has_ev (map_fwd_to_epoll t) EPOLLOUT = c2t"
  by (cases ceof; cases teof; cases c2t; cases t2c)
    (auto simp: conn_forward_interest_def map_fwd_to_epoll_def has_ev_def conn_fwd_bits epoll_defs)

text \<open>A connection with data for a target that takes none, and nothing to read from that target.\<close>

definition backlogged :: "full_conn \<Rightarrow> 'a tcp_scheme \<Rightarrow> bool" where
  "backlogged c s \<longleftrightarrow> fc_c2t_off c < fc_c2t_len c \<and> fc_t2c_len c = 0 \<and> \<not> fc_client_eof c \<and> fc_target_eof_since c = 0 \<and>
     0 \<le> fc_target_fd c \<and> o_send s (fc_target_fd c) = [] \<and> o_recv s (fc_target_fd c) = []"

lemma backlogged_event:
  assumes b: "backlogged (g_slots s i) s" and ev: "ev AND (EPOLLERR OR EPOLLHUP) = 0"
  shows "relay_io w i False ev now s = (False, upd_conn i (\<lambda>c. c\<lparr>fc_last_active := now\<rparr>) s)"
proof -
  let ?s = "upd_conn i (\<lambda>c. c\<lparr>fc_last_active := now\<rparr>) s" and ?c = "g_slots s i"
  have own: "upd_conn i (\<lambda>c. c\<lparr>fc_c2t_len := fc_c2t_len ?c, fc_c2t_off := fc_c2t_off ?c\<rparr>) ?s = ?s"
    by (simp add: upd_conn_def fun_upd_idem)
  have os: "os_send u (fc_target_fd ?c) d = ((-1, EAGAIN), u)" if "o_send u = o_send s" for u :: "'a tcp_scheme" and d
    using b that by (simp add: os_send_def backlogged_def)
  have st: "o_send ?s = o_send s" "o_recv ?s = o_recv s" by (simp_all add: upd_conn_def)
  have "send_c2t w i ?s = (0, ?s)"
    using b os [OF st(1)] own by (simp add: send_c2t_def try_send_def try_send_loop.simps backlogged_def account_upload_def Let_def)
  moreover have "os_recv ?s (fc_target_fd ?c) n = ((-1, [], EAGAIN), ?s)" for n using b st(2) by (simp add: os_recv_def backlogged_def)
  ultimately have "forward_data w i now ?s = (False, ?s)" using b
    by (simp add: forward_data_def flush_to_client_def flush_to_target_def read_from_client_def read_from_target_def Let_def backlogged_def)
  then show ?thesis using b ev by (simp add: relay_io_def Let_def drained_and_done_def backlogged_def)
qed

text \<open>
  C27. The client closes its side while data for the target is still buffered and the target takes none. The
  masks then arm the half-close event of the client (and nothing that would read it, for back-pressure),
  and the handler of that event consumes nothing: over any number of deliveries, at any times, its
  attempts to send and receive move no byte, it closes and registers nothing, keeps the masks and changes nothing but
  the time stamp, so the level-triggered event is ready again at once, and because the time stamp is
  fresh the scan never finds the connection idle. The worker turns without progress until the target takes data or one of the two
  connections fails.
\<close>

theorem fin_behind_backlog_spins:
  assumes c: "c = g_slots s i" and slot: "i < CONN_SLOT_COUNT" "g_slot_state s i" "live_on w i c" "fc_registered c"
    and b: "backlogged c s"
    and masks: "(fc_client_events c, fc_target_events c) =
      map_prod map_fwd_to_epoll map_fwd_to_epoll (conn_forward_interest False False False True False)"
    and ev: "ev = (conn_ev_id (fc_gen c) i False, EPOLLRDHUP)"
  shows "fc_client_events c AND EPOLLRDHUP \<noteq> 0 \<and> fc_client_events c AND EPOLLIN = 0 \<and>
    (\<forall>nows. let s' = upd_conn i (\<lambda>c. c\<lparr>fc_last_active := last (fc_last_active c # nows)\<rparr>) s in
       foldl (\<lambda>sg now. worker_event w now ev sg) (s, G) nows = (s', G) \<and>
       o_log s' = o_log s \<and> (nows \<noteq> [] \<longrightarrow> \<not> scan_expired (last nows) (g_slots s' i)))"
proof -
  have m: "fc_client_events c AND EPOLLRDHUP \<noteq> 0" "fc_client_events c AND EPOLLIN = 0"
    using masks interest_masks [of False False True False] by (auto simp: has_ev_def map_prod_def split: prod.splits)
  let ?t = "\<lambda>x. upd_conn i (\<lambda>c. c\<lparr>fc_last_active := x\<rparr>) s"
  have d: "conn_event_decode (fst ev) = (of_nat i, fc_gen c, False)"
    unfolding ev fst_conv by (rule conn_decode_id) (use slot(1) in \<open>simp add: CONN_SLOT_COUNT_def\<close>)
  have n: "unat (of_nat i :: u32) = i" "sint (of_nat i :: u32) = int i"
    using slot(1) sint_u32_of_nat [of i] by (simp_all add: unat_of_nat CONN_SLOT_COUNT_def)
  have one: "worker_event w now ev (?t x, G) = (?t now, G)" for x now
  proof -
    have bx: "backlogged (g_slots (?t x) i) (?t x)" using b unfolding c by (simp add: backlogged_def upd_conn_def)
    have "EPOLLRDHUP AND (EPOLLERR OR EPOLLHUP) = 0" by (simp add: epoll_defs)
    note io = backlogged_event [OF bx this, of w now]
    have same: "upd_conn i (\<lambda>c. c\<lparr>fc_last_active := now\<rparr>) (?t x) = ?t now" by (simp add: upd_conn_def)
    have "update_conn_events ep i (?t now) = ?t now" for ep
      using masks b unfolding c by (auto simp: update_conn_events_def backlogged_def Let_def map_prod_def split: prod.splits)
    then have "relay_event w i False EPOLLRDHUP now (?t x, G) = (?t now, G)" using io same by (simp add: relay_event_def)
    then show ?thesis using d n slot unfolding c
      by (simp add: ev worker_event_def Let_def conn_event_bad_slot_def conn_event_check_slot_def live_on_def CONN_SLOT_COUNT_def)
  qed
  have run: "foldl (\<lambda>sg now. worker_event w now ev sg) (?t x, G) nows = (?t (last (x # nows)), G)" for x nows
    by (induction nows arbitrary: x) (simp_all add: one)
  have "?t (fc_last_active c) = s" unfolding c by (simp add: upd_conn_def fun_upd_idem)
  with run [of "fc_last_active c"] have "foldl (\<lambda>sg now. worker_event w now ev sg) (s, G) nows = (?t (last (fc_last_active c # nows)), G)" for nows
    by simp
  moreover have "upd_conn i (\<lambda>c. c\<lparr>fc_last_active := last (fc_last_active c # nows)\<rparr>) s = ?t (last (fc_last_active c # nows))" for nows
    unfolding c by (simp add: upd_conn_def)
  moreover have "\<not> scan_expired (last nows) (g_slots (?t (last (fc_last_active c # nows))) i)" if "nows \<noteq> []" for nows
    using b that unfolding c by (simp add: scan_expired_def backlogged_def conn_forward_grace_expired_def IDLE_TIMEOUT_SEC_def)
  moreover have "o_log (?t x) = o_log s" for x by (simp add: upd_conn_def)
  ultimately show ?thesis using m by (simp add: Let_def)
qed

text \<open>One byte for a target that takes nothing, after the events were armed for it.\<close>

theorem fin_behind_backlog_spins_witness:
  "\<exists>(s :: tcp) c. c = g_slots s 3 \<and> backlogged c s \<and>
     foldl (\<lambda>sg now. worker_event 0 now (conn_ev_id (fc_gen c) 3 False, EPOLLRDHUP) sg) (s, []) [1, 2, 100000] =
       (upd_conn 3 (\<lambda>c. c\<lparr>fc_last_active := 100000\<rparr>) s, [])"
proof -
  define c where "c = zero_conn\<lparr>fc_magic := CONN_MAGIC, fc_client_fd := 5, fc_target_fd := 6, fc_c2t_buf := Some [65], fc_t2c_buf := Some [],
    fc_c2t_len := 1, fc_client_events := EPOLLRDHUP, fc_target_events := EPOLLRDHUP OR EPOLLIN OR EPOLLOUT, fc_refs := 1,
    fc_registered := True, fc_slot := 3, fc_gen := 1\<rparr>"
  define s where "s = (engine_start 1)\<lparr>g_slots := (g_slots (engine_start 1))(3 := c), g_slot_state := (g_slot_state (engine_start 1))(3 := True)\<rparr>"
  have s: "c = g_slots s 3" "3 < CONN_SLOT_COUNT" "g_slot_state s 3" "live_on 0 3 c" "fc_registered c" "backlogged c s"
    by (simp_all add: s_def c_def CONN_SLOT_COUNT_def live_on_def zero_conn_def backlogged_def engine_start_def slots_init_def tcp_boot_def)
  have m: "(fc_client_events c, fc_target_events c) =
      map_prod map_fwd_to_epoll map_fwd_to_epoll (conn_forward_interest False False False True False)"
    by (simp add: c_def conn_forward_interest_def map_fwd_to_epoll_def conn_fwd_bits epoll_defs)
  from fin_behind_backlog_spins [OF s m refl, of "[]"]
  have "foldl (\<lambda>sg now. worker_event 0 now (conn_ev_id (fc_gen c) 3 False, EPOLLRDHUP) sg) (s, []) [1, 2, 100000] =
       (upd_conn 3 (\<lambda>c. c\<lparr>fc_last_active := last (fc_last_active c # [1, 2, 100000])\<rparr>) s, [])"
    unfolding Let_def by blast
  then show ?thesis using s(1,6) by (intro exI [of _ s] exI [of _ c]) simp
qed

section \<open>A garbage array that is not emptied\<close>

text \<open>The slot released last is the one handed out next.\<close>

lemma acquire_reuses:
  assumes "eng_inv K s L (i # G)"
  shows "fst (slot_acquire (conn_unref i s)) = Some i"
proof -
  note d = eng_invD [OF assms]
  have i: "i < CONN_SLOT_COUNT" "g_slot_state s i" "dying i (g_slots s i)" using d(8-10) [of i] by auto
  have h: "conn_list_head s w \<noteq> Some i" for w
    using d(2) [of w] d(11) [of i w] by (metis conn_list_def dl_rep_head list.set_intros(1))
  have "length (tcp_free s) < CONN_SLOT_COUNT" by (rule tcp_pool.release_room [OF d(1) i(1,2)])
  then have "g_free_slot_top s < length (g_free_slots s)"
    using tcp_pool.pool_inv_wf [OF d(1)] by (simp add: tcp_free_def tcp_slots_wf_def)
  then show ?thesis
    using conn_unref_last [of s i, OF _ _ _ _ h] i(3) by (simp add: dying_def slot_acquire_def slot_release_def Let_def)
qed

text \<open>A turn with one fatal event.\<close>

lemma fatal_turn:
  assumes inv: "eng_inv K s L []" and i: "i \<in> set (L w)" and reg: "fc_registered (g_slots s i)"
    and raw: "raw = conn_ev_id (fc_gen (g_slots s i)) i t" "raw \<noteq> 0"
    and ev: "ev AND (EPOLLERR OR EPOLLHUP) \<noteq> 0" and now: "now - lc < 5"
  shows "\<exists>u. eng_inv K u (L(w := remove1 i (L w))) [i] \<and> worker_iteration w now [(raw, ev)] lc s = (False, conn_unref i u, [i], lc) \<and>
    o_malloc u = o_malloc s \<and> o_ctl u = o_ctl s \<and> w_stopping u = w_stopping s \<and> next_worker_idx u = next_worker_idx s"
proof -
  have c: "i < CONN_SLOT_COUNT" "g_slot_state s i" "live_on w i (g_slots s i)" using eng_invD(4-6) [OF inv i] by simp_all
  have d: "conn_event_decode raw = (of_nat i, fc_gen (g_slots s i), t)"
    unfolding raw(1) by (rule conn_decode_id) (use c(1) in \<open>simp add: CONN_SLOT_COUNT_def\<close>)
  have n: "unat (of_nat i :: u32) = i" "sint (of_nat i :: u32) = int i"
    using c(1) sint_u32_of_nat [of i] by (simp_all add: unat_of_nat CONN_SLOT_COUNT_def)
  let ?s0 = "upd_conn i (\<lambda>c. c\<lparr>fc_last_active := now\<rparr>) s"
  have io: "relay_io w i t ev now s = (True, ?s0)" using ev by (simp add: relay_io_def Let_def)
  have inv0: "eng_inv K ?s0 L []" by (rule eng_inv_same_ctl [OF inv relay_io_ctl [OF io]])
  let ?u = "list_remove_locked w i (upd_conn i (\<lambda>c. c\<lparr>fc_closed := True\<rparr>) ?s0)"
  have "worker_event w now (raw, ev) (s, []) = relay_event w i t ev now (s, [])"
    using c reg n by (simp add: worker_event_def d Let_def conn_event_bad_slot_def conn_event_check_slot_def live_on_def CONN_SLOT_COUNT_def)
  also have "\<dots> = (?u, [i])" using io c(3) by (simp add: relay_event_def live_on_def)
  finally have "worker_events w now [(raw, ev)] (s, []) = (False, ?u, [i])" using raw(2) by simp
  then have "worker_iteration w now [(raw, ev)] lc s = (False, conn_unref i ?u, [i], lc)" using now by (simp add: worker_iteration_def)
  moreover have "eng_inv K ?u (L(w := remove1 i (L w))) [i]" using eng_inv_retire [OF inv0 i] by simp
  moreover have "o_malloc ?u = o_malloc s \<and> o_ctl ?u = o_ctl s \<and> w_stopping ?u = w_stopping s \<and> next_worker_idx ?u = next_worker_idx s"
    by (simp add: list_remove_locked_def Let_def upd_conn_def split: option.split)
  ultimately show ?thesis by blast
qed

text \<open>
  C22. The garbage array is not emptied when a turn ends, so a worker that leaves its loop because
  the server stopped releases the array a second time. One interleaving in which this destroys a live
  connection: in one turn a worker releases a connection with a fatal event, and its slot is free;
  then a handoff takes that slot for a new connection of another worker and registers it (it did not
  close the descriptors it was given); then the running flag is cleared and the first worker leaves its
  loop with the garbage its turn left behind. The new connection is finalized, both its descriptors are
  closed and its slot is freed, by a worker it never belonged to.
\<close>

theorem stale_garbage_hits_new_owner:
  assumes inv: "eng_inv (K + 1) s L []" and i: "i \<in> set (L w)" "fc_registered (g_slots s i)"
    and raw: "raw = conn_ev_id (fc_gen (g_slots s i)) i t" "raw \<noteq> 0"
    and ev: "ev AND (EPOLLERR OR EPOLLHUP) \<noteq> 0" "now - lc < 5"
    and turn: "worker_iteration w now [(raw, ev)] lc s = (ex, s1, G, lc')"
    and v: "0 \<le> sint (next_worker_idx s1)" "v = nat (pick_worker (next_worker_idx s1))" "v \<noteq> w"
    and new: "0 \<le> cf" "0 \<le> tf" "cf \<noteq> tf" "handoff_to_worker cf tf s1 = Some s2"
      "CLOSE cf \<notin> set (drop (length (o_log s1)) (o_log s2))"
    and exit: "s3 = worker_exit w G (s2\<lparr>server_running := False\<rparr>)"
  shows "\<not> ex \<and> \<not> g_slot_state s1 i \<and>
    live_on v i (g_slots s2 i) \<and> fc_registered (g_slots s2 i) \<and> fc_client_fd (g_slots s2 i) = cf \<and> fc_target_fd (g_slots s2 i) = tf \<and>
    fc_finalized (g_slots s3 i) \<and> \<not> g_slot_state s3 i \<and>
    CLOSE cf \<in> set (drop (length (o_log s2)) (o_log s3)) \<and> CLOSE tf \<in> set (drop (length (o_log s2)) (o_log s3))"
proof -
  from fatal_turn [OF inv i raw ev] turn obtain u where
    u: "eng_inv (K + 1) u (L(w := remove1 i (L w))) [i]" "s1 = conn_unref i u" "G = [i]" "\<not> ex" by auto
  have inv1: "eng_inv (K + 1) s1 (L(w := remove1 i (L w))) []" using eng_inv_unref [OF u(1)] u(2) by simp
  have free: "\<not> g_slot_state s1 i" using eng_unref_step(4) [OF u(1)] u(2) by simp
  from handoff_outcome [OF inv1 new(1-3) v(1)] new(4) obtain L2 l where
    h: "eng_inv K s2 L2 []" "o_log s2 = o_log s1 @ l"
      "handed_over v cf tf s1 (L(w := remove1 i (L w))) s2 L2 l \<or> closed_once cf tf l" using v(2) by auto
  have "\<not> closed_once cf tf l" using new(5) h(2) by (metis append_eq_conv_conj closed_once_def count_list_0_iff zero_neq_one)
  then have ho: "L2 v = i # (L(w := remove1 i (L w))) v" "fc_registered (g_slots s2 i)" "fc_client_fd (g_slots s2 i) = cf" "fc_target_fd (g_slots s2 i) = tf"
    using h(3) acquire_reuses [OF u(1)] u(2) by (auto simp: handed_over_def)
  let ?s2 = "s2\<lparr>server_running := False\<rparr>" and ?d = "s2\<lparr>server_running := False, w_stopping := (w_stopping s2)(w := True)\<rparr>"
  have invd: "eng_inv K ?d L2 []" by (rule eng_inv_same_ctl [OF h(1)]) (simp add: same_ctl_def)
  let ?e = "drain_loop CONN_SLOT_COUNT w ?d"
  from drain_loop_inv [OF invd, of w CONN_SLOT_COUNT] eng_inv_list_bound [OF h(1), of w]
  have inve: "eng_inv K ?e (L2(w := [])) []" by (simp add: MAX_EVENTS_def CONN_SLOT_COUNT_def)
  have live: "live_on v i (g_slots s2 i)" "live_on v i (g_slots ?e i)"
    using eng_invD(6) [OF h(1), of i v] eng_invD(6) [OF inve, of i v] ho(1) v(3) by simp_all
  then have "fc_refs (g_slots ?e i) = 1" "\<not> fc_finalized (g_slots ?e i)" "fc_slot (g_slots ?e i) = i" by (simp_all add: live_on_def)
  note last = unref_live [OF this]
  have fds: "fc_client_fd (g_slots ?e i) = cf" "fc_target_fd (g_slots ?e i) = tf"
    using drain_others [OF invd, of i v w CONN_SLOT_COUNT] ho v(3) by simp_all
  have "o_log ?e = o_log s2 @ drop (length (o_log s2)) (o_log ?e)" using grew_drop [OF grew_drain_loop [of ?d CONN_SLOT_COUNT w]] by simp
  moreover have "s3 = os_close (w_epoll_fd (conn_unref i ?e) w) (conn_unref i ?e)"
    unfolding exit u(3) by (simp add: worker_exit_def Let_def)
  ultimately have "\<exists>m. o_log s3 = o_log s2 @ m @ fin_log (g_slots ?e i) @ [CLOSE (w_epoll_fd (conn_unref i ?e) w)]"
    "fc_finalized (g_slots s3 i)" "\<not> g_slot_state s3 i"
    using last by (auto simp: os_close_def log_ev_def intro!: exI [of _ "drop (length (o_log s2)) (o_log ?e)"])
  then show ?thesis using u(4) free live(1) ho fds new(1,2) by (auto simp: fin_log_def)
qed

lemma unref_keeps:
  "o_malloc (conn_unref i s) = o_malloc s" "o_ctl (conn_unref i s) = o_ctl s" "w_stopping (conn_unref i s) = w_stopping s"
  "next_worker_idx (conn_unref i s) = next_worker_idx s"
  by (simp_all add: conn_unref_def conn_finalize_def Let_def close_both_form list_remove_locked_def slot_release_def upd_conn_def split: option.split)

lemma pick_worker_small: "unat n < WORKER_COUNT \<Longrightarrow> pick_worker n = int (unat n)"
proof -
  assume n: "unat n < WORKER_COUNT"
  then have "sint n = int (unat n)" using sint_u32_of_nat [of "unat n"] by (simp add: WORKER_COUNT_def)
  moreover have "c_rem (int k) (int WORKER_COUNT) = int k" if "k < WORKER_COUNT" for k
    using that by (simp add: WORKER_COUNT_def c_rem_nonneg)
  note this [OF n]
  ultimately show ?thesis by (simp only: pick_worker_def)
qed

text \<open>A handoff that the kernel, the allocator and the worker grant.\<close>

lemma handoff_granted:
  assumes "fst (slot_acquire s) \<noteq> None" and "o_malloc s = []" and "o_ctl s = []" and "\<not> w_stopping s w"
    and "0 \<le> sint (next_worker_idx s)" and "w = nat (pick_worker (next_worker_idx s))"
  shows "\<exists>t. handoff_to_worker cf tf s = Some t \<and> CLOSE cf \<notin> set (drop (length (o_log s)) (o_log t)) \<and>
    o_malloc t = [] \<and> o_ctl t = [] \<and> w_stopping t = w_stopping s \<and> next_worker_idx t = next_worker_idx s + 1"
proof -
  let ?s0 = "s\<lparr>next_worker_idx := next_worker_idx s + 1\<rparr>"
  obtain i s1 where acq: "slot_acquire ?s0 = (Some i, s1)" using assms(1) by (auto simp: slot_acquire_def Let_def split: if_splits)
  have 1: "o_malloc s1 = []" "o_ctl s1 = []" "w_stopping s1 = w_stopping s" "o_log s1 = o_log s" "next_worker_idx s1 = next_worker_idx s + 1"
    using acq assms(2,3) by (auto simp: slot_acquire_def Let_def split: if_splits)
  have m: "os_malloc s1 = (True, s1)" using 1(1) by (simp add: os_malloc_def)
  define s5 where "s5 = upd_conn i (ready_conn (o_now (upd_conn i (init_conn w cf tf True True) s1))) (upd_conn i (init_conn w cf tf True True) s1)"
  have 5: "o_malloc s5 = []" "o_ctl s5 = []" "w_stopping s5 = w_stopping s" "o_log s5 = o_log s" "next_worker_idx s5 = next_worker_idx s + 1"
    using 1 by (simp_all add: s5_def upd_conn_def)
  define a where "a = list_add_locked w i s5"
  have a: "o_malloc a = []" "o_ctl a = []" "w_stopping a = w_stopping s" "o_log a = o_log s" "next_worker_idx a = next_worker_idx s + 1"
    using 5 by (simp_all add: a_def list_add_locked_def Let_def upd_conn_def split: option.split)
  obtain r where reg: "register_conn (w_epoll_fd s5 w) i cf tf a = (True, r)" and
    r: "o_malloc r = []" "o_ctl r = []" "w_stopping r = w_stopping s" "next_worker_idx r = next_worker_idx s + 1"
      "CLOSE cf \<notin> set (drop (length (o_log s)) (o_log r))"
    using a by (simp add: register_conn_def os_epoll_ctl_def log_ev_def Let_def)
  have "handoff_to_worker cf tf s = Some (handoff_admit w i cf tf s5)"
    using acq m 1(1) assms(5,6) c_rem_nonneg [of "sint (next_worker_idx s)" "int WORKER_COUNT"]
    by (simp add: handoff_to_worker_def Let_def s5_def pick_worker_def WORKER_COUNT_def)
  moreover have "handoff_admit w i cf tf s5 = upd_conn i (\<lambda>c. c\<lparr>fc_registered := True\<rparr>)
      (ghost_stamp_record (fc_ep_u64 (g_slots r i)) cf tf w r)"
    using reg assms(4) 5(3) by (simp add: handoff_admit_def a_def)
  ultimately show ?thesis using r by (simp add: upd_conn_def ghost_stamp_record_def Let_def)
qed

theorem stale_garbage_hits_new_owner_witness:
  "\<exists>(s :: tcp) i s1 G s2. eng_inv 1 s ((\<lambda>_. [])(0 := [i])) [] \<and>
     worker_iteration 0 0 [(conn_ev_id (fc_gen (g_slots s i)) i True, EPOLLHUP)] 0 s = (False, s1, G, 0) \<and>
     handoff_to_worker 7 8 s1 = Some s2 \<and> live_on 1 i (g_slots s2 i) \<and>
     fc_finalized (g_slots (worker_exit 0 G (s2\<lparr>server_running := False\<rparr>)) i)"
proof -
  let ?e = "engine_start 2"
  have e: "eng_inv (1 + 1) ?e (\<lambda>_. []) []" "fst (slot_acquire ?e) \<noteq> None" "o_malloc ?e = []" "o_ctl ?e = []"
    "\<not> w_stopping ?e 0" "\<not> w_stopping ?e 1" "next_worker_idx ?e = 0"
    using engine_start_inv [of 2] by (simp_all add: engine_start_def slots_init_def tcp_boot_def slot_acquire_def Let_def CONN_SLOT_COUNT_def)
  have pick: "nat (pick_worker 0) = 0" "nat (pick_worker 1) = 1"
    using pick_worker_small [of 0] pick_worker_small [of 1] by (simp_all add: WORKER_COUNT_def)
  from handoff_granted [of ?e 0 5 6] e pick obtain s where
    s: "handoff_to_worker 5 6 ?e = Some s" "CLOSE 5 \<notin> set (drop (length (o_log ?e)) (o_log s))" "o_malloc s = []" "o_ctl s = []"
      "w_stopping s = w_stopping ?e" "next_worker_idx s = 1" by auto
  from handoff_outcome [OF e(1), of 5 6] s(1) e(7) pick obtain L l where
    h: "eng_inv 1 s L []" "o_log s = o_log ?e @ l" "handed_over 0 5 6 ?e (\<lambda>_. []) s L l \<or> closed_once 5 6 l" by auto
  have "\<not> closed_once 5 6 l" using s(2) h(2) by (metis append_eq_conv_conj closed_once_def count_list_0_iff zero_neq_one)
  then obtain i where i: "L = (\<lambda>_. [])(0 := [i])" "fc_registered (g_slots s i)" using h(3) by (auto simp: handed_over_def)
  let ?raw = "conn_ev_id (fc_gen (g_slots s i)) i True"
  have raw: "?raw \<noteq> 0" using bit_target_flag [of 31] by (metis bit_0_eq bit_or_iff bot_apply bot_bool_def conn_ev_id_def)
  have hup: "EPOLLHUP AND (EPOLLERR OR EPOLLHUP) \<noteq> 0" by (simp add: epoll_defs)
  have il: "i \<in> set (L 0)" using i(1) by simp
  from fatal_turn [OF h(1) il i(2) refl raw hup, of 0 0] obtain u where
    u: "eng_inv 1 u (L(0 := remove1 i (L 0))) [i]" "worker_iteration 0 0 [(?raw, EPOLLHUP)] 0 s = (False, conn_unref i u, [i], 0)"
      "o_malloc u = []" "o_ctl u = []" "w_stopping u = w_stopping ?e" "next_worker_idx u = 1" using s by auto
  let ?s1 = "conn_unref i u"
  have n: "fst (slot_acquire ?s1) \<noteq> None" using acquire_reuses [OF u(1)] by simp
  have r: "o_malloc ?s1 = []" "o_ctl ?s1 = []" "w_stopping ?s1 = w_stopping ?e" "next_worker_idx ?s1 = 1"
    using unref_keeps [of i u] u(3-6) by simp_all
  from handoff_granted [OF n r(1,2), of 1 7 8] r(3,4) e(6) pick obtain s2 where
    s2: "handoff_to_worker 7 8 ?s1 = Some s2" "CLOSE 7 \<notin> set (drop (length (o_log ?s1)) (o_log s2))" by auto
  have h1: "eng_inv (0 + 1) s L []" using h(1) by simp
  have "live_on 1 i (g_slots s2 i) \<and> fc_finalized (g_slots (worker_exit 0 [i] (s2\<lparr>server_running := False\<rparr>)) i)"
    using stale_garbage_hits_new_owner [OF h1 il i(2) refl raw hup _ u(2) _ _ _ _ _ _ s2 refl, of 1] r(4) pick by simp
  then show ?thesis using h(1) i(1) u(2) s2(1) by blast
qed

end
