(* ===== verification/Ring_Queue.thy ===== *)
theory Ring_Queue
  imports Prelude
begin

text \<open>
  Bounded first-in first-out queues over a ring of slots, the shape of the handshake queue and of
  the DNS request queue. \<open>ring_list\<close> reads the queue off the ring; the locale states what a
  client relies on and derives the first-in first-out law for whole runs. \<open>Job_Pool\<close> and
  \<open>Udp_Resolve\<close> interpret it.
\<close>

section \<open>Reading a ring\<close>

definition ring_list :: "'a list \<Rightarrow> nat \<Rightarrow> nat \<Rightarrow> 'a list" where
  "ring_list buf head n = map (\<lambda>k. buf ! ((head + k) mod length buf)) [0..<n]"

definition ring_wf :: "nat \<Rightarrow> 'a list \<Rightarrow> nat \<Rightarrow> nat \<Rightarrow> nat \<Rightarrow> bool" where
  "ring_wf cap buf head tail n \<longleftrightarrow>
     0 < cap \<and> length buf = cap \<and> head < cap \<and> n \<le> cap \<and> tail = (head + n) mod cap"

lemma length_ring_list [simp]: "length (ring_list buf head n) = n"
  by (simp add: ring_list_def)

lemma ring_index_inj:
  fixes h j k m :: nat
  assumes "j < m" and "k < m" and "(h + j) mod m = (h + k) mod m"
  shows "j = k"
proof -
  have le: "j = k" if "j \<le> k" "k < m" "(h + j) mod m = (h + k) mod m" for j k
  proof -
    have "m dvd (h + k) - (h + j)" 
      using mod_eq_dvd_iff_nat [of "h + j" "h + k" m] that(1,3) by (metis add_le_mono1 add.commute)
    then have "m dvd k - j" by simp
    then show ?thesis using that(1,2) by (auto dest: dvd_imp_le)
  qed
  show ?thesis using le [of j k] le [of k j] assms by (cases "j \<le> k") auto
qed

lemma ring_put:
  assumes "ring_wf cap buf head tail n" and "n < cap"
  shows "ring_wf cap (buf[tail := x]) head ((tail + 1) mod cap) (Suc n)"
    and "ring_list (buf[tail := x]) head (Suc n) = ring_list buf head n @ [x]"
proof -
  have w: "length buf = cap" "head < cap" "tail = (head + n) mod cap" "0 < cap"
    using assms(1) by (auto simp: ring_wf_def)
  show "ring_wf cap (buf[tail := x]) head ((tail + 1) mod cap) (Suc n)"
    using w assms(2) by (simp add: ring_wf_def mod_Suc_eq)
  have "(head + k) mod cap \<noteq> tail" if "k < n" for k
    using ring_index_inj [of k cap n head] that assms(2) w(3) by auto
  then have "buf[tail := x] ! ((head + k) mod cap) = buf ! ((head + k) mod cap)" if "k < n" for k
    using that by (metis nth_list_update_neq)
  then have "ring_list (buf[tail := x]) head n = ring_list buf head n"
    using w(1) by (simp add: ring_list_def)
  moreover have "buf[tail := x] ! ((head + n) mod cap) = x" using w by simp
  ultimately show "ring_list (buf[tail := x]) head (Suc n) = ring_list buf head n @ [x]"
    using w by (simp add: ring_list_def)
qed

lemma ring_get:
  assumes "ring_wf cap buf head tail (Suc n)"
  shows "ring_wf cap buf ((head + 1) mod cap) tail n"
    and "ring_list buf head (Suc n) = buf ! head # ring_list buf ((head + 1) mod cap) n"
proof -
  have w: "length buf = cap" "head < cap" "tail = (head + Suc n) mod cap" "0 < cap" "Suc n \<le> cap"
    using assms by (auto simp: ring_wf_def)
  show "ring_wf cap buf ((head + 1) mod cap) tail n"
    using w by (simp add: ring_wf_def mod_add_left_eq)
  have "((head + 1) mod cap + k) mod cap = (head + Suc k) mod cap" for k
    by (simp add: mod_add_left_eq)
  then have "ring_list buf ((head + 1) mod cap) n = map (\<lambda>k. buf ! ((head + k) mod cap)) [1..<Suc n]"
    using w(1) by (simp add: ring_list_def map_Suc_upt [symmetric] o_def del: upt_Suc)
  moreover have "[0..<Suc n] = 0 # [1..<Suc n]" by (simp add: upt_conv_Cons)
  ultimately show "ring_list buf head (Suc n) = buf ! head # ring_list buf ((head + 1) mod cap) n"
    using w by (simp add: ring_list_def del: upt_Suc)
qed

section \<open>The interface\<close>

datatype 'a qop = Put 'a | Get

locale fifo =
  fixes cap :: "'s \<Rightarrow> nat"
    and wf :: "'s \<Rightarrow> bool"
    and elems :: "'s \<Rightarrow> 'a list"
    and open_q :: "'s \<Rightarrow> bool"
    and put :: "'a \<Rightarrow> 's \<Rightarrow> bool \<times> 's"
    and get :: "'s \<Rightarrow> 'a option \<times> 's"
  assumes bounded: "wf s \<Longrightarrow> length (elems s) \<le> cap s"
    and put_ok: "wf s \<Longrightarrow> open_q s \<Longrightarrow> length (elems s) < cap s \<Longrightarrow>
      \<exists>s'. put x s = (True, s') \<and> wf s' \<and> elems s' = elems s @ [x] \<and> cap s' = cap s \<and> open_q s'"
    and put_full: "wf s \<Longrightarrow> \<not> open_q s \<or> length (elems s) = cap s \<Longrightarrow> put x s = (False, s)"
    and get_empty: "wf s \<Longrightarrow> elems s = [] \<Longrightarrow> get s = (None, s)"
    and get_first: "wf s \<Longrightarrow> elems s = x # xs \<Longrightarrow>
      \<exists>s'. get s = (Some x, s') \<and> wf s' \<and> elems s' = xs \<and> cap s' = cap s \<and> open_q s' = open_q s"
begin

text \<open>A run of operations, with what was accepted and what was handed out.\<close>

fun run :: "'a qop list \<Rightarrow> 's \<Rightarrow> 'a list \<times> 'a list \<times> 's" where
  "run [] s = ([], [], s)"
| "run (Put x # ops) s =
     (case put x s of (ok, s') \<Rightarrow> case run ops s' of (a, d, t) \<Rightarrow> ((if ok then x # a else a), d, t))"
| "run (Get # ops) s =
     (case get s of (r, s') \<Rightarrow> case run ops s' of (a, d, t) \<Rightarrow>
        (a, (case r of None \<Rightarrow> d | Some x \<Rightarrow> x # d), t))"

lemma put_step:
  assumes "wf s" and "put x s = (ok, s')"
  shows "wf s' \<and> elems s' = elems s @ (if ok then [x] else [])"
proof (cases "open_q s \<and> length (elems s) < cap s")
  case True
  with put_ok [OF assms(1), of x] assms(2) show ?thesis by auto
next
  case False
  with bounded [OF assms(1)] have "\<not> open_q s \<or> length (elems s) = cap s" by auto
  with put_full [OF assms(1)] assms show ?thesis by auto
qed

lemma get_step:
  assumes "wf s" and "get s = (r, s')"
  shows "wf s' \<and> elems s = (case r of None \<Rightarrow> [] | Some x \<Rightarrow> [x]) @ elems s'"
  using assms get_empty [OF assms(1)] get_first [OF assms(1)] by (cases "elems s") fastforce+

text \<open>Nothing is lost, duplicated or reordered.\<close>

theorem fifo_run:
  assumes "wf s" and "run ops s = (acc, out, t)"
  shows "wf t \<and> elems s @ acc = out @ elems t"
  using assms
proof (induction ops arbitrary: s acc out)
  case (Cons op ops)
  show ?case
  proof (cases op)
    case (Put x)
    obtain ok s1 where p: "put x s = (ok, s1)" by force
    obtain a d t' where r: "run ops s1 = (a, d, t')" by (metis prod.exhaust)
    from put_step [OF Cons.prems(1) p] Cons.IH [of s1 a d] r Cons.prems(2) Put p show ?thesis
      by (auto split: if_splits)
  next
    case Get
    obtain r s1 where g: "get s = (r, s1)" by force
    obtain a d t' where rr: "run ops s1 = (a, d, t')" by (metis prod.exhaust)
    from get_step [OF Cons.prems(1) g] Cons.IH [of s1 a d] rr Cons.prems(2) Get g show ?thesis
      by (auto split: option.splits)
  qed
qed auto

end

end
