(* ===== verification/Job_Pool.thy ===== *)
theory Job_Pool
  imports Ring_Queue
begin

text \<open>
  The handshake pool of \<open>simple-socks5.c\<close>: a bounded ring of accepted descriptors between the
  listener and the handshake threads. Each function body under the pool's mutex is one step;
  waiting on the condition is the \<open>None\<close> result of \<open>job_pool_take\<close> while the pool is open, and the
  end of the thread when it is stopped and empty.
\<close>

definition HANDSHAKE_POOL_SIZE :: nat where "HANDSHAKE_POOL_SIZE = 192"
definition HANDSHAKE_QUEUE_SIZE :: nat where "HANDSHAKE_QUEUE_SIZE = 1024"

record pool_job =
  pj_fd :: fd
  pj_cmd :: int

record job_pool =
  jp_jobs :: "pool_job list"
  jp_cap :: nat
  jp_head :: nat
  jp_tail :: nat
  jp_count :: nat
  jp_stop :: bool
  jp_nthreads :: nat

definition job_pool_init :: "nat \<Rightarrow> nat \<Rightarrow> job_pool" where
  "job_pool_init nthreads cap =
     \<lparr>jp_jobs = replicate cap \<lparr>pj_fd = 0, pj_cmd = 0\<rparr>, jp_cap = cap, jp_head = 0, jp_tail = 0,
      jp_count = 0, jp_stop = False, jp_nthreads = nthreads\<rparr>"

definition job_pool_enqueue :: "pool_job \<Rightarrow> job_pool \<Rightarrow> bool \<times> job_pool" where
  "job_pool_enqueue j p =
     (if jp_stop p \<or> jp_count p \<ge> jp_cap p then (False, p)
      else (True, p\<lparr>jp_jobs := (jp_jobs p)[jp_tail p := j],
                    jp_tail := (jp_tail p + 1) mod jp_cap p,
                    jp_count := jp_count p + 1\<rparr>))"

text \<open>One pass of \<open>job_pool_worker\<close> through its critical section.\<close>

definition job_pool_take :: "job_pool \<Rightarrow> pool_job option \<times> job_pool" where
  "job_pool_take p =
     (if jp_count p = 0 then (None, p)
      else (Some (jp_jobs p ! jp_head p),
            p\<lparr>jp_head := (jp_head p + 1) mod jp_cap p, jp_count := jp_count p - 1\<rparr>))"

definition job_pool_exits :: "job_pool \<Rightarrow> bool" where
  "job_pool_exits p \<longleftrightarrow> jp_count p = 0 \<and> jp_stop p"

definition job_pool_shutdown :: "job_pool \<Rightarrow> job_pool" where
  "job_pool_shutdown p = p\<lparr>jp_stop := True\<rparr>"

definition pool_wf :: "job_pool \<Rightarrow> bool" where
  "pool_wf p \<longleftrightarrow> ring_wf (jp_cap p) (jp_jobs p) (jp_head p) (jp_tail p) (jp_count p)"

definition pool_queue :: "job_pool \<Rightarrow> pool_job list" where
  "pool_queue p = ring_list (jp_jobs p) (jp_head p) (jp_count p)"

interpretation jobs: fifo jp_cap pool_wf pool_queue "\<lambda>p. \<not> jp_stop p" job_pool_enqueue job_pool_take
proof (unfold_locales, goal_cases)
  case (1 s)
  then show ?case by (simp add: pool_wf_def pool_queue_def ring_wf_def)
next
  case (2 s x)
  then have "ring_wf (jp_cap s) (jp_jobs s) (jp_head s) (jp_tail s) (jp_count s)" "jp_count s < jp_cap s"
    by (simp_all add: pool_wf_def pool_queue_def)
  from ring_put [OF this, of x] 2 show ?case
    by (simp add: job_pool_enqueue_def pool_wf_def pool_queue_def)
next
  case (3 s x)
  then show ?case by (auto simp: job_pool_enqueue_def pool_queue_def)
next
  case (4 s)
  then show ?case by (simp add: job_pool_take_def pool_queue_def flip: length_0_conv)
next
  case (5 s x xs)
  then obtain n where n: "jp_count s = Suc n"
    by (cases "jp_count s") (auto simp: pool_queue_def ring_list_def)
  with 5 ring_get [of "jp_cap s" "jp_jobs s" "jp_head s" "jp_tail s" n] show ?case
    by (simp add: job_pool_take_def pool_wf_def pool_queue_def)
qed

lemma job_pool_init_wf: "0 < cap \<Longrightarrow> pool_wf (job_pool_init n cap)"
  by (simp add: pool_wf_def job_pool_init_def ring_wf_def)

lemma job_pool_init_empty [simp]: "pool_queue (job_pool_init n cap) = []"
  by (simp add: pool_queue_def job_pool_init_def ring_list_def)

section \<open>Runs of the pool\<close>

text \<open>
  What the listener, the handshake threads and the stop do to the pool, and what each of them sees.
  A thread that passes through its critical section gets a job, waits for one, or leaves its loop.
\<close>

datatype pool_op = Submit pool_job | Serve | Stop

datatype pool_out = Taken bool | Handed pool_job | Waits | Exits | Done

fun pool_step :: "pool_op \<Rightarrow> job_pool \<Rightarrow> pool_out \<times> job_pool" where
  "pool_step (Submit j) p = (case job_pool_enqueue j p of (ok, p') \<Rightarrow> (Taken ok, p'))"
| "pool_step Serve p =
     (if job_pool_exits p then (Exits, p)
      else case job_pool_take p of
        (None, p') \<Rightarrow> (Waits, p')
      | (Some j, p') \<Rightarrow> (Handed j, p'))"
| "pool_step Stop p = (Done, job_pool_shutdown p)"

fun pool_run :: "pool_op list \<Rightarrow> job_pool \<Rightarrow> pool_out list \<times> job_pool" where
  "pool_run [] p = ([], p)"
| "pool_run (x # xs) p =
     (case pool_step x p of (r, p') \<Rightarrow> case pool_run xs p' of (rs, t) \<Rightarrow> (r # rs, t))"

text \<open>
  The specification: a list and a flag. A submission is taken exactly while the flag is off and the
  list is shorter than \<open>cap\<close>; threads get the front of the list, wait while it is empty, and leave once
  it is empty and the flag is on.
\<close>

fun queue_step :: "nat \<Rightarrow> pool_op \<Rightarrow> pool_job list \<times> bool \<Rightarrow> pool_out \<times> pool_job list \<times> bool" where
  "queue_step cap (Submit j) (q, stop) =
     (if \<not> stop \<and> length q < cap then (Taken True, q @ [j], stop) else (Taken False, q, stop))"
| "queue_step cap Serve ([], stop) = ((if stop then Exits else Waits), [], stop)"
| "queue_step cap Serve (j # q, stop) = (Handed j, q, stop)"
| "queue_step cap Stop (q, stop) = (Done, q, True)"

fun queue_run :: "nat \<Rightarrow> pool_op list \<Rightarrow> pool_job list \<times> bool \<Rightarrow> pool_out list \<times> pool_job list \<times> bool" where
  "queue_run cap [] t = ([], t)"
| "queue_run cap (x # xs) t =
     (case queue_step cap x t of (r, t') \<Rightarrow> case queue_run cap xs t' of (rs, u) \<Rightarrow> (r # rs, u))"

definition pool_abs :: "job_pool \<Rightarrow> pool_job list \<times> bool" where
  "pool_abs p = (pool_queue p, jp_stop p)"

lemma pool_step_refines:
  assumes wf: "pool_wf p" and st: "pool_step x p = (r, p')"
  shows "pool_wf p' \<and> jp_cap p' = jp_cap p \<and> queue_step (jp_cap p) x (pool_abs p) = (r, pool_abs p')"
proof (cases x)
  case (Submit j)
  show ?thesis
  proof (cases "\<not> jp_stop p \<and> length (pool_queue p) < jp_cap p")
    case True
    with jobs.put_ok [OF wf, of j] Submit st show ?thesis by (auto simp: pool_abs_def)
  next
    case False
    then have "\<not> \<not> jp_stop p \<or> length (pool_queue p) = jp_cap p" using jobs.bounded [OF wf] by auto
    with jobs.put_full [OF wf, of j] False Submit st wf show ?thesis by (auto simp: pool_abs_def)
  qed
next
  case Serve
  have n: "jp_count p = length (pool_queue p)" by (simp add: pool_queue_def)
  show ?thesis
  proof (cases "pool_queue p")
    case Nil
    with jobs.get_empty [OF wf] Serve st wf n show ?thesis by (auto simp: pool_abs_def job_pool_exits_def split: if_splits)
  next
    case (Cons j q)
    with jobs.get_first [OF wf Cons] Serve st n show ?thesis by (auto simp: pool_abs_def job_pool_exits_def)
  qed
next
  case Stop
  then have "p' = p\<lparr>jp_stop := True\<rparr>" "r = Done" using st by (simp_all add: job_pool_shutdown_def)
  then show ?thesis using wf Stop by (simp add: pool_abs_def pool_wf_def pool_queue_def)
qed

lemma pool_run_refines:
  assumes "pool_wf p" and "pool_run xs p = (rs, t)"
  shows "pool_wf t \<and> jp_cap t = jp_cap p \<and> queue_run (jp_cap p) xs (pool_abs p) = (rs, pool_abs t)"
  using assms
proof (induction xs arbitrary: p rs)
  case (Cons x xs)
  obtain r p1 where s: "pool_step x p = (r, p1)" by force
  obtain rs1 t1 where u: "pool_run xs p1 = (rs1, t1)" by force
  from pool_step_refines [OF Cons.prems(1) s] Cons.IH [of p1 rs1] Cons.prems(2) s u show ?case by auto
qed simp

text \<open>
  C20. The handshake queue is a bounded first-in first-out queue that can be stopped. For every
  interleaving of submissions, passes of the threads and stops from a fresh pool, every answer and the
  queue left behind are those of a plain list with a flag: a submission is refused exactly when the pool
  is stopped or holds \<open>cap\<close> descriptors, so never while there is room; threads are handed the accepted
  descriptors in order of acceptance, each once, also after a stop; a thread waits only on an empty
  open pool and leaves only on an empty stopped one.
\<close>

theorem handshake_queue_fifo:
  assumes "0 < cap" and "pool_run ops (job_pool_init n cap) = (outs, p)"
  shows "queue_run cap ops ([], False) = (outs, pool_queue p, jp_stop p) \<and> length (pool_queue p) \<le> cap"
proof -
  let ?p = "job_pool_init n cap"
  have "jp_cap ?p = cap" "pool_abs ?p = ([], False)" by (simp_all add: pool_abs_def) (simp_all add: job_pool_init_def)
  then show ?thesis using pool_run_refines [OF job_pool_init_wf [OF assms(1)] assms(2)] jobs.bounded [of p]
    by (simp add: pool_abs_def)
qed

theorem handshake_queue_fifo_witness:
  "\<exists>p. pool_run [Submit \<lparr>pj_fd = 4, pj_cmd = 0\<rparr>, Submit \<lparr>pj_fd = 5, pj_cmd = 0\<rparr>, Submit \<lparr>pj_fd = 6, pj_cmd = 0\<rparr>, Serve,
        Stop, Submit \<lparr>pj_fd = 7, pj_cmd = 0\<rparr>, Serve, Serve] (job_pool_init 1 2) =
     ([Taken True, Taken True, Taken False, Handed \<lparr>pj_fd = 4, pj_cmd = 0\<rparr>, Done, Taken False,
       Handed \<lparr>pj_fd = 5, pj_cmd = 0\<rparr>, Exits], p) \<and> pool_queue p = []"
proof -
  let ?ops = "[Submit \<lparr>pj_fd = 4, pj_cmd = 0\<rparr>, Submit \<lparr>pj_fd = 5, pj_cmd = 0\<rparr>, Submit \<lparr>pj_fd = 6, pj_cmd = 0\<rparr>, Serve,
        Stop, Submit \<lparr>pj_fd = 7, pj_cmd = 0\<rparr>, Serve, Serve]"
  obtain outs p where r: "pool_run ?ops (job_pool_init 1 2) = (outs, p)" by (metis prod.exhaust)
  then show ?thesis using handshake_queue_fifo [OF _ r] by auto
qed

end
