(* ===== verification/Udp_State.thy ===== *)
theory Udp_State
  imports Tcp_State Udp_Conn Udp_Dns Socks5_Protocol
begin

unbundle bit_operations_syntax

text \<open>
  The state of the UDP engine of \<open>simple-socks5.c\<close>: the session structure, its static slot table,
  the workers' session lists with their resolution jobs, the DNS request ring and the DNS cache.
  It extends the TCP state because both engines share the connection count and the process.
  Sessions are named by slot number, as connections are.
\<close>

section \<open>Constants and data\<close>

definition UDP_WORKER_COUNT :: nat where "UDP_WORKER_COUNT = 4"
definition UDP_SLOT_COUNT :: nat where "UDP_SLOT_COUNT = 1088"
definition UDP_IDLE_TIMEOUT_SEC :: int where "UDP_IDLE_TIMEOUT_SEC = 360"
definition DNS_RESOLVE_CACHE_SLOTS :: nat where "DNS_RESOLVE_CACHE_SLOTS = 64"
definition DNS_RESOLVE_TTL_SEC :: int where "DNS_RESOLVE_TTL_SEC = 60"
definition DNS_RESOLVE_HOST_MAX :: nat where "DNS_RESOLVE_HOST_MAX = 256"
definition UDP_DNS_QUEUE_MAX :: nat where "UDP_DNS_QUEUE_MAX = 128"

datatype udp_close_kind =
    UDP_CLOSE_NONE | UDP_CLOSE_IDLE | UDP_CLOSE_PEER | UDP_CLOSE_IO | UDP_CLOSE_PROTO
  | UDP_CLOSE_RESOURCE | UDP_CLOSE_SHUTDOWN | UDP_CLOSE_UNKNOWN

text \<open>
  \<open>client_src\<close> is \<open>None\<close> while \<open>client_src_len\<close> is 0. Of \<open>close_reason\<close>, a string for the log, the
  model keeps whether it is set.
\<close>

record udp_conn =
  u_magic :: u32
  u_slot :: nat
  u_cmd :: int
  u_gen :: u32
  u_ep_u64 :: u64
  u_client_fd :: fd
  u_local_udp_fd :: fd
  u_remote_udp_fd :: fd
  u_in_buf :: "byte list option"
  u_out_buf :: "byte list option"
  u_peer_ss :: sockaddr
  u_client_src :: "sockaddr option"
  u_len_bytes :: "byte list"
  u_len_got :: nat
  u_frame_expect :: nat
  u_frame_got :: nat
  u_out_len :: nat
  u_out_off :: nat
  u_client_events :: u32
  u_local_events :: u32
  u_remote_events :: u32
  u_closed :: bool
  u_close_kind :: udp_close_kind
  u_close_reason :: bool
  u_close_errno :: int
  u_created :: int
  u_refs :: int
  u_finalized :: bool
  u_registered :: bool
  u_last_active :: int
  u_pend :: "udp_dns_pend list"
  u_next :: "nat option"
  u_prev :: "nat option"
  u_widx :: nat

record dns_resolve_entry =
  e_host :: cstring
  e_sa :: sockaddr
  e_expire :: int
  e_used :: bool

record udp_dns_req =
  rq_worker :: nat
  rq_job :: nat
  rq_host :: cstring

record udp = tcp +
  g_udp_slots :: "nat \<Rightarrow> udp_conn"
  g_udp_slot_state :: "nat \<Rightarrow> bool"
  g_udp_free_slots :: "nat list"
  g_udp_free_slot_top :: nat
  udp_list_head :: "nat \<Rightarrow> nat option"         \<comment> \<open>per worker\<close>
  uw_epoll_fd :: "nat \<Rightarrow> fd"
  uw_stopping :: "nat \<Rightarrow> bool"
  dns_jobs :: "nat \<Rightarrow> udp_dns_job list"
  dns_wake_pipe :: "nat \<Rightarrow> fd \<times> fd"
  g_udp_next_worker :: u32
  g_udp_st_acquired :: int
  g_udp_st_released :: int
  g_udp_st_stale :: int
  g_udp_st_bad_slot :: int
  g_udp_st_exhausted :: int
  g_udp_st_double_fin :: int
  g_udp_close_kind :: "udp_close_kind \<Rightarrow> int"
  g_udp_close_short_lived :: int
  g_udp_close_total :: int
  g_udp_verbose_log :: bool
  g_udp_tx_bytes :: "nat \<Rightarrow> int"
  g_udp_rx_bytes :: "nat \<Rightarrow> int"
  g_dns_queue :: "udp_dns_req list"
  g_dns_q_head :: nat
  g_dns_q_tail :: nat
  g_dns_q_count :: nat
  g_dns_stop :: bool
  g_dns_st_enqueued :: int
  g_dns_st_ok :: int
  g_dns_st_fail :: int
  g_dns_st_qfull :: int
  g_dns_st_jobfull :: int
  g_dns_st_drop :: int
  g_dns_st_replay :: int
  g_dns_st_lost :: int
  g_dns_cache :: "dns_resolve_entry list"
  inet_pton4 :: "cstring \<Rightarrow> byte list option"    \<comment> \<open>\<open>inet_pton(AF_INET, ...)\<close> of the C library\<close>
  inet_pton6 :: "cstring \<Rightarrow> byte list option"

definition upd_sess :: "nat \<Rightarrow> (udp_conn \<Rightarrow> udp_conn) \<Rightarrow> 'a udp_scheme \<Rightarrow> 'a udp_scheme" where
  "upd_sess i f s = s\<lparr>g_udp_slots := (g_udp_slots s)(i := f (g_udp_slots s i))\<rparr>"

lemma upd_sess_simps [simp]:
  "g_udp_slots (upd_sess i f s) = (g_udp_slots s)(i := f (g_udp_slots s i))"
  "g_udp_slot_state (upd_sess i f s) = g_udp_slot_state s"
  "g_udp_free_slots (upd_sess i f s) = g_udp_free_slots s"
  "g_udp_free_slot_top (upd_sess i f s) = g_udp_free_slot_top s"
  "udp_list_head (upd_sess i f s) = udp_list_head s"
  "uw_stopping (upd_sess i f s) = uw_stopping s" "uw_epoll_fd (upd_sess i f s) = uw_epoll_fd s"
  "dns_jobs (upd_sess i f s) = dns_jobs s" "g_dns_cache (upd_sess i f s) = g_dns_cache s"
  "g_conn_count (upd_sess i f s) = g_conn_count s"
  "g_udp_tx_bytes (upd_sess i f s) = g_udp_tx_bytes s" "g_udp_rx_bytes (upd_sess i f s) = g_udp_rx_bytes s"
  "g_dns_st_drop (upd_sess i f s) = g_dns_st_drop s" "g_dns_st_replay (upd_sess i f s) = g_dns_st_replay s"
  "g_dns_st_lost (upd_sess i f s) = g_dns_st_lost s"
  "o_log (upd_sess i f s) = o_log s" "o_recv (upd_sess i f s) = o_recv s"
  "o_send (upd_sess i f s) = o_send s" "o_now (upd_sess i f s) = o_now s"
  "o_dgram (upd_sess i f s) = o_dgram s" "o_sendto (upd_sess i f s) = o_sendto s"
  by (simp_all add: upd_sess_def)

section \<open>Slots\<close>

definition zero_sockaddr :: sockaddr where
  "zero_sockaddr = \<lparr>sa_family = 0, sa_addr = replicate 4 0, sa_port = [0, 0]\<rparr>"

definition zero_pend :: udp_dns_pend where
  "zero_pend = \<lparr>p_used = False, p_host = [], p_port = [0, 0], p_len = 0, p_payload = []\<rparr>"

definition zero_sess :: udp_conn where
  "zero_sess = \<lparr>u_magic = 0, u_slot = 0, u_cmd = 0, u_gen = 0, u_ep_u64 = 0, u_client_fd = 0,
     u_local_udp_fd = 0, u_remote_udp_fd = 0, u_in_buf = None, u_out_buf = None,
     u_peer_ss = zero_sockaddr, u_client_src = None, u_len_bytes = [0, 0], u_len_got = 0,
     u_frame_expect = 0, u_frame_got = 0, u_out_len = 0, u_out_off = 0, u_client_events = 0,
     u_local_events = 0, u_remote_events = 0, u_closed = False, u_close_kind = UDP_CLOSE_NONE,
     u_close_reason = False, u_close_errno = 0, u_created = 0, u_refs = 0, u_finalized = False,
     u_registered = False, u_last_active = 0, u_pend = replicate UDP_DNS_PEND_SLOTS zero_pend,
     u_next = None, u_prev = None, u_widx = 0\<rparr>"

definition udp_slots_init :: "'a udp_scheme \<Rightarrow> 'a udp_scheme" where
  "udp_slots_init s =
     s\<lparr>g_udp_slots := (\<lambda>i. if i < UDP_SLOT_COUNT \<and> u_gen (g_udp_slots s i) = 0
                            then (g_udp_slots s i)\<lparr>u_gen := 1\<rparr> else g_udp_slots s i),
       g_udp_slot_state := (\<lambda>i. if i < UDP_SLOT_COUNT then False else g_udp_slot_state s i),
       g_udp_free_slots := [0..<UDP_SLOT_COUNT],
       g_udp_free_slot_top := UDP_SLOT_COUNT\<rparr>"

definition udp_slot_acquire :: "'a udp_scheme \<Rightarrow> nat option \<times> 'a udp_scheme" where
  "udp_slot_acquire s =
     (if g_udp_free_slot_top s = 0 then (None, s\<lparr>g_udp_st_exhausted := g_udp_st_exhausted s + 1\<rparr>)
      else let top = g_udp_free_slot_top s - 1;
               idx = g_udp_free_slots s ! top;
               new_gen = u_gen (g_udp_slots s idx) + 1
           in (Some idx,
               s\<lparr>g_udp_free_slot_top := top,
                 g_udp_slots := (g_udp_slots s)(idx := zero_sess\<lparr>u_gen := new_gen, u_slot := idx,
                   u_client_fd := -1, u_local_udp_fd := -1, u_remote_udp_fd := -1\<rparr>),
                 g_udp_slot_state := (g_udp_slot_state s)(idx := True),
                 g_udp_st_acquired := g_udp_st_acquired s + 1\<rparr>))"

definition udp_slot_release :: "nat \<Rightarrow> 'a udp_scheme \<Rightarrow> 'a udp_scheme" where
  "udp_slot_release idx s =
     s\<lparr>g_udp_slot_state := (g_udp_slot_state s)(idx := False),
       g_udp_free_slots := (g_udp_free_slots s)[g_udp_free_slot_top s := idx],
       g_udp_free_slot_top := g_udp_free_slot_top s + 1,
       g_udp_st_released := g_udp_st_released s + 1\<rparr>"

definition udp_free :: "'a udp_scheme \<Rightarrow> nat list" where
  "udp_free s = take (g_udp_free_slot_top s) (g_udp_free_slots s)"

definition udp_slots_wf :: "'a udp_scheme \<Rightarrow> bool" where
  "udp_slots_wf s \<longleftrightarrow> length (g_udp_free_slots s) = UDP_SLOT_COUNT \<and> g_udp_free_slot_top s \<le> UDP_SLOT_COUNT"

interpretation udp_pool: slot_pool UDP_SLOT_COUNT udp_slots_wf udp_free
  "\<lambda>s i. u_gen (g_udp_slots s i)" g_udp_slot_state udp_slot_acquire udp_slot_release
proof (unfold_locales, goal_cases)
  case (1 s)
  then have "g_udp_free_slot_top s = 0" by (auto simp: udp_free_def udp_slots_wf_def UDP_SLOT_COUNT_def)
  with 1 show ?case by (simp add: udp_slot_acquire_def udp_slots_wf_def udp_free_def)
next
  case (2 s xs i)
  with take_snoc_nth [of "g_udp_free_slot_top s" "g_udp_free_slots s" xs i]
  have "0 < g_udp_free_slot_top s" "g_udp_free_slots s ! (g_udp_free_slot_top s - 1) = i"
    "take (g_udp_free_slot_top s - 1) (g_udp_free_slots s) = xs"
    by (auto simp: udp_free_def udp_slots_wf_def)
  with 2 show ?case
    by (auto simp: udp_slot_acquire_def Let_def udp_slots_wf_def udp_free_def fun_eq_iff)
next
  case (3 s i)
  then have "g_udp_free_slot_top s < length (g_udp_free_slots s)"
    by (simp add: udp_slots_wf_def udp_free_def)
  with 3 show ?case
    by (simp add: udp_slot_release_def udp_slots_wf_def udp_free_def take_Suc_conv_app_nth
        take_update_swap list_update_append)
qed

lemma udp_slots_init_inv: "udp_pool.pool_inv (udp_slots_init s)"
  by (auto simp: udp_pool.pool_inv_def udp_slots_init_def udp_slots_wf_def udp_free_def)

section \<open>Session lists\<close>

text \<open>The list surgery the UDP code writes out inline at every place.\<close>

definition udp_list_add :: "nat \<Rightarrow> nat \<Rightarrow> 'a udp_scheme \<Rightarrow> 'a udp_scheme" where
  "udp_list_add w i s =
     (let h = udp_list_head s w;
          s1 = upd_sess i (\<lambda>c. c\<lparr>u_next := h\<rparr>) s;
          s2 = upd_sess i (\<lambda>c. c\<lparr>u_prev := None\<rparr>) s1;
          s3 = (case h of None \<Rightarrow> s2 | Some j \<Rightarrow> upd_sess j (\<lambda>c. c\<lparr>u_prev := Some i\<rparr>) s2)
      in s3\<lparr>udp_list_head := (udp_list_head s3)(w := Some i)\<rparr>)"

definition udp_list_remove :: "nat \<Rightarrow> nat \<Rightarrow> 'a udp_scheme \<Rightarrow> 'a udp_scheme" where
  "udp_list_remove w i s =
     (let c = g_udp_slots s i;
          s1 = (case u_prev c of
                  Some p \<Rightarrow> upd_sess p (\<lambda>d. d\<lparr>u_next := u_next c\<rparr>) s
                | None \<Rightarrow> s\<lparr>udp_list_head := (udp_list_head s)(w := u_next c)\<rparr>);
          s2 = (case u_next (g_udp_slots s1 i) of
                  Some q \<Rightarrow> upd_sess q (\<lambda>d. d\<lparr>u_prev := u_prev (g_udp_slots s1 i)\<rparr>) s1
                | None \<Rightarrow> s1);
          s3 = upd_sess i (\<lambda>d. d\<lparr>u_next := None\<rparr>) s2
      in upd_sess i (\<lambda>d. d\<lparr>u_prev := None\<rparr>) s3)"

section \<open>The process image\<close>

definition zero_job :: udp_dns_job where
  "zero_job = \<lparr>j_state = UDP_DNS_FREE, j_host = [], j_port = [0, 0], j_ip = []\<rparr>"

text \<open>Every static zero; the C library's address parser is an argument.\<close>

definition udp_boot :: "(cstring \<Rightarrow> byte list option) \<Rightarrow> (cstring \<Rightarrow> byte list option) \<Rightarrow> udp" where
  "udp_boot pton4 pton6 = tcp.extend tcp_boot
     (udp.fields (\<lambda>_. zero_sess) (\<lambda>_. False) [] 0 (\<lambda>_. None) (\<lambda>_. 0) (\<lambda>_. False)
        (\<lambda>_. replicate UDP_DNS_JOB_COUNT zero_job) (\<lambda>_. (0, 0)) 0 0 0 0 0 0 0 (\<lambda>_. 0) 0 0 False (\<lambda>_. 0) (\<lambda>_. 0)
        (replicate UDP_DNS_QUEUE_MAX \<lparr>rq_worker = 0, rq_job = 0, rq_host = []\<rparr>) 0 0 0 False 0 0 0 0 0 0 0 0
        (replicate DNS_RESOLVE_CACHE_SLOTS \<lparr>e_host = [], e_sa = zero_sockaddr, e_expire = 0, e_used = False\<rparr>)
        pton4 pton6)"

lemma udp_boot_simps [simp]:
  "g_udp_slots (udp_boot f g) = (\<lambda>_. zero_sess)" "g_udp_slot_state (udp_boot f g) = (\<lambda>_. False)"
  "udp_list_head (udp_boot f g) = (\<lambda>_. None)"
  "dns_jobs (udp_boot f g) = (\<lambda>_. replicate UDP_DNS_JOB_COUNT zero_job)"
  "g_dns_queue (udp_boot f g) = replicate UDP_DNS_QUEUE_MAX \<lparr>rq_worker = 0, rq_job = 0, rq_host = []\<rparr>"
  "g_dns_q_head (udp_boot f g) = 0" "g_dns_q_tail (udp_boot f g) = 0" "g_dns_q_count (udp_boot f g) = 0"
  "g_dns_cache (udp_boot f g) =
     replicate DNS_RESOLVE_CACHE_SLOTS \<lparr>e_host = [], e_sa = zero_sockaddr, e_expire = 0, e_used = False\<rparr>"
  "inet_pton4 (udp_boot f g) = f" "inet_pton6 (udp_boot f g) = g"
  "g_dns_st_replay (udp_boot f g) = 0" "g_dns_st_lost (udp_boot f g) = 0" "g_dns_st_drop (udp_boot f g) = 0"
  "g_udp_tx_bytes (udp_boot f g) = (\<lambda>_. 0)" "g_udp_rx_bytes (udp_boot f g) = (\<lambda>_. 0)"
  "o_log (udp_boot f g) = []" "o_now (udp_boot f g) = 0" "o_sendto (udp_boot f g) = []"
  "o_recv (udp_boot f g) = (\<lambda>_. [])" "o_send (udp_boot f g) = (\<lambda>_. [])" "o_dgram (udp_boot f g) = (\<lambda>_. [])"
  "g_conn_count (udp_boot f g) = 0"
  by (simp_all add: udp_boot_def tcp.defs udp.defs tcp_boot_def)

end
