(* ===== verification/Udp_Resolve.thy ===== *)
theory Udp_Resolve
  imports Udp_State Ring_Queue
begin

unbundle bit_operations_syntax

text \<open>
  Addresses and asynchronous name resolution of \<open>simple-socks5.c\<close>: source comparison, the DNS
  cache, the request ring between workers and resolver threads, and the worker side that parks
  frames, replays them when the answer arrives and drops them when it does not. Text conversion
  of addresses (\<open>inet_pton\<close>) and the Java resolver are arguments. The walk over a session list
  takes fuel; \<open>UDP_SLOT_COUNT\<close> units cover every list.
\<close>

section \<open>Addresses\<close>

definition same_ip :: "sockaddr \<Rightarrow> sockaddr \<Rightarrow> bool" where
  "same_ip a b =
     (let na = socks5_addr_normalize (sa_addr a) (sa_family a = AF_INET6);
          nb = socks5_addr_normalize (sa_addr b) (sa_family b = AF_INET6)
      in mem_eq na nb 16)"

definition build_sockaddr :: "byte \<Rightarrow> byte list \<Rightarrow> byte list \<Rightarrow> sockaddr option" where
  "build_sockaddr atyp addr port =
     (if atyp = SOCKS5_ATYP_IPV4
      then Some \<lparr>sa_family = AF_INET, sa_addr = take 4 addr, sa_port = take 2 port\<rparr>
      else if atyp = SOCKS5_ATYP_IPV6
      then Some \<lparr>sa_family = AF_INET6, sa_addr = take 16 addr, sa_port = take 2 port\<rparr>
      else None)"

definition sockaddr_from_ip_port :: "cstring \<Rightarrow> byte list \<Rightarrow> 'a udp_scheme \<Rightarrow> sockaddr option" where
  "sockaddr_from_ip_port ip port s =
     (if ip = [] then None
      else case inet_pton6 s ip of
        Some a6 \<Rightarrow> Some \<lparr>sa_family = AF_INET6, sa_addr = a6, sa_port = take 2 port\<rparr>
      | None \<Rightarrow> (case inet_pton4 s ip of
          Some a4 \<Rightarrow> Some \<lparr>sa_family = AF_INET, sa_addr = a4, sa_port = take 2 port\<rparr>
        | None \<Rightarrow> None))"

section \<open>The DNS cache\<close>

definition cache_live :: "int \<Rightarrow> dns_resolve_entry \<Rightarrow> bool" where
  "cache_live now e \<longleftrightarrow> e_used e \<and> e_expire e > now"

definition dns_cache_lookup :: "cstring \<Rightarrow> int \<Rightarrow> 'a udp_scheme \<Rightarrow> sockaddr option" where
  "dns_cache_lookup host now s =
     (if host = [] then None
      else map_option (\<lambda>i. e_sa (g_dns_cache s ! i))
             (first_index (\<lambda>e. cache_live now e \<and> e_host e = host)
                (take DNS_RESOLVE_CACHE_SLOTS (g_dns_cache s))))"

text \<open>The loop that picks the slot: the first free or expired one, else the earliest to expire.\<close>

fun cache_scan :: "dns_resolve_entry list \<Rightarrow> int \<Rightarrow> nat \<Rightarrow> nat list \<Rightarrow> nat" where
  "cache_scan c now slot [] = slot"
| "cache_scan c now slot (i # is) =
     (if \<not> e_used (c ! i) \<or> e_expire (c ! i) \<le> now then i
      else cache_scan c now (if e_expire (c ! i) < e_expire (c ! slot) then i else slot) is)"

definition dns_cache_put :: "cstring \<Rightarrow> sockaddr \<Rightarrow> int \<Rightarrow> 'a udp_scheme \<Rightarrow> 'a udp_scheme" where
  "dns_cache_put host sa now s =
     (if host = [] then s
      else let slot = cache_scan (g_dns_cache s) now 0 [0..<DNS_RESOLVE_CACHE_SLOTS]
           in s\<lparr>g_dns_cache := (g_dns_cache s)
                [slot := \<lparr>e_host = str_bounded DNS_RESOLVE_HOST_MAX host, e_sa = sa,
                          e_expire = now + DNS_RESOLVE_TTL_SEC, e_used = True\<rparr>]\<rparr>)"

section \<open>The request ring and the resolver threads\<close>

definition udp_dns_wake_worker :: "nat \<Rightarrow> 'a udp_scheme \<Rightarrow> 'a udp_scheme" where
  "udp_dns_wake_worker w s =
     (if w \<ge> UDP_WORKER_COUNT then s
      else if snd (dns_wake_pipe s w) < 0 then s
      else log_ev (WAKE (snd (dns_wake_pipe s w))) s)"

definition udp_dns_enqueue :: "udp_dns_req \<Rightarrow> 'a udp_scheme \<Rightarrow> bool \<times> 'a udp_scheme" where
  "udp_dns_enqueue r s =
     (if g_dns_q_count s < UDP_DNS_QUEUE_MAX
      then (True, s\<lparr>g_dns_queue := (g_dns_queue s)[g_dns_q_tail s := r],
                    g_dns_q_tail := (g_dns_q_tail s + 1) mod UDP_DNS_QUEUE_MAX,
                    g_dns_q_count := g_dns_q_count s + 1\<rparr>)
      else (False, s))"

text \<open>
  The resolver thread in two steps, because other threads run while it waits for the Java side:
  taking a request, and storing the answer. The answer is the text \<open>request_java_resolve_host\<close>
  wrote, \<open>None\<close> when it returned an error.
\<close>

definition udp_dns_dequeue :: "'a udp_scheme \<Rightarrow> udp_dns_req option \<times> 'a udp_scheme" where
  "udp_dns_dequeue s =
     (if g_dns_q_count s = 0 then (None, s)
      else (Some (g_dns_queue s ! g_dns_q_head s),
            s\<lparr>g_dns_q_head := (g_dns_q_head s + 1) mod UDP_DNS_QUEUE_MAX,
              g_dns_q_count := g_dns_q_count s - 1\<rparr>))"

definition upd_job :: "nat \<Rightarrow> nat \<Rightarrow> (udp_dns_job \<Rightarrow> udp_dns_job) \<Rightarrow> 'a udp_scheme \<Rightarrow> 'a udp_scheme" where
  "upd_job w k f s = s\<lparr>dns_jobs := (dns_jobs s)(w := (dns_jobs s w)[k := f (dns_jobs s w ! k)])\<rparr>"

definition udp_dns_answer :: "udp_dns_req \<Rightarrow> cstring option \<Rightarrow> 'a udp_scheme \<Rightarrow> 'a udp_scheme" where
  "udp_dns_answer r ans s =
     udp_dns_wake_worker (rq_worker r)
       (case ans of
          Some ip \<Rightarrow>
            (if ip \<noteq> [] \<and> length ip < UDP_DNS_HOST_MAX
             then (upd_job (rq_worker r) (rq_job r) (\<lambda>j. j\<lparr>j_ip := ip, j_state := UDP_DNS_DONE_OK\<rparr>) s)
                    \<lparr>g_dns_st_ok := g_dns_st_ok s + 1\<rparr>
             else (upd_job (rq_worker r) (rq_job r) (\<lambda>j. j\<lparr>j_state := UDP_DNS_DONE_FAIL\<rparr>) s)
                    \<lparr>g_dns_st_fail := g_dns_st_fail s + 1\<rparr>)
        | None \<Rightarrow>
            (upd_job (rq_worker r) (rq_job r) (\<lambda>j. j\<lparr>j_state := UDP_DNS_DONE_FAIL\<rparr>) s)
              \<lparr>g_dns_st_fail := g_dns_st_fail s + 1\<rparr>)"

definition udp_dns_resolvers_start :: "'a udp_scheme \<Rightarrow> 'a udp_scheme" where
  "udp_dns_resolvers_start s =
     s\<lparr>g_dns_stop := False, g_dns_q_head := 0, g_dns_q_tail := 0, g_dns_q_count := 0\<rparr>"

definition udp_dns_resolvers_stop :: "'a udp_scheme \<Rightarrow> 'a udp_scheme" where
  "udp_dns_resolvers_stop s = s\<lparr>g_dns_stop := True\<rparr>"

section \<open>The worker side\<close>

definition udp_send_5g :: "nat \<Rightarrow> byte list \<Rightarrow> sockaddr \<Rightarrow> 'a udp_scheme \<Rightarrow> 'a udp_scheme" where
  "udp_send_5g i payload dst s =
     (let u = g_udp_slots s i in
      if u_remote_udp_fd u < 0 \<or> payload = [] then s
      else case os_sendto s (u_remote_udp_fd u) payload dst of ((sent, e), s1) \<Rightarrow>
        if sent > 0
        then s1\<lparr>g_udp_tx_bytes := (g_udp_tx_bytes s1)(u_widx u := g_udp_tx_bytes s1 (u_widx u) + sent)\<rparr>
        else s1)"

definition upd_pend :: "nat \<Rightarrow> nat \<Rightarrow> (udp_dns_pend \<Rightarrow> udp_dns_pend) \<Rightarrow> 'a udp_scheme \<Rightarrow> 'a udp_scheme" where
  "upd_pend i k f s = upd_sess i (\<lambda>u. u\<lparr>u_pend := (u_pend u)[k := f (u_pend u ! k)]\<rparr>) s"

text \<open>\<open>for (cur = w->conn_list_head; cur; cur = cur->next) body(cur)\<close>.\<close>

fun sess_walk ::
  "nat \<Rightarrow> (nat \<Rightarrow> 'a udp_scheme \<Rightarrow> 'a udp_scheme) \<Rightarrow> nat option \<Rightarrow> 'a udp_scheme \<Rightarrow> 'a udp_scheme" where
  "sess_walk 0 body cur s = s"
| "sess_walk (Suc fuel) body cur s =
     (case cur of None \<Rightarrow> s
      | Some i \<Rightarrow> let s1 = body i s in sess_walk fuel body (u_next (g_udp_slots s1 i)) s1)"

definition flush_pend :: "cstring \<Rightarrow> sockaddr \<Rightarrow> nat \<Rightarrow> 'a udp_scheme \<Rightarrow> nat \<Rightarrow> 'a udp_scheme" where
  "flush_pend host dst i s k =
     (let u = g_udp_slots s i; p = u_pend u ! k in
      if \<not> p_used p \<or> p_host p \<noteq> host then s
      else
        let s1 = (if u_closed u \<or> u_remote_udp_fd u < 0
                  then s\<lparr>g_dns_st_lost := g_dns_st_lost s + 1\<rparr>
                  else let t = udp_send_5g i (take (p_len p) (p_payload p)) dst s
                       in t\<lparr>g_dns_st_replay := g_dns_st_replay t + 1\<rparr>)
        in upd_pend i k (\<lambda>p. p\<lparr>p_used := False\<rparr>) s1)"

definition udp_dns_flush_pending :: "nat \<Rightarrow> cstring \<Rightarrow> sockaddr \<Rightarrow> 'a udp_scheme \<Rightarrow> 'a udp_scheme" where
  "udp_dns_flush_pending w host dst s =
     sess_walk UDP_SLOT_COUNT
       (\<lambda>i s. if u_magic (g_udp_slots s i) \<noteq> UDP_CONN_MAGIC then s
              else foldl (flush_pend host dst i) s [0..<UDP_DNS_PEND_SLOTS])
       (udp_list_head s w) s"

definition drop_pend :: "cstring \<Rightarrow> nat \<Rightarrow> 'a udp_scheme \<Rightarrow> nat \<Rightarrow> 'a udp_scheme" where
  "drop_pend host i s k =
     (let p = u_pend (g_udp_slots s i) ! k in
      if p_used p \<and> p_host p = host
      then (upd_pend i k (\<lambda>p. p\<lparr>p_used := False\<rparr>) s)\<lparr>g_dns_st_drop := g_dns_st_drop s + 1\<rparr>
      else s)"

definition udp_dns_drop_pending :: "nat \<Rightarrow> cstring \<Rightarrow> 'a udp_scheme \<Rightarrow> 'a udp_scheme" where
  "udp_dns_drop_pending w host s =
     sess_walk UDP_SLOT_COUNT
       (\<lambda>i s. if u_magic (g_udp_slots s i) \<noteq> UDP_CONN_MAGIC then s
              else foldl (drop_pend host i) s [0..<UDP_DNS_PEND_SLOTS])
       (udp_list_head s w) s"

definition drain_job :: "nat \<Rightarrow> int \<Rightarrow> 'a udp_scheme \<Rightarrow> nat \<Rightarrow> 'a udp_scheme" where
  "drain_job w now s k =
     (let j = dns_jobs s w ! k;
          free = upd_job w k (\<lambda>j. j\<lparr>j_state := UDP_DNS_FREE\<rparr>)
      in case j_state j of
           UDP_DNS_DONE_OK \<Rightarrow>
             (case sockaddr_from_ip_port (j_ip j) (j_port j) s of
                Some dst \<Rightarrow> free (udp_dns_flush_pending w (j_host j) dst (dns_cache_put (j_host j) dst now s))
              | None \<Rightarrow> free (udp_dns_drop_pending w (j_host j) s))
         | UDP_DNS_DONE_FAIL \<Rightarrow> free (udp_dns_drop_pending w (j_host j) s)
         | UDP_DNS_FREE \<Rightarrow> s
         | UDP_DNS_INFLIGHT \<Rightarrow> s)"

definition udp_dns_drain :: "nat \<Rightarrow> 'a udp_scheme \<Rightarrow> 'a udp_scheme" where
  "udp_dns_drain w s = foldl (drain_job w (o_now s)) s [0..<UDP_DNS_JOB_COUNT]"

text \<open>Find or start the resolution; \<open>None\<close> is \<open>ji < 0\<close>.\<close>

definition claim_job :: "nat \<Rightarrow> cstring \<Rightarrow> byte list \<Rightarrow> 'a udp_scheme \<Rightarrow> nat option \<times> 'a udp_scheme" where
  "claim_job w host port s =
     (case udp_dns_job_find (dns_jobs s w) UDP_DNS_JOB_COUNT host of
        Some ji \<Rightarrow> (Some ji, s)
      | None \<Rightarrow>
          (case udp_dns_job_alloc (dns_jobs s w) UDP_DNS_JOB_COUNT of
             None \<Rightarrow> (None, s\<lparr>g_dns_st_jobfull := g_dns_st_jobfull s + 1\<rparr>)
           | Some ji \<Rightarrow>
               let s1 = upd_job w ji (\<lambda>j. j\<lparr>j_host := str_bounded UDP_DNS_HOST_MAX host, j_port := take 2 port,
                           j_ip := [], j_state := UDP_DNS_INFLIGHT\<rparr>) s
               in case udp_dns_enqueue \<lparr>rq_worker = w, rq_job = ji, rq_host = str_bounded UDP_DNS_HOST_MAX host\<rparr> s1 of
                    (True, s2) \<Rightarrow> (Some ji, s2\<lparr>g_dns_st_enqueued := g_dns_st_enqueued s2 + 1\<rparr>)
                  | (False, s2) \<Rightarrow>
                      (None, (upd_job w ji (\<lambda>j. j\<lparr>j_state := UDP_DNS_FREE\<rparr>) s2)
                               \<lparr>g_dns_st_qfull := g_dns_st_qfull s2 + 1\<rparr>)))"

definition udp_dns_defer :: "nat \<Rightarrow> cstring \<Rightarrow> byte list \<Rightarrow> byte list \<Rightarrow> 'a udp_scheme \<Rightarrow> 'a udp_scheme" where
  "udp_dns_defer i host port payload s =
     (let w = u_widx (g_udp_slots s i) in
      case claim_job w host port s of
        (ji, s1) \<Rightarrow>
          (case (if ji \<noteq> None \<and> udp_dns_hold_ok (length payload)
                 then udp_dns_pend_free_slot (u_pend (g_udp_slots s1 i)) UDP_DNS_PEND_SLOTS else None) of
             Some pi \<Rightarrow>
               upd_pend i pi (\<lambda>p. p\<lparr>p_host := str_bounded UDP_DNS_HOST_MAX host, p_port := take 2 port,
                  p_len := length payload, p_payload := payload, p_used := True\<rparr>) s1
           | None \<Rightarrow> s1\<lparr>g_dns_st_drop := g_dns_st_drop s1 + 1\<rparr>))"

text \<open>\<open>addr\<close> is what the header's address pointer points at.\<close>

definition udp_route_frame ::
  "nat \<Rightarrow> byte \<Rightarrow> byte list \<Rightarrow> byte list \<Rightarrow> byte list \<Rightarrow> 'a udp_scheme \<Rightarrow> 'a udp_scheme" where
  "udp_route_frame i atyp addr port payload s =
     (if atyp \<noteq> SOCKS5_ATYP_DOMAIN then
        (case build_sockaddr atyp addr port of
           Some dst \<Rightarrow> udp_send_5g i payload dst s
         | None \<Rightarrow> s)
      else
        let dl = unat (addr ! 0) in
        if dl = 0 \<or> dl \<ge> UDP_DNS_HOST_MAX then s
        else
          let host = cstr (take dl (drop 1 addr)) in
          case dns_cache_lookup host (o_now s) s of
            Some dst \<Rightarrow> udp_send_5g i payload dst s
          | None \<Rightarrow> udp_dns_defer i host port payload s)"

end
