(* ===== verification/Udp_Resolve_Props.thy ===== *)
theory Udp_Resolve_Props
  imports Udp_Resolve
begin

unbundle bit_operations_syntax

text \<open>
  Facts about name resolution: the request ring is a FIFO, every in-flight job is owned by exactly
  one queued or taken request, each parked frame ends in exactly one counter, and the cache
  returns what was stored while it is fresh.
\<close>

section \<open>The request ring\<close>

definition dnsq_wf :: "'a udp_scheme \<Rightarrow> bool" where
  "dnsq_wf s \<longleftrightarrow> ring_wf UDP_DNS_QUEUE_MAX (g_dns_queue s) (g_dns_q_head s) (g_dns_q_tail s) (g_dns_q_count s)"

definition dnsq :: "'a udp_scheme \<Rightarrow> udp_dns_req list" where
  "dnsq s = ring_list (g_dns_queue s) (g_dns_q_head s) (g_dns_q_count s)"

interpretation dns_ring: fifo "\<lambda>_. UDP_DNS_QUEUE_MAX" dnsq_wf dnsq "\<lambda>_. True" udp_dns_enqueue udp_dns_dequeue
proof (unfold_locales, goal_cases)
  case (1 s)
  then show ?case by (simp add: dnsq_wf_def dnsq_def ring_wf_def)
next
  case (2 s x)
  then have "ring_wf UDP_DNS_QUEUE_MAX (g_dns_queue s) (g_dns_q_head s) (g_dns_q_tail s) (g_dns_q_count s)"
    "g_dns_q_count s < UDP_DNS_QUEUE_MAX"
    by (simp_all add: dnsq_wf_def dnsq_def)
  from ring_put [OF this, of x] 2 show ?case
    by (simp add: udp_dns_enqueue_def dnsq_wf_def dnsq_def)
next
  case (3 s x)
  then show ?case by (simp add: udp_dns_enqueue_def dnsq_def)
next
  case (4 s)
  then show ?case by (simp add: udp_dns_dequeue_def dnsq_def flip: length_0_conv)
next
  case (5 s x xs)
  then obtain n where n: "g_dns_q_count s = Suc n"
    by (cases "g_dns_q_count s") (auto simp: dnsq_def ring_list_def)
  with 5 ring_get [of UDP_DNS_QUEUE_MAX "g_dns_queue s" "g_dns_q_head s" "g_dns_q_tail s" n] show ?case
    by (simp add: udp_dns_dequeue_def dnsq_wf_def dnsq_def)
qed

section \<open>Ownership of jobs\<close>

definition req_slot :: "udp_dns_req \<Rightarrow> nat \<times> nat" where
  "req_slot r = (rq_worker r, rq_job r)"

text \<open>
  \<open>R\<close> are the requests the resolver threads have taken and not answered yet.
\<close>

definition dns_inv :: "'a udp_scheme \<Rightarrow> udp_dns_req list \<Rightarrow> bool" where
  "dns_inv s R \<longleftrightarrow>
     dnsq_wf s \<and>
     (\<forall>w < UDP_WORKER_COUNT. length (dns_jobs s w) = UDP_DNS_JOB_COUNT) \<and>
     distinct (map req_slot (dnsq s @ R)) \<and>
     (\<forall>w < UDP_WORKER_COUNT. \<forall>k < UDP_DNS_JOB_COUNT.
        j_state (dns_jobs s w ! k) = UDP_DNS_INFLIGHT \<longleftrightarrow> (w, k) \<in> req_slot ` set (dnsq s @ R)) \<and>
     (\<forall>r \<in> set (dnsq s @ R). rq_worker r < UDP_WORKER_COUNT \<and> rq_job r < UDP_DNS_JOB_COUNT \<and>
        j_host (dns_jobs s (rq_worker r) ! rq_job r) = rq_host r) \<and>
     (\<forall>w < UDP_WORKER_COUNT. \<forall>k < UDP_DNS_JOB_COUNT. \<forall>k' < UDP_DNS_JOB_COUNT.
        k \<noteq> k' \<longrightarrow> j_state (dns_jobs s w ! k) \<noteq> UDP_DNS_FREE \<longrightarrow> j_state (dns_jobs s w ! k') \<noteq> UDP_DNS_FREE \<longrightarrow>
        j_host (dns_jobs s w ! k) = j_host (dns_jobs s w ! k') \<longrightarrow> j_host (dns_jobs s w ! k) = [])"

text \<open>What name resolution reads: the job tables and the ring.\<close>

definition same_dns :: "'a udp_scheme \<Rightarrow> 'a udp_scheme \<Rightarrow> bool" where
  "same_dns s t \<longleftrightarrow> dns_jobs t = dns_jobs s \<and> g_dns_queue t = g_dns_queue s \<and>
     g_dns_q_head t = g_dns_q_head s \<and> g_dns_q_tail t = g_dns_q_tail s \<and> g_dns_q_count t = g_dns_q_count s"

lemma same_dns_refl: "same_dns s s"
  by (simp add: same_dns_def)

lemma same_dns_trans: "same_dns s t \<Longrightarrow> same_dns t u \<Longrightarrow> same_dns s u"
  by (simp add: same_dns_def)

lemma dns_inv_same: "dns_inv s R \<Longrightarrow> same_dns s t \<Longrightarrow> dns_inv t R"
  by (simp add: dns_inv_def same_dns_def dnsq_wf_def dnsq_def)

lemma sess_walk_induct:
  assumes "P s" and "\<And>i s. P s \<Longrightarrow> P (body i s)"
  shows "P (sess_walk fuel body cur s)"
  using assms(1)
proof (induction fuel arbitrary: cur s)
  case (Suc fuel)
  then show ?case by (cases cur) (simp_all add: Let_def assms(2))
qed simp

lemma foldl_induct:
  assumes "P s" and "\<And>s x. P s \<Longrightarrow> P (f s x)"
  shows "P (foldl f s xs)"
  using assms(1) by (induction xs arbitrary: s) (simp_all add: assms(2))

lemma os_sendto_form:
  assumes "os_sendto s f bs a = ((r, e), s')"
  shows "\<exists>q. s' = s\<lparr>o_sendto := q, o_log := o_log s @ (if r \<ge> 0 then [SENDTO f bs a] else [])\<rparr> \<and>
             (r \<ge> 0 \<longrightarrow> r = int (length bs))"
proof (cases "o_sendto s")
  case Nil
  then have "s' = s\<lparr>o_log := o_log s @ [SENDTO f bs a]\<rparr>" "r = int (length bs)"
    using assms by (auto simp: os_sendto_def log_ev_def)
  then show ?thesis by (intro exI [of _ "o_sendto s"]) simp
next
  case (Cons x q)
  obtain r0 e0 where x: "x = (r0, e0)" by force
  show ?thesis
    by (rule exI [of _ q]) (use assms Cons x in \<open>auto simp: os_sendto_def log_ev_def split: if_splits\<close>)
qed

lemma sess_walk_None [simp]: "sess_walk n body None s = s"
  by (cases n) simp_all

lemma udp_send_5g_form:
  "\<exists>q l x. udp_send_5g i p dst s = s\<lparr>o_sendto := q, o_log := l, g_udp_tx_bytes := x\<rparr>"
proof -
  obtain r e s1 where os: "os_sendto s (u_remote_udp_fd (g_udp_slots s i)) p dst = ((r, e), s1)"
    by (metis prod.exhaust)
  from os_sendto_form [OF os] obtain q l where s1: "s1 = s\<lparr>o_sendto := q, o_log := l\<rparr>" by blast
  let ?w = "u_widx (g_udp_slots s i)"
  consider (none) "udp_send_5g i p dst s = s" | (sent) "udp_send_5g i p dst s = s1"
    | (count) "udp_send_5g i p dst s = s1\<lparr>g_udp_tx_bytes := (g_udp_tx_bytes s1)(?w := g_udp_tx_bytes s1 ?w + r)\<rparr>"
    unfolding udp_send_5g_def Let_def os prod.case by presburger
  then show ?thesis
  proof cases
    case none
    then show ?thesis
      by (intro exI [of _ "o_sendto s"] exI [of _ "o_log s"] exI [of _ "g_udp_tx_bytes s"]) simp
  next
    case sent
    then show ?thesis using s1 by (intro exI [of _ q] exI [of _ l] exI [of _ "g_udp_tx_bytes s"]) simp
  next
    case count
    then show ?thesis using s1 by auto
  qed
qed

lemma udp_send_5g_frame [simp]:
  "g_udp_slots (udp_send_5g i p dst s) = g_udp_slots s"
  "dns_jobs (udp_send_5g i p dst s) = dns_jobs s"
  "g_dns_cache (udp_send_5g i p dst s) = g_dns_cache s"
  "g_dns_st_replay (udp_send_5g i p dst s) = g_dns_st_replay s"
  "g_dns_st_lost (udp_send_5g i p dst s) = g_dns_st_lost s"
  "g_dns_st_drop (udp_send_5g i p dst s) = g_dns_st_drop s"
  "udp_list_head (udp_send_5g i p dst s) = udp_list_head s"
  "same_dns s (udp_send_5g i p dst s)"
  using udp_send_5g_form [of i p dst s] by (auto simp: same_dns_def)

lemma flush_pend_dns: "same_dns s (flush_pend host dst i s k)"
  by (simp add: flush_pend_def Let_def upd_pend_def upd_sess_def)
    (auto simp: same_dns_def udp_send_5g_frame(8) [unfolded same_dns_def])

lemma drop_pend_dns: "same_dns s (drop_pend host i s k)"
  by (simp add: drop_pend_def Let_def upd_pend_def upd_sess_def same_dns_def)

lemma flush_pending_dns: "same_dns s (udp_dns_flush_pending w host dst s)"
  unfolding udp_dns_flush_pending_def
  by (rule sess_walk_induct [of "same_dns s"])
    (auto intro!: foldl_induct [of "same_dns s"] intro: same_dns_refl same_dns_trans [OF _ flush_pend_dns])

lemma drop_pending_dns: "same_dns s (udp_dns_drop_pending w host s)"
  unfolding udp_dns_drop_pending_def
  by (rule sess_walk_induct [of "same_dns s"])
    (auto intro!: foldl_induct [of "same_dns s"] intro: same_dns_refl same_dns_trans [OF _ drop_pend_dns])

lemma cache_put_dns: "same_dns s (dns_cache_put host sa now s)"
  by (simp add: dns_cache_put_def same_dns_def Let_def)

text \<open>A job that is not in flight may be released.\<close>

lemma dns_inv_not_owned:
  assumes "dns_inv s R" and "w < UDP_WORKER_COUNT" "k < UDP_DNS_JOB_COUNT"
    and "j_state (dns_jobs s w ! k) \<noteq> UDP_DNS_INFLIGHT" and "r \<in> set (dnsq s @ R)"
  shows "req_slot r \<noteq> (w, k)"
proof
  assume "req_slot r = (w, k)"
  then have "(w, k) \<in> req_slot ` set (dnsq s @ R)" using assms(5) by (metis imageI)
  then show False using assms(1-4) unfolding dns_inv_def by blast
qed

lemma dns_inv_free:
  assumes inv: "dns_inv s R" and w: "w < UDP_WORKER_COUNT" and k: "k < UDP_DNS_JOB_COUNT"
    and st: "j_state (dns_jobs s w ! k) \<noteq> UDP_DNS_INFLIGHT" and f: "\<And>j. j_state (f j) = UDP_DNS_FREE"
  shows "dns_inv (upd_job w k f s) R" (is "dns_inv ?t R")
proof -
  have q: "dnsq ?t = dnsq s" "dnsq_wf ?t = dnsq_wf s" by (simp_all add: upd_job_def dnsq_def dnsq_wf_def)
  have len: "length (dns_jobs s w) = UDP_DNS_JOB_COUNT" using inv w by (simp add: dns_inv_def)
  have at: "dns_jobs ?t v ! l = (if v = w \<and> l = k then f (dns_jobs s w ! k) else dns_jobs s v ! l)" for v l
    using len k by (simp add: upd_job_def nth_list_update)
  have ln: "length (dns_jobs ?t v) = length (dns_jobs s v)" for v by (simp add: upd_job_def)
  note out = dns_inv_not_owned [OF inv w k st]
  then have nw: "(w, k) \<notin> req_slot ` set (dnsq s @ R)" by force
  have host: "j_host (dns_jobs ?t (rq_worker r) ! rq_job r) = j_host (dns_jobs s (rq_worker r) ! rq_job r)"
    if "r \<in> set (dnsq s @ R)" for r using out [OF that] by (auto simp: at req_slot_def)
  show ?thesis
    unfolding dns_inv_def q ln
  proof (intro conjI)
    show "\<forall>v < UDP_WORKER_COUNT. \<forall>l < UDP_DNS_JOB_COUNT.
        (j_state (dns_jobs ?t v ! l) = UDP_DNS_INFLIGHT) = ((v, l) \<in> req_slot ` set (dnsq s @ R))"
      using inv nw f unfolding dns_inv_def by (auto simp: at)
    show "\<forall>r \<in> set (dnsq s @ R). rq_worker r < UDP_WORKER_COUNT \<and> rq_job r < UDP_DNS_JOB_COUNT \<and>
        j_host (dns_jobs ?t (rq_worker r) ! rq_job r) = rq_host r"
      using inv host unfolding dns_inv_def by simp
    show "\<forall>v < UDP_WORKER_COUNT. \<forall>l < UDP_DNS_JOB_COUNT. \<forall>l' < UDP_DNS_JOB_COUNT. l \<noteq> l' \<longrightarrow>
       j_state (dns_jobs ?t v ! l) \<noteq> UDP_DNS_FREE \<longrightarrow> j_state (dns_jobs ?t v ! l') \<noteq> UDP_DNS_FREE \<longrightarrow>
       j_host (dns_jobs ?t v ! l) = j_host (dns_jobs ?t v ! l') \<longrightarrow> j_host (dns_jobs ?t v ! l) = []"
      using inv f unfolding dns_inv_def by (auto simp: at)
  qed (use inv in \<open>auto simp: dns_inv_def\<close>)
qed

lemma drain_job_inv:
  assumes inv: "dns_inv s R" and "w < UDP_WORKER_COUNT" "k < UDP_DNS_JOB_COUNT"
  shows "dns_inv (drain_job w now s k) R"
proof -
  have release: "dns_inv (upd_job w k (\<lambda>j. j\<lparr>j_state := UDP_DNS_FREE\<rparr>) t) R"
    if "same_dns s t" and "j_state (dns_jobs s w ! k) \<noteq> UDP_DNS_INFLIGHT" for t
    using dns_inv_free [OF dns_inv_same [OF inv that(1)] assms(2,3), of "\<lambda>j. j\<lparr>j_state := UDP_DNS_FREE\<rparr>"] that
    by (simp add: same_dns_def)
  have 1: "same_dns s (udp_dns_flush_pending w h d (dns_cache_put h d now s))" for h d
    by (rule same_dns_trans [OF cache_put_dns flush_pending_dns])
  show ?thesis
    using inv release [OF 1] release [OF drop_pending_dns]
    by (cases "j_state (dns_jobs s w ! k)") (auto simp: drain_job_def Let_def split: option.split)
qed

lemma drain_jobs_inv:
  assumes "dns_inv s R" and "w < UDP_WORKER_COUNT" and "set ks \<subseteq> {..<UDP_DNS_JOB_COUNT}"
  shows "dns_inv (foldl (drain_job w now) s ks) R"
  using assms by (induction ks arbitrary: s) (auto simp: drain_job_inv)

text \<open>A free job that is filled in and put on the ring.\<close>

lemma dns_inv_enqueue:
  fixes s :: "'a udp_scheme"
  assumes inv: "dns_inv s R" and w: "w < UDP_WORKER_COUNT" and k: "k < UDP_DNS_JOB_COUNT"
    and free: "j_state (dns_jobs s w ! k) = UDP_DNS_FREE"
    and fresh: "udp_dns_job_find (dns_jobs s w) UDP_DNS_JOB_COUNT host = None"
    and j: "j_state j = UDP_DNS_INFLIGHT" "j_host j = host"
    and enq: "udp_dns_enqueue \<lparr>rq_worker = w, rq_job = k, rq_host = host\<rparr> (upd_job w k (\<lambda>_. j) s) = (True, t)"
  shows "dns_inv t R"
proof -
  let ?s1 = "upd_job w k (\<lambda>_. j) s" and ?r = "\<lparr>rq_worker = w, rq_job = k, rq_host = host\<rparr>"
  have len: "length (dns_jobs s w) = UDP_DNS_JOB_COUNT" using inv w by (simp add: dns_inv_def)
  have q1: "dnsq ?s1 = dnsq s" "dnsq_wf ?s1" using inv by (simp_all add: upd_job_def dnsq_def dnsq_wf_def dns_inv_def)
  have t: "dnsq_wf t" "dnsq t = dnsq s @ [?r]" using dns_ring.put_step [OF q1(2) enq] q1(1) by auto
  have jobs: "dns_jobs t = dns_jobs ?s1" using enq by (auto simp: udp_dns_enqueue_def split: if_splits)
  have at: "dns_jobs t v ! l = (if v = w \<and> l = k then j else dns_jobs s v ! l)" for v l
    using len k by (simp add: jobs upd_job_def nth_list_update)
  have ln: "length (dns_jobs t v) = length (dns_jobs s v)" for v by (simp add: jobs upd_job_def)
  have "req_slot r \<noteq> (w, k)" if "r \<in> set (dnsq s @ R)" for r
    by (rule dns_inv_not_owned [OF inv w k _ that]) (simp add: free)
  then have out: "(w, k) \<notin> req_slot ` set (dnsq s @ R)" by force
  have slots: "set (dnsq t @ R) = insert ?r (set (dnsq s @ R))" by (auto simp: t(2))
  have other: "host = []" if "l < UDP_DNS_JOB_COUNT" "j_state (dns_jobs s w ! l) \<noteq> UDP_DNS_FREE"
    "j_host (dns_jobs s w ! l) = host" for l
    using udp_dns_job_find_None [OF fresh _ that(1)] that len by auto
  have ne: "(rq_worker r, rq_job r) \<noteq> (w, k)" if "r \<in> set (dnsq s @ R)" for r
    using out that by (force simp: req_slot_def)
  show ?thesis
    unfolding dns_inv_def ln
  proof (intro conjI)
    show "distinct (map req_slot (dnsq t @ R))"
      using inv out by (auto simp: t(2) dns_inv_def req_slot_def image_iff)
    show "\<forall>v < UDP_WORKER_COUNT. \<forall>l < UDP_DNS_JOB_COUNT.
        (j_state (dns_jobs t v ! l) = UDP_DNS_INFLIGHT) = ((v, l) \<in> req_slot ` set (dnsq t @ R))"
      using inv j(1) unfolding slots dns_inv_def by (auto simp: at req_slot_def)
    show "\<forall>r \<in> set (dnsq t @ R). rq_worker r < UDP_WORKER_COUNT \<and> rq_job r < UDP_DNS_JOB_COUNT \<and>
        j_host (dns_jobs t (rq_worker r) ! rq_job r) = rq_host r"
      using inv w k j(2) ne unfolding slots dns_inv_def by (auto simp: at)
    show "\<forall>v < UDP_WORKER_COUNT. \<forall>l < UDP_DNS_JOB_COUNT. \<forall>l' < UDP_DNS_JOB_COUNT. l \<noteq> l' \<longrightarrow>
       j_state (dns_jobs t v ! l) \<noteq> UDP_DNS_FREE \<longrightarrow> j_state (dns_jobs t v ! l') \<noteq> UDP_DNS_FREE \<longrightarrow>
       j_host (dns_jobs t v ! l) = j_host (dns_jobs t v ! l') \<longrightarrow> j_host (dns_jobs t v ! l) = []"
      using inv other unfolding at j(2) dns_inv_def by (simp add: j(2)) (metis j(2))
  qed (use t(1) inv in \<open>auto simp: dns_inv_def\<close>)
qed

lemma claim_job_inv:
  assumes inv: "dns_inv s R" and w: "w < UDP_WORKER_COUNT" and h: "length host < UDP_DNS_HOST_MAX"
    and c: "claim_job w host port s = (ji, t)"
  shows "dns_inv t R"
proof (cases "udp_dns_job_find (dns_jobs s w) UDP_DNS_JOB_COUNT host")
  case (Some x)
  then show ?thesis using c inv by (simp add: claim_job_def)
next
  case nf: None
  show ?thesis
  proof (cases "udp_dns_job_alloc (dns_jobs s w) UDP_DNS_JOB_COUNT")
    case None
    then have "t = s\<lparr>g_dns_st_jobfull := g_dns_st_jobfull s + 1\<rparr>" using c nf by (simp add: claim_job_def)
    then show ?thesis using dns_inv_same [OF inv, of t] by (simp add: same_dns_def)
  next
    case (Some k)
    note a = udp_dns_job_alloc_Some [OF Some]
    let ?j = "(dns_jobs s w ! k)\<lparr>j_host := host, j_port := take 2 port, j_ip := [], j_state := UDP_DNS_INFLIGHT\<rparr>"
    let ?s1 = "upd_job w k (\<lambda>_. ?j) s" and ?r = "\<lparr>rq_worker = w, rq_job = k, rq_host = host\<rparr>"
    have s1: "upd_job w k (\<lambda>j. j\<lparr>j_host := host, j_port := take 2 port, j_ip := [],
        j_state := UDP_DNS_INFLIGHT\<rparr>) s = ?s1" by (simp add: upd_job_def)
    obtain ok s2 where e: "udp_dns_enqueue ?r ?s1 = (ok, s2)" by force
    show ?thesis
    proof (cases ok)
      case True
      then have "t = s2\<lparr>g_dns_st_enqueued := g_dns_st_enqueued s2 + 1\<rparr>"
        using c nf Some e h unfolding claim_job_def by (simp add: s1 Let_def)
      moreover have "dns_inv s2 R"
        by (rule dns_inv_enqueue [OF inv w _ _ nf, where k = k and j = ?j]) (use a e True in simp_all)
      ultimately show ?thesis using dns_inv_same [of s2 R t] by (simp add: same_dns_def)
    next
      case False
      then have "s2 = ?s1" using e by (auto simp: udp_dns_enqueue_def split: if_splits)
      then have t: "t = (upd_job w k (\<lambda>j. j\<lparr>j_state := UDP_DNS_FREE\<rparr>) ?s1)\<lparr>g_dns_st_qfull := g_dns_st_qfull ?s1 + 1\<rparr>"
        using c nf Some e h False unfolding claim_job_def by (simp add: s1 Let_def)
      have "upd_job w k (\<lambda>j. j\<lparr>j_state := UDP_DNS_FREE\<rparr>) ?s1 = upd_job w k (\<lambda>_. ?j\<lparr>j_state := UDP_DNS_FREE\<rparr>) s"
        using a by (simp add: upd_job_def)
      moreover have "dns_inv (upd_job w k (\<lambda>_. ?j\<lparr>j_state := UDP_DNS_FREE\<rparr>) s) R"
        by (rule dns_inv_free [OF inv w]) (use a in simp_all)
      ultimately show ?thesis using t dns_inv_same [of _ R t] by (simp add: same_dns_def)
    qed
  qed
qed

lemma upd_pend_dns: "same_dns s (upd_pend i k f s)"
  by (simp add: upd_pend_def upd_sess_def same_dns_def)

lemma udp_dns_defer_inv:
  assumes "dns_inv s R" and "u_widx (g_udp_slots s i) < UDP_WORKER_COUNT" and "length host < UDP_DNS_HOST_MAX"
  shows "dns_inv (udp_dns_defer i host port payload s) R"
proof -
  obtain ji t where c: "claim_job (u_widx (g_udp_slots s i)) host port s = (ji, t)" by force
  note inv = claim_job_inv [OF assms c]
  have "same_dns t (udp_dns_defer i host port payload s)"
    unfolding udp_dns_defer_def Let_def c prod.case
    by (auto simp: upd_pend_dns same_dns_def split: option.split)
      (auto simp: upd_pend_def upd_sess_def)
  then show ?thesis by (rule dns_inv_same [OF inv])
qed

lemma udp_dns_dequeue_inv:
  assumes "dns_inv s R" and "udp_dns_dequeue s = (Some r, t)"
  shows "dns_inv t (r # R)"
proof -
  have q: "dnsq_wf t" "dnsq s = r # dnsq t"
    using dns_ring.get_step [OF _ assms(2)] assms(1) by (auto simp: dns_inv_def)
  have j: "dns_jobs t = dns_jobs s" using assms(2) by (auto simp: udp_dns_dequeue_def split: if_splits)
  have m: "set (dnsq t @ r # R) = set (dnsq s @ R)" by (auto simp: q(2))
  show ?thesis
    using assms(1) q unfolding dns_inv_def m j by (auto simp: q(2))
qed

lemma wake_same_dns: "same_dns s (udp_dns_wake_worker w s)"
  by (simp add: udp_dns_wake_worker_def log_ev_def same_dns_def)

text \<open>The answer settles exactly the job its request was made for.\<close>

lemma dns_inv_answer:
  assumes inv: "dns_inv s (r # R)" and st: "\<And>j. j_state (f j) \<noteq> UDP_DNS_INFLIGHT" "\<And>j. j_host (f j) = j_host j"
  shows "dns_inv (upd_job (rq_worker r) (rq_job r) f s) R" (is "dns_inv ?t R")
proof -
  let ?w = "rq_worker r" and ?k = "rq_job r"
  have r: "?w < UDP_WORKER_COUNT" "?k < UDP_DNS_JOB_COUNT"
    and own: "(?w, ?k) \<notin> req_slot ` set (dnsq s @ R)" and infl: "j_state (dns_jobs s ?w ! ?k) = UDP_DNS_INFLIGHT"
    using inv unfolding dns_inv_def req_slot_def by auto
  have q: "dnsq ?t = dnsq s" "dnsq_wf ?t = dnsq_wf s" by (simp_all add: upd_job_def dnsq_def dnsq_wf_def)
  have len: "length (dns_jobs s ?w) = UDP_DNS_JOB_COUNT" using inv r by (simp add: dns_inv_def)
  have at: "dns_jobs ?t v ! l = (if v = ?w \<and> l = ?k then f (dns_jobs s ?w ! ?k) else dns_jobs s v ! l)" for v l
    using len r by (simp add: upd_job_def nth_list_update)
  have host: "j_host (dns_jobs ?t v ! l) = j_host (dns_jobs s v ! l)" for v l using st(2) by (simp add: at)
  have free: "j_state (dns_jobs ?t v ! l) \<noteq> UDP_DNS_FREE \<Longrightarrow> j_state (dns_jobs s v ! l) \<noteq> UDP_DNS_FREE" for v l
    using infl by (auto simp: at split: if_splits)
  have ln: "length (dns_jobs ?t v) = length (dns_jobs s v)" for v by (simp add: upd_job_def)
  have m: "req_slot ` set (dnsq s @ r # R) = insert (?w, ?k) (req_slot ` set (dnsq s @ R))"
    by (auto simp: req_slot_def)
  show ?thesis
    unfolding dns_inv_def q ln host
  proof (intro conjI)
    show "\<forall>v < UDP_WORKER_COUNT. \<forall>l < UDP_DNS_JOB_COUNT.
        (j_state (dns_jobs ?t v ! l) = UDP_DNS_INFLIGHT) = ((v, l) \<in> req_slot ` set (dnsq s @ R))"
      using inv own st(1) unfolding dns_inv_def m by (auto simp: at)
    show "\<forall>v < UDP_WORKER_COUNT. \<forall>l < UDP_DNS_JOB_COUNT. \<forall>l' < UDP_DNS_JOB_COUNT. l \<noteq> l' \<longrightarrow>
       j_state (dns_jobs ?t v ! l) \<noteq> UDP_DNS_FREE \<longrightarrow> j_state (dns_jobs ?t v ! l') \<noteq> UDP_DNS_FREE \<longrightarrow>
       j_host (dns_jobs s v ! l) = j_host (dns_jobs s v ! l') \<longrightarrow> j_host (dns_jobs s v ! l) = []"
      using inv free unfolding dns_inv_def by blast
  qed (use inv in \<open>auto simp: dns_inv_def\<close>)
qed

lemma udp_dns_answer_inv:
  assumes "dns_inv s (r # R)"
  shows "dns_inv (udp_dns_answer r ans s) R"
proof -
  let ?ok = "\<lambda>ip j. j\<lparr>j_ip := ip, j_state := UDP_DNS_DONE_OK\<rparr>" and ?no = "\<lambda>j. j\<lparr>j_state := UDP_DNS_DONE_FAIL\<rparr>"
  let ?u = "upd_job (rq_worker r) (rq_job r)"
  have ok: "dns_inv (?u (?ok ip) s) R" for ip by (rule dns_inv_answer [OF assms]) simp_all
  have no: "dns_inv (?u ?no s) R" by (rule dns_inv_answer [OF assms]) simp_all
  have "dns_inv ((?u (?ok ip) s)\<lparr>g_dns_st_ok := n\<rparr>) R" "dns_inv ((?u ?no s)\<lparr>g_dns_st_fail := n\<rparr>) R" for ip n
    using dns_inv_same [OF ok] dns_inv_same [OF no] by (simp_all add: same_dns_def)
  then show ?thesis
    unfolding udp_dns_answer_def
    by (intro dns_inv_same [OF _ wake_same_dns]) (auto split: option.split)
qed

lemma drain_inv: "dns_inv s R \<Longrightarrow> w < UDP_WORKER_COUNT \<Longrightarrow> dns_inv (udp_dns_drain w s) R"
  unfolding udp_dns_drain_def by (rule drain_jobs_inv) auto

section \<open>Parked frames\<close>

definition parked :: "udp_conn \<Rightarrow> int" where
  "parked u = int (udp_dns_pend_count (u_pend u) UDP_DNS_PEND_SLOTS)"

text \<open>Every deferred frame so far: still parked, replayed, lost with its session, or dropped.\<close>

definition frames_accounted :: "'a udp_scheme \<Rightarrow> int" where
  "frames_accounted s = (\<Sum>i < UDP_SLOT_COUNT. parked (g_udp_slots s i)) +
     g_dns_st_replay s + g_dns_st_lost s + g_dns_st_drop s"

definition pend_wf :: "'a udp_scheme \<Rightarrow> bool" where
  "pend_wf s \<longleftrightarrow> (\<forall>i. length (u_pend (g_udp_slots s i)) = UDP_DNS_PEND_SLOTS) \<and>
     (\<forall>w j. udp_list_head s w = Some j \<longrightarrow> j < UDP_SLOT_COUNT) \<and>
     (\<forall>i j. u_next (g_udp_slots s i) = Some j \<longrightarrow> j < UDP_SLOT_COUNT)"

lemma sum_slot_upd:
  fixes i N :: nat
  assumes "i < N"
  shows "(\<Sum>j < N. F ((g(i := x)) j)) = (\<Sum>j < N. F (g j)) - F (g i) + (F x :: int)"
proof -
  have "(\<Sum>j < N. F ((g(i := x)) j)) = F x + (\<Sum>j \<in> {..<N} - {i}. F ((g(i := x)) j))"
    using assms by (subst sum.remove [of _ i]) auto
  also have "(\<Sum>j \<in> {..<N} - {i}. F ((g(i := x)) j)) = (\<Sum>j \<in> {..<N} - {i}. F (g j))"
    by (rule sum.cong) auto
  also have "\<dots> = (\<Sum>j < N. F (g j)) - F (g i)" using assms by (simp add: sum.remove [of "{..<N}" i])
  finally show ?thesis by simp
qed

lemma filter_upd_count:
  "k < length ps \<Longrightarrow> int (length (filter P (ps[k := x]))) =
     int (length (filter P ps)) - (if P (ps ! k) then 1 else 0) + (if P x then 1 else 0)"
proof (induction ps arbitrary: k)
  case (Cons p ps)
  show ?case
  proof (cases k)
    case (Suc n)
    then show ?thesis using Cons.IH [of n] Cons.prems by (cases "P (ps ! n)"; cases "P x") auto
  qed simp
qed simp

lemma parked_upd:
  assumes "k < UDP_DNS_PEND_SLOTS" and "length (u_pend u) = UDP_DNS_PEND_SLOTS"
  shows "parked (u\<lparr>u_pend := (u_pend u)[k := p]\<rparr>) =
     parked u - (if p_used (u_pend u ! k) then 1 else 0) + (if p_used p then 1 else 0)"
  using assms filter_upd_count [of k "u_pend u" p_used p] by (simp add: parked_def udp_dns_pend_count_eq)

lemma upd_pend_accounted:
  assumes "pend_wf s" and "i < UDP_SLOT_COUNT" and "k < UDP_DNS_PEND_SLOTS"
  shows "frames_accounted (upd_pend i k f s) = frames_accounted s
     - (if p_used (u_pend (g_udp_slots s i) ! k) then 1 else 0)
     + (if p_used (f (u_pend (g_udp_slots s i) ! k)) then 1 else 0)"
    and "pend_wf (upd_pend i k f s)"
proof -
  have "(\<Sum>j < UDP_SLOT_COUNT. parked (g_udp_slots (upd_pend i k f s) j)) =
     (\<Sum>j < UDP_SLOT_COUNT. parked (g_udp_slots s j)) - parked (g_udp_slots s i) +
     parked ((g_udp_slots s i)\<lparr>u_pend := (u_pend (g_udp_slots s i))[k := f (u_pend (g_udp_slots s i) ! k)]\<rparr>)"
    using sum_slot_upd [OF assms(2), of parked] by (simp add: upd_pend_def)
  then show "frames_accounted (upd_pend i k f s) = frames_accounted s
     - (if p_used (u_pend (g_udp_slots s i) ! k) then 1 else 0)
     + (if p_used (f (u_pend (g_udp_slots s i) ! k)) then 1 else 0)"
    using assms by (simp add: frames_accounted_def parked_upd pend_wf_def) (simp add: upd_pend_def)
  show "pend_wf (upd_pend i k f s)" using assms(1) by (auto simp: pend_wf_def upd_pend_def)
qed

lemma flush_pend_accounted:
  assumes "pend_wf s" and "i < UDP_SLOT_COUNT" and "k < UDP_DNS_PEND_SLOTS"
  shows "frames_accounted (flush_pend host dst i s k) = frames_accounted s \<and> pend_wf (flush_pend host dst i s k)"
proof -
  let ?u = "g_udp_slots s i" and ?p = "u_pend (g_udp_slots s i) ! k"
  let ?sent = "udp_send_5g i (take (p_len ?p) (p_payload ?p)) dst s"
  define s1 where "s1 = (if u_closed ?u \<or> u_remote_udp_fd ?u < 0 then s\<lparr>g_dns_st_lost := g_dns_st_lost s + 1\<rparr>
     else ?sent\<lparr>g_dns_st_replay := g_dns_st_replay ?sent + 1\<rparr>)"
  have s1: "frames_accounted s1 = frames_accounted s + 1" "pend_wf s1" "g_udp_slots s1 = g_udp_slots s"
    using assms(1) by (auto simp: s1_def frames_accounted_def pend_wf_def)
  show ?thesis
  proof (cases "p_used ?p \<and> p_host ?p = host")
    case True
    then have "flush_pend host dst i s k = upd_pend i k (\<lambda>p. p\<lparr>p_used := False\<rparr>) s1"
      unfolding flush_pend_def Let_def s1_def by simp
    then show ?thesis using upd_pend_accounted [OF s1(2) assms(2,3), of "\<lambda>p. p\<lparr>p_used := False\<rparr>"] s1 True by simp
  next
    case False
    then show ?thesis using assms(1) by (auto simp: flush_pend_def Let_def)
  qed
qed

lemma drop_pend_accounted:
  assumes "pend_wf s" and "i < UDP_SLOT_COUNT" and "k < UDP_DNS_PEND_SLOTS"
  shows "frames_accounted (drop_pend host i s k) = frames_accounted s \<and> pend_wf (drop_pend host i s k)"
proof (cases "p_used (u_pend (g_udp_slots s i) ! k) \<and> p_host (u_pend (g_udp_slots s i) ! k) = host")
  case True
  let ?t = "upd_pend i k (\<lambda>p. p\<lparr>p_used := False\<rparr>) s"
  have "drop_pend host i s k = ?t\<lparr>g_dns_st_drop := g_dns_st_drop ?t + 1\<rparr>"
    using True by (simp add: drop_pend_def Let_def) (simp add: upd_pend_def)
  then show ?thesis
    using upd_pend_accounted [OF assms, of "\<lambda>p. p\<lparr>p_used := False\<rparr>"] True
    by (simp add: frames_accounted_def pend_wf_def)
next
  case False
  then show ?thesis using assms(1) by (auto simp: drop_pend_def Let_def)
qed

lemma foldl_accounted:
  assumes "pend_wf s" and "\<And>s k. pend_wf s \<Longrightarrow> k < UDP_DNS_PEND_SLOTS \<Longrightarrow>
      frames_accounted (f s k) = frames_accounted s \<and> pend_wf (f s k)"
    and "set ks \<subseteq> {..<UDP_DNS_PEND_SLOTS}"
  shows "frames_accounted (foldl f s ks) = frames_accounted s \<and> pend_wf (foldl f s ks)"
  using assms(1,3)
proof (induction ks arbitrary: s)
  case (Cons k ks)
  then show ?case using assms(2) [of s k] Cons.IH [of "f s k"] by auto
qed simp

lemma sess_walk_accounted:
  assumes "pend_wf s" and "\<And>j. cur = Some j \<Longrightarrow> j < UDP_SLOT_COUNT"
    and body: "\<And>i s. pend_wf s \<Longrightarrow> i < UDP_SLOT_COUNT \<Longrightarrow>
      frames_accounted (body i s) = frames_accounted s \<and> pend_wf (body i s)"
  shows "frames_accounted (sess_walk fuel body cur s) = frames_accounted s \<and> pend_wf (sess_walk fuel body cur s)"
  using assms(1,2)
proof (induction fuel arbitrary: cur s)
  case (Suc fuel)
  show ?case
  proof (cases cur)
    case (Some i)
    have b: "frames_accounted (body i s) = frames_accounted s" "pend_wf (body i s)"
      using body [OF Suc.prems(1)] Suc.prems(2) Some by auto
    have "\<And>j. u_next (g_udp_slots (body i s) i) = Some j \<Longrightarrow> j < UDP_SLOT_COUNT"
      using b(2) by (simp add: pend_wf_def)
    from Suc.IH [OF b(2) this] b(1) Some show ?thesis by (simp add: Let_def)
  qed (use Suc in simp)
qed simp

lemma flush_pending_accounted:
  assumes "pend_wf s"
  shows "frames_accounted (udp_dns_flush_pending w host dst s) = frames_accounted s \<and>
     pend_wf (udp_dns_flush_pending w host dst s)"
  unfolding udp_dns_flush_pending_def
proof (rule sess_walk_accounted [OF assms])
  show "udp_list_head s w = Some j \<Longrightarrow> j < UDP_SLOT_COUNT" for j using assms by (simp add: pend_wf_def)
  show "frames_accounted (if u_magic (g_udp_slots s i) \<noteq> UDP_CONN_MAGIC then s
        else foldl (flush_pend host dst i) s [0..<UDP_DNS_PEND_SLOTS]) = frames_accounted s \<and>
      pend_wf (if u_magic (g_udp_slots s i) \<noteq> UDP_CONN_MAGIC then s
        else foldl (flush_pend host dst i) s [0..<UDP_DNS_PEND_SLOTS])"
    if "pend_wf s" "i < UDP_SLOT_COUNT" for i s
  proof -
    have "frames_accounted (foldl (flush_pend host dst i) s [0..<UDP_DNS_PEND_SLOTS]) = frames_accounted s \<and>
       pend_wf (foldl (flush_pend host dst i) s [0..<UDP_DNS_PEND_SLOTS])"
      by (rule foldl_accounted [OF that(1) flush_pend_accounted [OF _ that(2)]]) auto
    then show ?thesis using that(1) by auto
  qed
qed

lemma drop_pending_accounted:
  assumes "pend_wf s"
  shows "frames_accounted (udp_dns_drop_pending w host s) = frames_accounted s \<and>
     pend_wf (udp_dns_drop_pending w host s)"
  unfolding udp_dns_drop_pending_def
proof (rule sess_walk_accounted [OF assms])
  show "udp_list_head s w = Some j \<Longrightarrow> j < UDP_SLOT_COUNT" for j using assms by (simp add: pend_wf_def)
  show "frames_accounted (if u_magic (g_udp_slots s i) \<noteq> UDP_CONN_MAGIC then s
        else foldl (drop_pend host i) s [0..<UDP_DNS_PEND_SLOTS]) = frames_accounted s \<and>
      pend_wf (if u_magic (g_udp_slots s i) \<noteq> UDP_CONN_MAGIC then s
        else foldl (drop_pend host i) s [0..<UDP_DNS_PEND_SLOTS])"
    if "pend_wf s" "i < UDP_SLOT_COUNT" for i s
  proof -
    have "frames_accounted (foldl (drop_pend host i) s [0..<UDP_DNS_PEND_SLOTS]) = frames_accounted s \<and>
       pend_wf (foldl (drop_pend host i) s [0..<UDP_DNS_PEND_SLOTS])"
      by (rule foldl_accounted [OF that(1) drop_pend_accounted [OF _ that(2)]]) auto
    then show ?thesis using that(1) by auto
  qed
qed

lemma upd_job_accounted [simp]:
  "frames_accounted (upd_job w k f s) = frames_accounted s" "pend_wf (upd_job w k f s) = pend_wf s"
  by (simp_all add: upd_job_def frames_accounted_def pend_wf_def)

lemma cache_put_accounted [simp]:
  "frames_accounted (dns_cache_put h d now s) = frames_accounted s" "pend_wf (dns_cache_put h d now s) = pend_wf s"
  by (simp_all add: dns_cache_put_def Let_def frames_accounted_def pend_wf_def)

lemma drain_job_accounted:
  assumes "pend_wf s"
  shows "frames_accounted (drain_job w now s k) = frames_accounted s \<and> pend_wf (drain_job w now s k)"
  using assms flush_pending_accounted [of "dns_cache_put h d now s" for h d] drop_pending_accounted [OF assms]
  by (auto simp: drain_job_def Let_def split: udp_dns_state.split option.split)

lemma drain_accounted:
  assumes "pend_wf s"
  shows "frames_accounted (udp_dns_drain w s) = frames_accounted s \<and> pend_wf (udp_dns_drain w s)"
  unfolding udp_dns_drain_def
  by (rule foldl_induct [of "\<lambda>t. frames_accounted t = frames_accounted s \<and> pend_wf t"])
    (use assms drain_job_accounted in auto)

lemma claim_job_frame:
  assumes "claim_job w host port s = (ji, t)"
  shows "g_udp_slots t = g_udp_slots s \<and> frames_accounted t = frames_accounted s \<and> pend_wf t = pend_wf s \<and>
     o_log t = o_log s"
  using assms
  by (auto simp: claim_job_def udp_dns_enqueue_def upd_job_def frames_accounted_def pend_wf_def Let_def
      split: option.splits if_splits)

lemma defer_accounted:
  assumes "pend_wf s" and "i < UDP_SLOT_COUNT"
  shows "frames_accounted (udp_dns_defer i host port payload s) = frames_accounted s + 1 \<and>
     pend_wf (udp_dns_defer i host port payload s)"
proof -
  obtain ji t where c: "claim_job (u_widx (g_udp_slots s i)) host port s = (ji, t)" by force
  note fr = claim_job_frame [OF c]
  define slot where "slot = (if ji \<noteq> None \<and> udp_dns_hold_ok (length payload)
    then udp_dns_pend_free_slot (u_pend (g_udp_slots t i)) UDP_DNS_PEND_SLOTS else None)"
  let ?f = "\<lambda>p. p\<lparr>p_host := str_bounded UDP_DNS_HOST_MAX host, p_port := take 2 port,
                  p_len := length payload, p_payload := payload, p_used := True\<rparr>"
  have d: "udp_dns_defer i host port payload s =
     (case slot of Some pi \<Rightarrow> upd_pend i pi ?f t | None \<Rightarrow> t\<lparr>g_dns_st_drop := g_dns_st_drop t + 1\<rparr>)"
    unfolding udp_dns_defer_def Let_def c prod.case slot_def by simp
  show ?thesis
  proof (cases slot)
    case None
    have "frames_accounted (t\<lparr>g_dns_st_drop := g_dns_st_drop t + 1\<rparr>) = frames_accounted t + 1"
      "pend_wf (t\<lparr>g_dns_st_drop := g_dns_st_drop t + 1\<rparr>) = pend_wf t"
      by (simp_all add: frames_accounted_def pend_wf_def)
    then show ?thesis using d fr assms(1) None by simp
  next
    case (Some pi)
    then have "pi < UDP_DNS_PEND_SLOTS" "\<not> p_used (u_pend (g_udp_slots t i) ! pi)"
      using udp_dns_pend_free_slot_Some [of "u_pend (g_udp_slots t i)"] by (auto simp: slot_def split: if_splits)
    then show ?thesis
      using upd_pend_accounted [of t i pi ?f] d Some fr assms by simp
  qed
qed

section \<open>The cache\<close>

lemma first_index_update:
  assumes "\<not> P (xs ! k)" and "\<not> P x"
  shows "first_index P (xs[k := x]) = first_index P xs"
  using assms
proof (induction xs arbitrary: k)
  case (Cons y ys)
  then show ?case by (cases k) auto
qed simp

lemma cache_scan_range:
  "slot \<in> set all \<Longrightarrow> set is \<subseteq> set all \<Longrightarrow> cache_scan c now slot is \<in> set all"
  by (induction c now slot "is" rule: cache_scan.induct) auto

text \<open>The chosen slot is free or expired when there is such a slot, and otherwise expires first.\<close>

lemma cache_scan_spec:
  assumes "\<forall>j \<in> done. cache_live now (c ! j) \<and> e_expire (c ! slot) \<le> e_expire (c ! j)"
    and "slot \<in> done \<or> (is \<noteq> [] \<and> hd is = slot)"
  shows "let k = cache_scan c now slot is in
     (\<exists>j \<in> set is. \<not> cache_live now (c ! j)) \<and> \<not> cache_live now (c ! k) \<or>
     (\<forall>j \<in> done \<union> set is. cache_live now (c ! j) \<and> e_expire (c ! k) \<le> e_expire (c ! j))"
  using assms
proof (induction c now slot "is" arbitrary: "done" rule: cache_scan.induct)
  case (2 c now slot i js)
  show ?case
  proof (cases "cache_live now (c ! i)")
    case False
    then show ?thesis by (auto simp: cache_live_def)
  next
    case True
    let ?slot = "if e_expire (c ! i) < e_expire (c ! slot) then i else slot"
    have "let k = cache_scan c now ?slot js in
       (\<exists>j \<in> set js. \<not> cache_live now (c ! j)) \<and> \<not> cache_live now (c ! k) \<or>
       (\<forall>j \<in> insert i done \<union> set js. cache_live now (c ! j) \<and> e_expire (c ! k) \<le> e_expire (c ! j))"
      by (rule "2.IH") (use True "2.prems" in \<open>auto simp: cache_live_def\<close>)
    moreover have "cache_scan c now slot (i # js) = cache_scan c now ?slot js"
      using True by (simp add: cache_live_def)
    ultimately show ?thesis by (auto simp: Let_def)
  qed
qed auto

definition cache_victim :: "'a udp_scheme \<Rightarrow> int \<Rightarrow> nat" where
  "cache_victim s now = cache_scan (g_dns_cache s) now 0 [0..<DNS_RESOLVE_CACHE_SLOTS]"

lemma cache_victim_range: "cache_victim s now < DNS_RESOLVE_CACHE_SLOTS"
  using cache_scan_range [of 0 "[0..<DNS_RESOLVE_CACHE_SLOTS]" "[0..<DNS_RESOLVE_CACHE_SLOTS]" "g_dns_cache s" now]
  by (simp add: cache_victim_def DNS_RESOLVE_CACHE_SLOTS_def)

lemma cache_victim_spec:
  "(\<exists>j < DNS_RESOLVE_CACHE_SLOTS. \<not> cache_live now (g_dns_cache s ! j)) \<and>
     \<not> cache_live now (g_dns_cache s ! cache_victim s now) \<or>
   (\<forall>j < DNS_RESOLVE_CACHE_SLOTS. cache_live now (g_dns_cache s ! j) \<and>
      e_expire (g_dns_cache s ! cache_victim s now) \<le> e_expire (g_dns_cache s ! j))"
proof -
  have ne: "[0..<DNS_RESOLVE_CACHE_SLOTS] \<noteq> [] \<and> hd [0..<DNS_RESOLVE_CACHE_SLOTS] = 0"
    by (simp add: DNS_RESOLVE_CACHE_SLOTS_def)
  show ?thesis
    using cache_scan_spec [of "{}" now "g_dns_cache s" 0 "[0..<DNS_RESOLVE_CACHE_SLOTS]"] ne
    by (auto simp: cache_victim_def Let_def Ball_def)
qed

lemma dns_cache_put_eq:
  "host \<noteq> [] \<Longrightarrow> dns_cache_put host sa now s = s\<lparr>g_dns_cache := (g_dns_cache s)[cache_victim s now :=
     \<lparr>e_host = str_bounded DNS_RESOLVE_HOST_MAX host, e_sa = sa, e_expire = now + DNS_RESOLVE_TTL_SEC, e_used = True\<rparr>]\<rparr>"
  by (simp add: dns_cache_put_def cache_victim_def Let_def)

text \<open>A fresh answer is found until it expires; with no other live entry for the name it is the one found.\<close>

lemma cache_put_hit:
  assumes len: "length (g_dns_cache s) = DNS_RESOLVE_CACHE_SLOTS" and h: "host \<noteq> []" "length host < DNS_RESOLVE_HOST_MAX"
    and t: "now \<le> t" "t < now + DNS_RESOLVE_TTL_SEC" and miss: "dns_cache_lookup host now s = None"
  shows "dns_cache_lookup host t (dns_cache_put host sa now s) = Some sa"
proof -
  let ?e = "\<lparr>e_host = str_bounded DNS_RESOLVE_HOST_MAX host, e_sa = sa, e_expire = now + DNS_RESOLVE_TTL_SEC, e_used = True\<rparr>"
  let ?v = "cache_victim s now" and ?P = "\<lambda>e. cache_live t e \<and> e_host e = host"
  let ?c = "(g_dns_cache s)[?v := ?e]"
  have v: "?v < length (g_dns_cache s)" using cache_victim_range len by metis
  have "\<not> ?P e" if "e \<in> set (g_dns_cache s)" for e
    using miss that h len t by (auto simp: dns_cache_lookup_def first_index_None cache_live_def)
  then have old: "\<not> ?P (g_dns_cache s ! j)" if "j < length (g_dns_cache s)" for j using that by simp
  have "first_index ?P ?c = Some ?v"
    unfolding first_index_Some using v old h t by (auto simp: cache_live_def nth_list_update)
  then show ?thesis using h len v by (simp add: dns_cache_lookup_def dns_cache_put_eq)
qed

text \<open>From its expiry on it is not found, and neither is anything older.\<close>

lemma cache_put_expires:
  assumes len: "length (g_dns_cache s) = DNS_RESOLVE_CACHE_SLOTS" and h: "host \<noteq> []"
    and t: "now + DNS_RESOLVE_TTL_SEC \<le> t" and miss: "dns_cache_lookup host now s = None"
  shows "dns_cache_lookup host t (dns_cache_put host sa now s) = None"
proof -
  define new where "new = \<lparr>e_host = str_bounded DNS_RESOLVE_HOST_MAX host, e_sa = sa, e_expire = now + DNS_RESOLVE_TTL_SEC, e_used = True\<rparr>"
  let ?P = "\<lambda>e. cache_live t e \<and> e_host e = host"
  have old: "\<not> ?P e" if "e \<in> set (g_dns_cache s)" for e
    using miss that h len t by (auto simp: dns_cache_lookup_def first_index_None cache_live_def DNS_RESOLVE_TTL_SEC_def)
  have n: "\<not> ?P new" using t by (simp add: cache_live_def new_def)
  have "\<not> ?P e" if "e \<in> set ((g_dns_cache s)[v := new])" for e v
  proof -
    have "e = new \<or> e \<in> set (g_dns_cache s)" using that set_update_subset_insert [of "g_dns_cache s" v new] by blast
    then show ?thesis using old n by auto
  qed
  then show ?thesis using h len by (simp add: dns_cache_lookup_def dns_cache_put_eq first_index_None new_def [symmetric])
qed

text \<open>While there is room, storing an answer leaves the answers for other names alone.\<close>

lemma cache_put_keeps:
  assumes len: "length (g_dns_cache s) = DNS_RESOLVE_CACHE_SLOTS"
    and room: "\<exists>j < DNS_RESOLVE_CACHE_SLOTS. \<not> cache_live now (g_dns_cache s ! j)"
    and h: "length host < DNS_RESOLVE_HOST_MAX" and other: "h \<noteq> host" and t: "now \<le> t"
  shows "dns_cache_lookup h t (dns_cache_put host sa now s) = dns_cache_lookup h t s"
proof (cases "host = [] \<or> h = []")
  case True
  then show ?thesis by (auto simp: dns_cache_put_def dns_cache_lookup_def)
next
  case False
  let ?e = "\<lparr>e_host = str_bounded DNS_RESOLVE_HOST_MAX host, e_sa = sa, e_expire = now + DNS_RESOLVE_TTL_SEC, e_used = True\<rparr>"
  let ?v = "cache_victim s now" and ?P = "\<lambda>e. cache_live t e \<and> e_host e = h"
  have v: "\<not> cache_live now (g_dns_cache s ! ?v)" using cache_victim_spec room by blast
  have f: "first_index ?P ((g_dns_cache s)[?v := ?e]) = first_index ?P (g_dns_cache s)"
    by (rule first_index_update) (use v t h other in \<open>auto simp: cache_live_def\<close>)
  have "i \<noteq> ?v" if "first_index ?P (g_dns_cache s) = Some i" for i
    using first_index_SomeD [OF that] v t by (auto simp: cache_live_def)
  then show ?thesis
    using False f len
    by (cases "first_index ?P (g_dns_cache s)") (auto simp: dns_cache_lookup_def dns_cache_put_eq)
qed

lemma flush_pend_cache: "g_dns_cache (flush_pend h d i s k) = g_dns_cache s \<and> o_now (flush_pend h d i s k) = o_now s"
proof -
  have "o_now (udp_send_5g i p d s) = o_now s" for p using udp_send_5g_form [of i p d s] by auto
  then show ?thesis by (simp add: flush_pend_def Let_def upd_pend_def)
qed

lemma flush_pending_cache:
  "g_dns_cache (udp_dns_flush_pending w h d s) = g_dns_cache s \<and> o_now (udp_dns_flush_pending w h d s) = o_now s"
  unfolding udp_dns_flush_pending_def
  by (rule sess_walk_induct [of "\<lambda>t. g_dns_cache t = g_dns_cache s \<and> o_now t = o_now s"])
    (auto intro!: foldl_induct [of "\<lambda>t. g_dns_cache t = g_dns_cache s \<and> o_now t = o_now s"]
      simp: flush_pend_cache)

section \<open>Properties\<close>

text \<open>
  The resolution subsystem as a state machine, with the requests the resolver threads hold.
  \<open>other\<close> stands for everything else the process does: it leaves the job tables and the ring alone.
\<close>

inductive dns_reach :: "udp \<Rightarrow> udp_dns_req list \<Rightarrow> bool" where
  start: "dns_reach (udp_dns_resolvers_start (udp_boot p4 p6)) []"
| park: "dns_reach s R \<Longrightarrow> u_widx (g_udp_slots s i) < UDP_WORKER_COUNT \<Longrightarrow> length host < UDP_DNS_HOST_MAX \<Longrightarrow>
    dns_reach (udp_dns_defer i host port payload s) R"
| dequeue: "dns_reach s R \<Longrightarrow> udp_dns_dequeue s = (Some r, t) \<Longrightarrow> dns_reach t (r # R)"
| answer: "dns_reach s (A @ r # B) \<Longrightarrow> dns_reach (udp_dns_answer r ans s) (A @ B)"
| drain: "dns_reach s R \<Longrightarrow> w < UDP_WORKER_COUNT \<Longrightarrow> dns_reach (udp_dns_drain w s) R"
| other: "dns_reach s R \<Longrightarrow> same_dns s t \<Longrightarrow> dns_reach t R"

lemma dns_inv_perm: "dns_inv s R \<Longrightarrow> distinct (map req_slot (dnsq s @ R')) \<Longrightarrow> set R' = set R \<Longrightarrow> dns_inv s R'"
  by (simp add: dns_inv_def)

lemma dns_reach_inv: "dns_reach s R \<Longrightarrow> dns_inv s R"
proof (induction rule: dns_reach.induct)
  case (start p4 p6)
  then show ?case
    by (auto simp: dns_inv_def dnsq_wf_def dnsq_def ring_wf_def ring_list_def udp_dns_resolvers_start_def
        UDP_DNS_QUEUE_MAX_def zero_job_def)
next
  case (answer s A r B ans)
  have "dns_inv s (r # A @ B)"
    by (rule dns_inv_perm [OF answer.IH]) (use answer.IH in \<open>auto simp: dns_inv_def\<close>)
  then show ?case by (rule udp_dns_answer_inv)
qed (auto intro: udp_dns_defer_inv udp_dns_dequeue_inv drain_inv dns_inv_same)

text \<open>
  C18. Every name resolution in flight is owned by exactly one request, which is either queued or
  with a resolver thread and names the same host; so each job slot is answered exactly once and
  is never left in flight or overwritten by the answer of an earlier use. A worker resolves a
  name at most once at a time, and at most \<open>UDP_DNS_QUEUE_MAX\<close> requests are queued.
\<close>

theorem dns_job_owned_once:
  assumes "dns_reach s R" and "w < UDP_WORKER_COUNT" and "k < UDP_DNS_JOB_COUNT"
    and "j_state (dns_jobs s w ! k) = UDP_DNS_INFLIGHT"
  shows "(\<exists>!r. r \<in> set (dnsq s @ R) \<and> req_slot r = (w, k)) \<and>
     (\<forall>r \<in> set (dnsq s @ R). req_slot r = (w, k) \<longrightarrow> rq_host r = j_host (dns_jobs s w ! k)) \<and>
     (\<forall>k' < UDP_DNS_JOB_COUNT. k' \<noteq> k \<longrightarrow> j_state (dns_jobs s w ! k') \<noteq> UDP_DNS_FREE \<longrightarrow>
        j_host (dns_jobs s w ! k) \<noteq> [] \<longrightarrow> j_host (dns_jobs s w ! k') \<noteq> j_host (dns_jobs s w ! k)) \<and>
     length (dnsq s) \<le> UDP_DNS_QUEUE_MAX"
proof -
  have inv: "dns_inv s R" by (rule dns_reach_inv [OF assms(1)])
  then have dist: "distinct (map req_slot (dnsq s @ R))" and mem: "(w, k) \<in> req_slot ` set (dnsq s @ R)"
    and wf: "dnsq_wf s" using assms(2-4) unfolding dns_inv_def by blast+
  have "inj_on req_slot (set (dnsq s @ R))" using dist unfolding distinct_map by blast
  with mem have "\<exists>!r. r \<in> set (dnsq s @ R) \<and> req_slot r = (w, k)"
    unfolding inj_on_def by (metis imageE)
  moreover have "\<forall>r \<in> set (dnsq s @ R). req_slot r = (w, k) \<longrightarrow> rq_host r = j_host (dns_jobs s w ! k)"
    using inv unfolding dns_inv_def req_slot_def by auto
  moreover have "\<forall>k' < UDP_DNS_JOB_COUNT. k' \<noteq> k \<longrightarrow> j_state (dns_jobs s w ! k') \<noteq> UDP_DNS_FREE \<longrightarrow>
        j_host (dns_jobs s w ! k) \<noteq> [] \<longrightarrow> j_host (dns_jobs s w ! k') \<noteq> j_host (dns_jobs s w ! k)"
    using inv assms(2-4) unfolding dns_inv_def by (metis udp_dns_state.distinct(1))
  ultimately show ?thesis using dns_ring.bounded [OF wf] by simp
qed

theorem dns_job_owned_once_witness:
  "\<exists>s R. dns_reach s R \<and> j_host (dns_jobs s 0 ! 0) = [97] \<and>
     (\<exists>!r. r \<in> set (dnsq s @ R) \<and> req_slot r = (0, 0))"
proof -
  let ?s = "udp_dns_resolvers_start (udp_boot (\<lambda>_. None) (\<lambda>_. None))"
  let ?t = "udp_dns_defer 0 [97] [0, 53] [1] ?s"
  have jobs: "dns_jobs ?s = (\<lambda>_. replicate UDP_DNS_JOB_COUNT zero_job)" "g_dns_q_count ?s = 0"
    by (simp_all add: udp_dns_resolvers_start_def)
  have f: "udp_dns_job_find (replicate UDP_DNS_JOB_COUNT zero_job) UDP_DNS_JOB_COUNT [97] = None"
    by (auto simp: udp_dns_job_find_def first_index_None zero_job_def)
  have a: "udp_dns_job_alloc (replicate UDP_DNS_JOB_COUNT zero_job) UDP_DNS_JOB_COUNT = Some 0"
    by (simp add: udp_dns_job_alloc_def first_index_Some zero_job_def UDP_DNS_JOB_COUNT_def)
  have w: "u_widx (g_udp_slots ?s i) = 0" for i by (simp add: udp_dns_resolvers_start_def zero_sess_def)
  have "j_state (dns_jobs ?t 0 ! 0) = UDP_DNS_INFLIGHT \<and> j_host (dns_jobs ?t 0 ! 0) = [97]"
    using f a jobs
    by (simp add: udp_dns_defer_def claim_job_def w udp_dns_enqueue_def UDP_DNS_QUEUE_MAX_def upd_job_def Let_def
        upd_pend_def UDP_DNS_JOB_COUNT_def str_bounded_def UDP_DNS_HOST_MAX_def split: option.split)
  moreover have reach: "dns_reach ?t []"
    by (rule dns_reach.park [OF dns_reach.start]) (simp_all add: w UDP_WORKER_COUNT_def UDP_DNS_HOST_MAX_def)
  moreover have "0 < UDP_WORKER_COUNT" "0 < UDP_DNS_JOB_COUNT"
    by (simp_all add: UDP_WORKER_COUNT_def UDP_DNS_JOB_COUNT_def)
  ultimately show ?thesis using dns_job_owned_once [OF reach, of 0 0] by blast
qed

text \<open>
  No deferred frame disappears silently. Deferring a frame adds exactly one to the frames
  parked, replayed, lost or dropped (parked when the job and a parking slot are there, counted as
  dropped otherwise), and collecting finished resolutions moves parked frames to exactly one of
  the counters without changing the total.
\<close>

theorem parked_frames_accounted:
  assumes "pend_wf s" and "i < UDP_SLOT_COUNT"
  shows "frames_accounted (udp_dns_defer i host port payload s) = frames_accounted s + 1 \<and>
     frames_accounted (udp_dns_drain w s) = frames_accounted s \<and>
     pend_wf (udp_dns_defer i host port payload s) \<and> pend_wf (udp_dns_drain w s)"
  using defer_accounted [OF assms] drain_accounted [OF assms(1)] by simp

theorem parked_frames_accounted_witness:
  "frames_accounted (udp_dns_defer 3 [97] [0, 53] [1, 2] (udp_boot (\<lambda>_. None) (\<lambda>_. None))) = 1"
proof -
  let ?s = "udp_boot (\<lambda>_. None) (\<lambda>_. None)"
  have wf: "pend_wf ?s" by (simp add: pend_wf_def zero_sess_def)
  have "frames_accounted ?s = 0"
    by (simp add: frames_accounted_def parked_def udp_dns_pend_count_eq zero_sess_def zero_pend_def UDP_DNS_PEND_SLOTS_def)
  then show ?thesis using parked_frames_accounted [OF wf, of 3] by (simp add: UDP_SLOT_COUNT_def)
qed

text \<open>
  C19. The DNS cache returns a stored address for exactly sixty seconds: after a miss and a store at
  time \<open>now\<close>, a lookup of that name at any later time gives the stored address before \<open>now + 60\<close>, and
  nothing at \<open>now + 60\<close> or later. A store replaces a free or expired entry while there is one, so
  that no live answer for another name is lost at any time, and replaces the entry that expires first
  when all are live.
\<close>

theorem dns_cache_correct:
  assumes "length (g_dns_cache s) = DNS_RESOLVE_CACHE_SLOTS" and "host \<noteq> []" and "length host < DNS_RESOLVE_HOST_MAX"
    and "now \<le> t" and "dns_cache_lookup host now s = None"
  shows "dns_cache_lookup host t (dns_cache_put host sa now s) = (if t < now + 60 then Some sa else None) \<and>
     ((\<exists>j < DNS_RESOLVE_CACHE_SLOTS. \<not> cache_live now (g_dns_cache s ! j)) \<longrightarrow>
        (\<forall>h. h \<noteq> host \<longrightarrow> dns_cache_lookup h t (dns_cache_put host sa now s) = dns_cache_lookup h t s)) \<and>
     ((\<forall>j < DNS_RESOLVE_CACHE_SLOTS. cache_live now (g_dns_cache s ! j)) \<longrightarrow>
        (\<forall>j < DNS_RESOLVE_CACHE_SLOTS. e_expire (g_dns_cache s ! cache_victim s now) \<le> e_expire (g_dns_cache s ! j)))"
  using cache_put_hit [OF assms(1-4) _ assms(5), of sa] cache_put_expires [OF assms(1,2) _ assms(5), of t sa]
    cache_put_keeps [OF assms(1) _ assms(3) _ assms(4), of _ sa] cache_victim_spec [of now s] assms(4)
  by (auto simp: DNS_RESOLVE_TTL_SEC_def)

theorem dns_cache_correct_witness:
  "dns_cache_lookup [97] 59 (dns_cache_put [97] zero_sockaddr 0 (udp_boot (\<lambda>_. None) (\<lambda>_. None))) = Some zero_sockaddr \<and>
   dns_cache_lookup [97] 60 (dns_cache_put [97] zero_sockaddr 0 (udp_boot (\<lambda>_. None) (\<lambda>_. None))) = None"
proof -
  let ?s = "udp_boot (\<lambda>_. None) (\<lambda>_. None)"
  have "dns_cache_lookup [97] 0 ?s = None"
    by (auto simp: dns_cache_lookup_def first_index_None cache_live_def)
  then show ?thesis
    using dns_cache_correct [of ?s "[97]" 0 59 zero_sockaddr] dns_cache_correct [of ?s "[97]" 0 60 zero_sockaddr]
    by (simp add: DNS_RESOLVE_HOST_MAX_def)
qed

text \<open>
  C21. Once a name is resolved, every frame for that name goes to the port of the frame that
  started the resolution: within the cache's sixty seconds a frame addressed to another port is
  sent to the first one, because the cache entry holds address and port under the name alone.
\<close>

theorem cached_name_keeps_first_port:
  assumes "length (g_dns_cache s) = DNS_RESOLVE_CACHE_SLOTS"
    and "k < length (dns_jobs s w)" and "j_state (dns_jobs s w ! k) = UDP_DNS_DONE_OK" and "j_host (dns_jobs s w ! k) = host"
    and "sockaddr_from_ip_port (j_ip (dns_jobs s w ! k)) (j_port (dns_jobs s w ! k)) s = Some dst"
    and "dns_cache_lookup host now s = None" and "o_now s = now"
    and "0 \<notin> set host" and "host \<noteq> []" and "length host < UDP_DNS_HOST_MAX"
    and "t = drain_job w now s k"
  shows "udp_route_frame i SOCKS5_ATYP_DOMAIN (of_nat (length host) # host @ rest) port payload t =
     udp_send_5g i payload dst t"
proof -
  let ?p = "dns_cache_put host dst now s"
  have t: "t = upd_job w k (\<lambda>j. j\<lparr>j_state := UDP_DNS_FREE\<rparr>) (udp_dns_flush_pending w host dst ?p)"
    using assms(3-5,11) by (simp add: drain_job_def Let_def)
  have same: "g_dns_cache t = g_dns_cache ?p \<and> o_now t = o_now ?p"
    using flush_pending_cache [of w host dst ?p] by (simp add: t upd_job_def)
  have "dns_cache_lookup host (o_now t) t = Some dst"
    using cache_put_hit [OF assms(1,9) _ _ _ assms(6), of now dst] same assms(7,10)
    by (simp add: dns_cache_lookup_def DNS_RESOLVE_HOST_MAX_def UDP_DNS_HOST_MAX_def DNS_RESOLVE_TTL_SEC_def
        dns_cache_put_eq assms(9))
  moreover have "unat (of_nat (length host) :: byte) = length host"
    using assms(10) by (simp add: unat_of_nat UDP_DNS_HOST_MAX_def)
  ultimately show ?thesis
    using assms(8-10) by (simp add: udp_route_frame_def)
qed

text \<open>A resolved name in a fresh process: \<open>a\<close> was asked for port 53 and resolved to 10.0.0.1.\<close>

definition resolved_example :: udp where
  "resolved_example = (udp_boot (\<lambda>_. Some [10, 0, 0, 1]) (\<lambda>_. None))
     \<lparr>dns_jobs := (\<lambda>_. [\<lparr>j_state = UDP_DNS_DONE_OK, j_host = [97], j_port = [0, 53], j_ip = [49]\<rparr>]),
      g_udp_slots := (\<lambda>_. zero_sess\<lparr>u_remote_udp_fd := 9\<rparr>)\<rparr>"

theorem cached_name_keeps_first_port_witness:
  "o_log (udp_route_frame 0 SOCKS5_ATYP_DOMAIN [1, 97] [1, 187] [42] (drain_job 0 0 resolved_example 0)) =
     [SENDTO 9 [42] \<lparr>sa_family = AF_INET, sa_addr = [10, 0, 0, 1], sa_port = [0, 53]\<rparr>]"
proof -
  let ?s = resolved_example and ?dst = "\<lparr>sa_family = AF_INET, sa_addr = [10, 0, 0, 1], sa_port = [0, 53]\<rparr>"
  let ?t = "drain_job 0 0 ?s 0"
  have t: "?t = upd_job 0 0 (\<lambda>j. j\<lparr>j_state := UDP_DNS_FREE\<rparr>) (dns_cache_put [97] ?dst 0 ?s)"
    by (simp add: drain_job_def resolved_example_def sockaddr_from_ip_port_def udp_dns_flush_pending_def
        dns_cache_put_def Let_def)
  have "udp_route_frame 0 SOCKS5_ATYP_DOMAIN (of_nat (length [97 :: byte]) # [97] @ []) [1, 187] [42] ?t =
      udp_send_5g 0 [42] ?dst ?t"
    by (rule cached_name_keeps_first_port [where s = ?s and w = 0 and k = 0 and now = 0])
      (auto simp: resolved_example_def sockaddr_from_ip_port_def dns_cache_lookup_def first_index_None cache_live_def
        UDP_DNS_HOST_MAX_def)
  moreover have "o_log (udp_send_5g 0 [42] ?dst ?t) = [SENDTO 9 [42] ?dst]"
    unfolding t by (simp add: udp_send_5g_def Let_def os_sendto_def upd_job_def dns_cache_put_eq resolved_example_def)
  ultimately show ?thesis by simp
qed

end
