(* ===== verification/Udp_Session.thy ===== *)
theory Udp_Session
  imports Udp_Resolve_Props
begin

unbundle bit_operations_syntax

text \<open>
  The event handlers of a UDP session in \<open>simple-socks5.c\<close>, for both modes: standard UDP
  ASSOCIATE (0x03: control connection, LAN datagram socket, 5G datagram socket) and UDP-in-TCP
  (0x04: length-prefixed frames on the TCP connection, 5G datagram socket). A handler's result
  \<open>True\<close> is the C result -1, close the session. Receive loops end because each pass takes
  something out of the kernel's queue.
\<close>

section \<open>Small pieces\<close>

definition set_close :: "udp_close_kind \<Rightarrow> int \<Rightarrow> udp_conn \<Rightarrow> udp_conn" where
  "set_close kind e u = u\<lparr>u_close_kind := kind, u_close_reason := True, u_close_errno := e\<rparr>"

text \<open>A write into a buffer at an offset; a gap before it that was never written reads as zero.\<close>

definition buf_put :: "byte list option \<Rightarrow> nat \<Rightarrow> byte list \<Rightarrow> byte list option" where
  "buf_put buf off d =
     map_option (\<lambda>b. take off (b @ replicate (off - length b) 0) @ d @ drop (off + length d) b) buf"

definition buf_of :: "byte list option \<Rightarrow> byte list" where
  "buf_of b = (case b of None \<Rightarrow> [] | Some x \<Rightarrow> x)"

definition v4mapped :: "byte list \<Rightarrow> bool" where
  "v4mapped a \<longleftrightarrow> take 12 a = replicate 10 0 @ [0xff, 0xff]"

text \<open>Address family and address bytes for the header of a reply from \<open>src\<close>.\<close>

definition src_addr :: "sockaddr \<Rightarrow> bool \<times> byte list" where
  "src_addr src =
     (if sa_family src = AF_INET then (False, sa_addr src)
      else if v4mapped (sa_addr src) then (False, drop 12 (sa_addr src))
      else (True, sa_addr src))"

definition udp_header :: "sockaddr \<Rightarrow> byte list" where
  "udp_header src = socks5_udp_encode (fst (src_addr src)) (snd (src_addr src)) (sa_port src)"

section \<open>Sending frames to the client (0x04)\<close>

lemma os_send_slots: "os_send s f bs = (r, s') \<Longrightarrow> g_udp_slots s' = g_udp_slots s"
  by (cases r) (auto dest: os_send_form)

function (sequential) udp_flush_out :: "nat \<Rightarrow> 'a udp_scheme \<Rightarrow> bool \<times> 'a udp_scheme" where
  "udp_flush_out i s =
     (let u = g_udp_slots s i in
      if u_out_off u < u_out_len u then
        (case os_send s (u_client_fd u) (take (u_out_len u - u_out_off u) (drop (u_out_off u) (buf_of (u_out_buf u)))) of
           ((n, e), s1) \<Rightarrow>
             if n > 0 then udp_flush_out i (upd_sess i (\<lambda>u. u\<lparr>u_out_off := u_out_off u + nat n\<rparr>) s1)
             else if would_block e then (False, s1)
             else (True, upd_sess i (set_close UDP_CLOSE_IO e) s1))
      else (False, upd_sess i (\<lambda>u. u\<lparr>u_out_len := 0, u_out_off := 0\<rparr>) s))"
  by pat_completeness auto
termination
  by (relation "measure (\<lambda>(i, s). u_out_len (g_udp_slots s i) - u_out_off (g_udp_slots s i))")
    (auto dest!: os_send_slots [OF sym])

declare udp_flush_out.simps [simp del]

section \<open>Control connection (0x03)\<close>

definition udp_ctrl_event :: "nat \<Rightarrow> u32 \<Rightarrow> 'a udp_scheme \<Rightarrow> bool \<times> 'a udp_scheme" where
  "udp_ctrl_event i ev s =
     (if ev AND (EPOLLERR OR EPOLLHUP OR EPOLLRDHUP) \<noteq> 0
      then (True, upd_sess i (set_close UDP_CLOSE_PEER 0) s)
      else if ev AND EPOLLIN \<noteq> 0 then
        (case os_recv s (u_client_fd (g_udp_slots s i)) 256 of
           ((n, d, e), s1) \<Rightarrow>
             if n = 0 then (True, upd_sess i (set_close UDP_CLOSE_PEER 0) s1)
             else if n < 0 \<and> \<not> would_block e then (True, upd_sess i (set_close UDP_CLOSE_IO e) s1)
             else (False, s1))
      else (False, s))"

section \<open>LAN datagrams (0x03)\<close>

text \<open>What happens to one received datagram.\<close>

definition local_datagram :: "nat \<Rightarrow> byte list \<Rightarrow> sockaddr \<Rightarrow> 'a udp_scheme \<Rightarrow> 'a udp_scheme" where
  "local_datagram i d src s =
     (let s1 = upd_sess i (\<lambda>u. u\<lparr>u_in_buf := buf_put (u_in_buf u) 0 d\<rparr>) s;
          u = g_udp_slots s1 i; buf = buf_of (u_in_buf u); r = length d
      in if r \<le> 3 then s1
         else case socks5_udp_parse buf r of
           None \<Rightarrow> s1
         | Some h \<Rightarrow>
             if \<not> same_ip src (u_peer_ss u) then s1
             else let s2 = upd_sess i (\<lambda>u. u\<lparr>u_client_src := Some src\<rparr>) s1
                  in if r > hdr_len h
                     then udp_route_frame i (hdr_atyp h) (drop (hdr_addr h) buf) (hdr_port h)
                            (take (r - hdr_len h) (drop (hdr_len h) buf)) s2
                     else s2)"

section \<open>Frame of routing\<close>

text \<open>Routing a frame touches parked frames, the job tables and counters, and sends datagrams.\<close>

definition routed :: "'a udp_scheme \<Rightarrow> 'a udp_scheme \<Rightarrow> bool" where
  "routed s t \<longleftrightarrow>
     (\<forall>j. \<exists>p. g_udp_slots t j = (g_udp_slots s j)\<lparr>u_pend := p\<rparr>) \<and>
     o_recv t = o_recv s \<and> o_send t = o_send s \<and> o_dgram t = o_dgram s \<and> o_now t = o_now s \<and>
     udp_list_head t = udp_list_head s \<and> g_udp_slot_state t = g_udp_slot_state s \<and>
     g_udp_rx_bytes t = g_udp_rx_bytes s \<and> g_conn_count t = g_conn_count s \<and> uw_epoll_fd t = uw_epoll_fd s \<and>
     uw_stopping t = uw_stopping s \<and> g_udp_free_slots t = g_udp_free_slots s \<and>
     g_udp_free_slot_top t = g_udp_free_slot_top s"

lemma udp_conn_pend_triv: "\<exists>p. u = u\<lparr>u_pend := p\<rparr>"
  by (rule exI [of _ "u_pend u"]) simp

lemma routed_refl: "routed s s"
  by (simp add: routed_def udp_conn_pend_triv)

lemma routed_send: "routed s (udp_send_5g i p dst s)"
  using udp_send_5g_form [of i p dst s] by (auto simp: routed_def intro: udp_conn_pend_triv)

lemma routed_upd_pend:
  assumes "routed s t"
  shows "routed s (upd_pend i k f t)"
proof -
  have "\<exists>p. g_udp_slots (upd_pend i k f t) j = (g_udp_slots s j)\<lparr>u_pend := p\<rparr>" for j
  proof -
    obtain p where "g_udp_slots t j = (g_udp_slots s j)\<lparr>u_pend := p\<rparr>" using assms by (auto simp: routed_def)
    then show ?thesis by (cases "j = i") (auto simp: upd_pend_def)
  qed
  then show ?thesis using assms by (simp add: routed_def) (simp add: upd_pend_def upd_sess_def)
qed

lemma routed_route: "routed s (udp_route_frame i atyp addr port payload s)"
proof -
  have claim: "claim_job w host port s = (ji, t) \<Longrightarrow> routed s t" for w host ji t
    by (auto simp: claim_job_def udp_dns_enqueue_def upd_job_def Let_def routed_def intro: udp_conn_pend_triv
        split: option.splits if_splits)
  have drop: "routed s t \<Longrightarrow> routed s (t\<lparr>g_dns_st_drop := n\<rparr>)" for t n
    by (simp add: routed_def)
  have "routed s (udp_dns_defer i host port payload s)" for host
    unfolding udp_dns_defer_def Let_def
    by (auto split: prod.split option.split dest!: claim intro: routed_upd_pend drop)
  then show ?thesis
    unfolding udp_route_frame_def Let_def by (auto split: option.split intro: routed_refl routed_send)
qed

lemma routed_fds:
  assumes "routed s t"
  shows "u_client_fd (g_udp_slots t j) = u_client_fd (g_udp_slots s j) \<and>
     u_local_udp_fd (g_udp_slots t j) = u_local_udp_fd (g_udp_slots s j) \<and>
     u_remote_udp_fd (g_udp_slots t j) = u_remote_udp_fd (g_udp_slots s j) \<and>
     u_peer_ss (g_udp_slots t j) = u_peer_ss (g_udp_slots s j) \<and>
     u_client_src (g_udp_slots t j) = u_client_src (g_udp_slots s j)"
proof -
  from assms obtain p where "g_udp_slots t j = (g_udp_slots s j)\<lparr>u_pend := p\<rparr>" by (auto simp: routed_def)
  then show ?thesis by simp
qed

lemma route_frame_frame [simp]:
  "o_dgram (udp_route_frame i a b c e t) = o_dgram t" "o_recv (udp_route_frame i a b c e t) = o_recv t"
  "o_send (udp_route_frame i a b c e t) = o_send t" "o_now (udp_route_frame i a b c e t) = o_now t"
  "u_client_fd (g_udp_slots (udp_route_frame i a b c e t) j) = u_client_fd (g_udp_slots t j)"
  "u_local_udp_fd (g_udp_slots (udp_route_frame i a b c e t) j) = u_local_udp_fd (g_udp_slots t j)"
  "u_remote_udp_fd (g_udp_slots (udp_route_frame i a b c e t) j) = u_remote_udp_fd (g_udp_slots t j)"
  "u_peer_ss (g_udp_slots (udp_route_frame i a b c e t) j) = u_peer_ss (g_udp_slots t j)"
  "u_client_src (g_udp_slots (udp_route_frame i a b c e t) j) = u_client_src (g_udp_slots t j)"
  using routed_route [of t i a b c e] routed_fds [OF routed_route [of t i a b c e], of j]
  by (auto simp: routed_def)

lemma local_datagram_frame:
  "o_dgram (local_datagram i d src s) = o_dgram s"
  "u_local_udp_fd (g_udp_slots (local_datagram i d src s) i) = u_local_udp_fd (g_udp_slots s i)"
  by (auto simp: local_datagram_def Let_def split: option.split)

lemma os_recvfrom_form:
  assumes "os_recvfrom s f n = ((r, d, a, e), s')"
  shows "\<exists>q. s' = s\<lparr>o_dgram := (o_dgram s)(f := q)\<rparr> \<and>
     (r \<ge> 0 \<longrightarrow> r = int (length d) \<and> length d \<le> n \<and> Suc (length q) = length (o_dgram s f))"
  using assms
  by (cases "o_dgram s f")
    (auto simp: os_recvfrom_def fun_upd_idem intro: exI [of _ "[]"] split: dres.splits)

function (sequential) udp_local_event :: "nat \<Rightarrow> 'a udp_scheme \<Rightarrow> bool \<times> 'a udp_scheme" where
  "udp_local_event i s =
     (case os_recvfrom s (u_local_udp_fd (g_udp_slots s i)) BUFFER_SIZE of
        ((r, d, src, e), s1) \<Rightarrow>
          if r < 0 then
            (if would_block e then (False, s1)
             else (True, upd_sess i (set_close UDP_CLOSE_IO e) s1))
          else udp_local_event i (local_datagram i d src s1))"
  by pat_completeness auto
termination
  by (relation "measure (\<lambda>(i, s). length (o_dgram s (u_local_udp_fd (g_udp_slots s i))))")
    (auto dest!: os_recvfrom_form [OF sym] simp: local_datagram_frame)

declare udp_local_event.simps [simp del]

section \<open>Datagrams from the 5G side\<close>

definition count_rx :: "nat \<Rightarrow> int \<Rightarrow> 'a udp_scheme \<Rightarrow> 'a udp_scheme" where
  "count_rx i r s =
     (let w = u_widx (g_udp_slots s i) in s\<lparr>g_udp_rx_bytes := (g_udp_rx_bytes s)(w := g_udp_rx_bytes s w + r)\<rparr>)"

text \<open>0x03: the datagram is read behind 22 reserved bytes, the header is written in front of it.\<close>

definition remote_datagram03 :: "nat \<Rightarrow> byte list \<Rightarrow> sockaddr \<Rightarrow> 'a udp_scheme \<Rightarrow> 'a udp_scheme" where
  "remote_datagram03 i d src s =
     (let s1 = upd_sess i (\<lambda>u. u\<lparr>u_in_buf := buf_put (u_in_buf u) 22 d\<rparr>) s in
      if d = [] then s1
      else
        let s2 = count_rx i (int (length d)) s1 in
        case u_client_src (g_udp_slots s2 i) of
          None \<Rightarrow> s2
        | Some dst \<Rightarrow>
            let hdr = udp_header src;
                start = 22 - length hdr;
                s3 = upd_sess i (\<lambda>u. u\<lparr>u_in_buf := buf_put (u_in_buf u) start hdr\<rparr>) s2;
                u = g_udp_slots s3 i
            in snd (os_sendto s3 (u_local_udp_fd u)
                      (take (length d + length hdr) (drop start (buf_of (u_in_buf u)))) dst))"

text \<open>0x04: two bytes of length in front, and the frame is moved to the start of the buffer.\<close>

definition remote_datagram04 :: "nat \<Rightarrow> byte list \<Rightarrow> sockaddr \<Rightarrow> 'a udp_scheme \<Rightarrow> bool \<times> 'a udp_scheme" where
  "remote_datagram04 i d src s =
     (let s1 = upd_sess i (\<lambda>u. u\<lparr>u_out_buf := buf_put (u_out_buf u) 24 d\<rparr>) s in
      if d = [] then (False, s1)
      else
        let s2 = count_rx i (int (length d)) s1;
            hdr = udp_header src;
            start = 24 - length hdr;
            dlen = length d + length hdr;
            s3 = upd_sess i (\<lambda>u. u\<lparr>u_out_buf := buf_put (u_out_buf u) start hdr\<rparr>) s2;
            s4 = upd_sess i (\<lambda>u. u\<lparr>u_out_buf := buf_put (u_out_buf u) (start - 2)
                   [of_nat (dlen div 256), of_nat (dlen mod 256)], u_out_len := dlen + 2, u_out_off := 0\<rparr>) s3;
            s5 = (if start - 2 \<noteq> 0
                  then upd_sess i (\<lambda>u. u\<lparr>u_out_buf := buf_put (u_out_buf u) 0
                         (take (u_out_len u) (drop (start - 2) (buf_of (u_out_buf u))))\<rparr>) s4
                  else s4)
        in udp_flush_out i s5)"

lemma udp_flush_out_frame:
  assumes "udp_flush_out i s = (b, t)"
  shows "o_dgram t = o_dgram s \<and> o_recv t = o_recv s \<and>
     u_remote_udp_fd (g_udp_slots t i) = u_remote_udp_fd (g_udp_slots s i) \<and>
     u_local_udp_fd (g_udp_slots t i) = u_local_udp_fd (g_udp_slots s i) \<and>
     u_client_fd (g_udp_slots t i) = u_client_fd (g_udp_slots s i)"
  using assms
proof (induction i s arbitrary: b t rule: udp_flush_out.induct)
  case (1 i s)
  let ?u = "g_udp_slots s i"
  let ?bs = "take (u_out_len ?u - u_out_off ?u) (drop (u_out_off ?u) (buf_of (u_out_buf ?u)))"
  show ?case
  proof (cases "u_out_off ?u < u_out_len ?u")
    case False
    then show ?thesis using "1.prems" by (auto simp: udp_flush_out.simps [of i s] Let_def)
  next
    case True
    obtain n e s1 where os: "os_send s (u_client_fd ?u) ?bs = ((n, e), s1)" by (metis prod.exhaust)
    from os_send_form [OF os] have s1: "o_dgram s1 = o_dgram s" "o_recv s1 = o_recv s" "g_udp_slots s1 = g_udp_slots s"
      by auto
    show ?thesis
    proof (cases "n > 0")
      case n: True
      with "1.prems" True os have "udp_flush_out i (upd_sess i (\<lambda>u. u\<lparr>u_out_off := u_out_off u + nat n\<rparr>) s1) = (b, t)"
        by (simp add: udp_flush_out.simps [of i s] Let_def)
      from "1.IH" [OF refl True os [symmetric] refl n this] s1 show ?thesis by simp
    next
      case False
      then have "t = s1 \<or> t = upd_sess i (set_close UDP_CLOSE_IO e) s1"
        using "1.prems" True os by (auto simp: udp_flush_out.simps [of i s] Let_def split: if_splits)
      then show ?thesis using s1 by (auto simp: set_close_def)
    qed
  qed
qed

lemma os_sendto_slots: "os_sendto s f bs a = (r, t) \<Longrightarrow> g_udp_slots t = g_udp_slots s \<and> o_dgram t = o_dgram s"
  by (cases r) (auto dest: os_sendto_form)

lemma os_sendto_snd [simp]:
  "g_udp_slots (snd (os_sendto s f bs a)) = g_udp_slots s" "o_dgram (snd (os_sendto s f bs a)) = o_dgram s"
  using os_sendto_slots [of s f bs a] by (metis prod.collapse)+

lemma count_rx_simps [simp]:
  "g_udp_slots (count_rx i r s) = g_udp_slots s" "o_dgram (count_rx i r s) = o_dgram s"
  "o_recv (count_rx i r s) = o_recv s" "o_log (count_rx i r s) = o_log s" "o_send (count_rx i r s) = o_send s"
  "o_sendto (count_rx i r s) = o_sendto s"
  by (simp_all add: count_rx_def Let_def)

lemma remote_datagram03_frame:
  "o_dgram (remote_datagram03 i d src s) = o_dgram s"
  "u_remote_udp_fd (g_udp_slots (remote_datagram03 i d src s) i) = u_remote_udp_fd (g_udp_slots s i)"
  by (auto simp: remote_datagram03_def Let_def split: option.split)

lemma remote_datagram04_frame:
  assumes "remote_datagram04 i d src s = (b, t)"
  shows "o_dgram t = o_dgram s \<and> u_remote_udp_fd (g_udp_slots t i) = u_remote_udp_fd (g_udp_slots s i)"
  using assms by (auto simp: remote_datagram04_def Let_def dest!: udp_flush_out_frame split: if_splits)

function (sequential) udp_remote03 :: "nat \<Rightarrow> 'a udp_scheme \<Rightarrow> bool \<times> 'a udp_scheme" where
  "udp_remote03 i s =
     (case os_recvfrom s (u_remote_udp_fd (g_udp_slots s i)) (BUFFER_SIZE - 22) of
        ((r, d, src, e), s1) \<Rightarrow>
          if r < 0 then
            (if would_block e then (False, s1)
             else (True, upd_sess i (set_close UDP_CLOSE_IO e) s1))
          else udp_remote03 i (remote_datagram03 i d src s1))"
  by pat_completeness auto
termination
  by (relation "measure (\<lambda>(i, s). length (o_dgram s (u_remote_udp_fd (g_udp_slots s i))))")
    (auto dest!: os_recvfrom_form [OF sym] simp: remote_datagram03_frame)

function (sequential) udp_remote04 :: "nat \<Rightarrow> 'a udp_scheme \<Rightarrow> bool \<times> 'a udp_scheme" where
  "udp_remote04 i s =
     (if u_out_len (g_udp_slots s i) > 0 then (False, s)
      else case os_recvfrom s (u_remote_udp_fd (g_udp_slots s i)) (BUFFER_SIZE - 24) of
        ((r, d, src, e), s1) \<Rightarrow>
          if r < 0 then
            (if would_block e then (False, s1)
             else (True, upd_sess i (set_close UDP_CLOSE_IO e) s1))
          else case remote_datagram04 i d src s1 of
            (True, s2) \<Rightarrow> (True, s2)
          | (False, s2) \<Rightarrow> udp_remote04 i s2)"
  by pat_completeness auto
termination
  by (relation "measure (\<lambda>(i, s). length (o_dgram s (u_remote_udp_fd (g_udp_slots s i))))")
    (auto dest!: os_recvfrom_form [OF sym] remote_datagram04_frame [OF sym])

declare udp_remote03.simps [simp del] udp_remote04.simps [simp del]

definition udp_remote_event :: "nat \<Rightarrow> 'a udp_scheme \<Rightarrow> bool \<times> 'a udp_scheme" where
  "udp_remote_event i s =
     (if u_local_udp_fd (g_udp_slots s i) \<ge> 0 then udp_remote03 i s else udp_remote04 i s)"

section \<open>Frames from the client (0x04)\<close>

text \<open>A complete frame is parsed and routed, then the reassembly state is cleared.\<close>

definition deliver_frame :: "nat \<Rightarrow> 'a udp_scheme \<Rightarrow> 'a udp_scheme" where
  "deliver_frame i s =
     (let u = g_udp_slots s i; buf = buf_of (u_in_buf u); n = u_frame_expect u;
          s1 = (case socks5_udp_parse buf n of
                  None \<Rightarrow> s
                | Some h \<Rightarrow>
                    if n > hdr_len h
                    then udp_route_frame i (hdr_atyp h) (drop (hdr_addr h) buf) (hdr_port h)
                           (take (n - hdr_len h) (drop (hdr_len h) buf)) s
                    else s)
      in upd_sess i (\<lambda>u. u\<lparr>u_len_got := 0, u_frame_expect := 0, u_frame_got := 0, u_last_active := o_now s\<rparr>) s1)"

lemma deliver_frame_frame [simp]:
  "o_recv (deliver_frame i s) = o_recv s"
  "u_client_fd (g_udp_slots (deliver_frame i s) i) = u_client_fd (g_udp_slots s i)"
  "u_len_got (g_udp_slots (deliver_frame i s) i) = 0"
  "u_frame_got (g_udp_slots (deliver_frame i s) i) = 0"
  "u_frame_expect (g_udp_slots (deliver_frame i s) i) = 0"
  by (auto simp: deliver_frame_def Let_def split: option.split)

text \<open>
  One \<open>recv\<close> of the reassembly loop: result is whether the loop goes on (\<open>None\<close>) or returns.
  The length is checked once, when its second byte arrives.
\<close>

definition recv_length :: "nat \<Rightarrow> 'a udp_scheme \<Rightarrow> bool option \<times> 'a udp_scheme" where
  "recv_length i s =
     (let u = g_udp_slots s i in
      case os_recv s (u_client_fd u) (2 - u_len_got u) of
        ((n, d, e), s1) \<Rightarrow>
          if n > 0 then
            (let s2 = upd_sess i (\<lambda>u. u\<lparr>u_len_bytes := buf_write (u_len_bytes u) (u_len_got u) d,
                                     u_len_got := u_len_got u + nat n\<rparr>) s1;
                 v = g_udp_slots s2 i
             in if u_len_got v < 2 then (None, s2)
                else let dlen = socks5_udp_tcp_frame_len (u_len_bytes v) (int BUFFER_SIZE)
                     in if dlen < 0 then (Some True, upd_sess i (set_close UDP_CLOSE_PROTO 0) s2)
                        else (None, upd_sess i (\<lambda>u. u\<lparr>u_frame_expect := nat dlen, u_frame_got := 0\<rparr>) s2))
          else if n = 0 then (Some True, upd_sess i (set_close UDP_CLOSE_PEER 0) s1)
          else if would_block e then (Some False, s1)
          else (Some True, upd_sess i (set_close UDP_CLOSE_IO e) s1))"

definition recv_body :: "nat \<Rightarrow> 'a udp_scheme \<Rightarrow> bool option \<times> 'a udp_scheme" where
  "recv_body i s =
     (let u = g_udp_slots s i in
      case os_recv s (u_client_fd u) (u_frame_expect u - u_frame_got u) of
        ((n, d, e), s1) \<Rightarrow>
          if n > 0 then
            (None, upd_sess i (\<lambda>u. u\<lparr>u_in_buf := buf_put (u_in_buf u) (u_frame_got u) d,
                                 u_frame_got := u_frame_got u + nat n\<rparr>) s1)
          else if n = 0 then (Some True, upd_sess i (set_close UDP_CLOSE_PEER 0) s1)
          else if would_block e then (Some False, s1)
          else (Some True, upd_sess i (set_close UDP_CLOSE_IO e) s1))"

lemma recv_length_progress:
  assumes "recv_length i s = (None, t)"
  shows "rsize (o_recv t (u_client_fd (g_udp_slots t i))) < rsize (o_recv s (u_client_fd (g_udp_slots s i)))"
proof -
  obtain n d e s1 where os: "os_recv s (u_client_fd (g_udp_slots s i)) (2 - u_len_got (g_udp_slots s i)) = ((n, d, e), s1)"
    by (metis prod.exhaust)
  have "g_udp_slots s1 = g_udp_slots s" using os_recv_form [OF os] by auto
  moreover have "n > 0 \<and> o_recv t = o_recv s1 \<and> u_client_fd (g_udp_slots t i) = u_client_fd (g_udp_slots s1 i)"
    using assms os by (auto simp: recv_length_def Let_def split: if_splits)
  ultimately show ?thesis using os_recv_rsize [OF os] by simp
qed

lemma recv_body_progress:
  assumes "recv_body i s = (None, t)"
  shows "rsize (o_recv t (u_client_fd (g_udp_slots t i))) < rsize (o_recv s (u_client_fd (g_udp_slots s i)))"
proof -
  obtain n d e s1 where os: "os_recv s (u_client_fd (g_udp_slots s i))
      (u_frame_expect (g_udp_slots s i) - u_frame_got (g_udp_slots s i)) = ((n, d, e), s1)"
    by (metis prod.exhaust)
  have "g_udp_slots s1 = g_udp_slots s" using os_recv_form [OF os] by auto
  moreover have "n > 0 \<and> o_recv t = o_recv s1 \<and> u_client_fd (g_udp_slots t i) = u_client_fd (g_udp_slots s1 i)"
    using assms os by (auto simp: recv_body_def Let_def split: if_splits)
  ultimately show ?thesis using os_recv_rsize [OF os] by simp
qed

text \<open>The loop also returns the frames it handed to \<open>deliver_frame\<close>; the program does not keep them.\<close>

function (sequential) frame_loop :: "nat \<Rightarrow> 'a udp_scheme \<Rightarrow> bool \<times> byte list list \<times> 'a udp_scheme" where
  "frame_loop i s =
     (let u = g_udp_slots s i in
      if u_len_got u < 2 then
        (case recv_length i s of (Some b, s1) \<Rightarrow> (b, [], s1) | (None, s1) \<Rightarrow> frame_loop i s1)
      else if u_frame_got u < u_frame_expect u then
        (case recv_body i s of (Some b, s1) \<Rightarrow> (b, [], s1) | (None, s1) \<Rightarrow> frame_loop i s1)
      else
        (case frame_loop i (deliver_frame i s) of
           (b, fs, s1) \<Rightarrow> (b, take (u_frame_expect u) (buf_of (u_in_buf u)) # fs, s1)))"
  by pat_completeness auto
termination
  by (relation "inv_image (less_than <*lex*> less_than)
      (\<lambda>(i, s). (rsize (o_recv s (u_client_fd (g_udp_slots s i))), u_len_got (g_udp_slots s i)))")
    (auto dest!: recv_length_progress [OF sym] recv_body_progress [OF sym])

declare frame_loop.simps [simp del]

definition udp_client_data_event :: "nat \<Rightarrow> u32 \<Rightarrow> 'a udp_scheme \<Rightarrow> bool \<times> 'a udp_scheme" where
  "udp_client_data_event i ev s =
     (case (if u_out_len (g_udp_slots s i) > 0 then udp_flush_out i s else (False, s)) of
        (True, s1) \<Rightarrow> (True, s1)
      | (False, s1) \<Rightarrow>
          if ev AND EPOLLIN = 0 then (False, s1)
          else case frame_loop i s1 of (b, fs, s2) \<Rightarrow> (b, s2))"

section \<open>Interest masks\<close>

definition udp_update_events :: "nat \<Rightarrow> nat \<Rightarrow> 'a udp_scheme \<Rightarrow> 'a udp_scheme" where
  "udp_update_events w i s =
     (let u = g_udp_slots s i in
      if u_closed u then s
      else
        let c0 = (if u_local_udp_fd u \<ge> 0 then EPOLLRDHUP else EPOLLIN OR EPOLLRDHUP);
            c_ev = (if u_local_udp_fd u < 0 \<and> u_out_len u > 0 then c0 OR EPOLLOUT else c0);
            s1 = (if u_client_events u \<noteq> c_ev then
                    (case os_epoll_ctl s CTL_MOD (uw_epoll_fd s w) (u_client_fd u) c_ev (u_ep_u64 u) of
                       (True, t) \<Rightarrow> upd_sess i (\<lambda>u. u\<lparr>u_client_events := c_ev\<rparr>) t
                     | (False, t) \<Rightarrow> t)
                  else s)
        in if u_local_udp_fd u < 0 \<and> u_remote_udp_fd u \<ge> 0 then
             (let r_ev = (if u_out_len u > 0 then 0 else EPOLLIN) in
              if u_remote_events u \<noteq> r_ev then
                (case os_epoll_ctl s1 CTL_MOD (uw_epoll_fd s1 w) (u_remote_udp_fd u) r_ev
                        (u_ep_u64 u OR UDP_EV_ROLE_REMOTE_FLAG) of
                   (True, t) \<Rightarrow> upd_sess i (\<lambda>u. u\<lparr>u_remote_events := r_ev\<rparr>) t
                 | (False, t) \<Rightarrow> t)
              else s1)
           else s1)"

end
