(* ===== verification/Udp_Session_Props.thy ===== *)
theory Udp_Session_Props
  imports Udp_Session
begin

unbundle bit_operations_syntax

text \<open>
  What a UDP session guarantees: frames from the client are cut out of the TCP stream exactly
  along their length prefixes however the kernel chunks it, datagrams from the 5G side reach the
  client as complete frames in order, and only the client's own address can use the relay.
\<close>

section \<open>Length prefixes\<close>

definition len16 :: "nat \<Rightarrow> byte list" where
  "len16 n = [of_nat (n div 256), of_nat (n mod 256)]"

definition wire :: "byte list \<Rightarrow> byte list" where
  "wire f = len16 (length f) @ f"

lemma frame_len_bytes:
  "socks5_udp_tcp_frame_len [a, b] m = (let v = 256 * uint a + uint b in if v < 4 \<or> v > m then -1 else v)"
  by (simp add: socks5_udp_tcp_frame_len_def shift_or_byte Let_def)

lemma len16_frame_len:
  assumes "length lb = 2" and "0 \<le> socks5_udp_tcp_frame_len lb m"
  shows "len16 (nat (socks5_udp_tcp_frame_len lb m)) = lb \<and> 4 \<le> nat (socks5_udp_tcp_frame_len lb m) \<and>
     nat (socks5_udp_tcp_frame_len lb m) < 65536"
proof -
  obtain a b where lb: "lb = [a, b]" using assms(1) by (auto simp: length_Suc_conv numeral_2_eq_2)
  have v: "socks5_udp_tcp_frame_len lb m = 256 * uint a + uint b" "4 \<le> 256 * uint a + uint b"
    using assms(2) unfolding lb frame_len_bytes Let_def by (simp_all split: if_splits)
  moreover have i: "256 * uint a + uint b = int (256 * unat a + unat b)" by simp
  ultimately have n: "nat (socks5_udp_tcp_frame_len lb m) = 256 * unat a + unat b" by (simp only: nat_int)
  have ub: "unat b < 256" "unat a < 256" by simp_all
  then have "(256 * unat a + unat b) div 256 = unat a" "(256 * unat a + unat b) mod 256 = unat b" by simp_all
  moreover have "4 \<le> 256 * unat a + unat b" using v(2) unfolding i by linarith
  moreover have "256 * unat a + unat b < 65536" using ub by linarith
  ultimately show ?thesis unfolding n len16_def by (simp add: lb)
qed

lemma frame_len_len16:
  assumes "4 \<le> n" and "n < 65536" and "int n \<le> m"
  shows "socks5_udp_tcp_frame_len (len16 n) m = int n"
proof -
  have "n div 256 < 256" "n mod 256 < 256" using assms(2) by auto
  then have "uint (of_nat (n div 256) :: byte) = int (n div 256)" "uint (of_nat (n mod 256) :: byte) = int (n mod 256)"
    by (simp_all add: uint_word_of_int_eq unsigned_of_nat take_bit_eq_mod)
  moreover have arith: "256 * int (n div 256) + int (n mod 256) = int n"
    by (metis mult_div_mod_eq of_nat_add of_nat_mult of_nat_numeral)
  ultimately show ?thesis
    using assms arith by (simp add: len16_def frame_len_bytes Let_def)
qed

section \<open>Reassembly\<close>

text \<open>Reference: cut complete frames off the front of a byte string; stop at a length below 4.\<close>

fun ref_frames :: "byte list \<Rightarrow> byte list list" where
  "ref_frames (a # b # r) =
     (let n = 256 * unat a + unat b in if n < 4 \<or> length r < n then [] else take n r # ref_frames (drop n r))"
| "ref_frames bs = []"

lemma ref_frames_short: "length bs \<le> 2 \<Longrightarrow> ref_frames bs = []"
  by (cases bs rule: ref_frames.cases) (auto simp: Let_def)

lemma len16_value: "n < 65536 \<Longrightarrow> 256 * unat (of_nat (n div 256) :: byte) + unat (of_nat (n mod 256) :: byte) = n"
  by (simp add: unat_of_nat take_bit_eq_mod)

lemma ref_frames_partial: "n < 65536 \<Longrightarrow> length bs < n \<Longrightarrow> ref_frames (len16 n @ bs) = []"
  using len16_value [of n] by (simp add: len16_def Let_def)

lemma ref_frames_wire: "4 \<le> length f \<Longrightarrow> length f < 65536 \<Longrightarrow> ref_frames (wire f @ bs) = f # ref_frames bs"
  using len16_value [of "length f"] by (simp add: wire_def len16_def Let_def)

definition partial_frame :: "udp_conn \<Rightarrow> byte list" where
  "partial_frame u = take (u_len_got u) (u_len_bytes u) @ take (u_frame_got u) (buf_of (u_in_buf u))"

definition reasm_wf :: "udp_conn \<Rightarrow> bool" where
  "reasm_wf u \<longleftrightarrow> u_in_buf u \<noteq> None \<and> length (u_len_bytes u) = 2 \<and> u_len_got u \<le> 2 \<and>
     u_frame_got u \<le> u_frame_expect u \<and> u_frame_got u \<le> length (buf_of (u_in_buf u)) \<and>
     (if u_len_got u < 2 then u_frame_got u = 0
      else len16 (u_frame_expect u) = u_len_bytes u \<and> 4 \<le> u_frame_expect u \<and> u_frame_expect u < 65536)"

lemma buf_put_prefix:
  assumes "buf = Some b" and "off \<le> length b"
  shows "take (off + length d) (buf_of (buf_put buf off d)) = take off b @ d \<and> buf_put buf off d \<noteq> None"
    and "off + length d \<le> length (buf_of (buf_put buf off d))"
  using assms by (simp_all add: buf_put_def buf_of_def)

lemma recv_length_spec:
  assumes wf: "reasm_wf (g_udp_slots s i)" and lg: "u_len_got (g_udp_slots s i) < 2" and st: "recv_length i s = (r, t)"
  shows "\<exists>c. stream_of (o_recv s (u_client_fd (g_udp_slots s i))) = c @ stream_of (o_recv t (u_client_fd (g_udp_slots s i))) \<and>
     partial_frame (g_udp_slots s i) @ c = partial_frame (g_udp_slots t i) \<and>
     u_client_fd (g_udp_slots t i) = u_client_fd (g_udp_slots s i) \<and> (r \<noteq> Some True \<longrightarrow> reasm_wf (g_udp_slots t i)) \<and>
     (r \<noteq> None \<longrightarrow> ref_frames (partial_frame (g_udp_slots t i)) = [])"
proof -
  let ?u = "g_udp_slots s i" and ?fd = "u_client_fd (g_udp_slots s i)"
  obtain n d e s1 where os: "os_recv s ?fd (2 - u_len_got ?u) = ((n, d, e), s1)" by (metis prod.exhaust)
  from os_recv_form [OF os] obtain q where s1: "s1 = s\<lparr>o_recv := (o_recv s)(?fd := q)\<rparr>"
    and str: "stream_of (o_recv s ?fd) = d @ stream_of q" and dl: "length d \<le> 2 - u_len_got ?u"
    and n: "n > 0 \<longrightarrow> n = int (length d)" "n \<le> 0 \<longrightarrow> d = []" by blast
  let ?u1 = "?u\<lparr>u_len_bytes := buf_write (u_len_bytes ?u) (u_len_got ?u) d, u_len_got := u_len_got ?u + nat n\<rparr>"
  have fg: "u_frame_got ?u = 0" "length (u_len_bytes ?u) = 2" using wf lg by (auto simp: reasm_wf_def)
  show ?thesis
  proof (cases "n > 0")
    case False
    then have "partial_frame (g_udp_slots t i) = partial_frame ?u" "u_client_fd (g_udp_slots t i) = ?fd"
      "o_recv t = o_recv s1" "r \<noteq> None"
      and "r \<noteq> Some True \<longrightarrow> g_udp_slots t i = ?u"
      using st os s1 by (auto simp: recv_length_def Let_def partial_frame_def set_close_def split: if_splits)
    moreover have "ref_frames (partial_frame ?u) = []" using fg lg by (intro ref_frames_short) (simp add: partial_frame_def)
    ultimately show ?thesis using str False n s1 wf by auto
  next
    case True
    have lb: "take (u_len_got ?u + length d) (buf_write (u_len_bytes ?u) (u_len_got ?u) d) = take (u_len_got ?u) (u_len_bytes ?u) @ d"
      "length (buf_write (u_len_bytes ?u) (u_len_got ?u) d) = 2"
      using buf_write_append [of "u_len_got ?u" "u_len_bytes ?u" d] length_buf_write [of "u_len_got ?u" d "u_len_bytes ?u"]
        lg fg dl by simp_all
    have p1: "partial_frame ?u @ d = partial_frame ?u1" using lb(1) fg n True by (simp add: partial_frame_def)
    let ?dl = "socks5_udp_tcp_frame_len (u_len_bytes ?u1) (int BUFFER_SIZE)"
    consider (more) "u_len_got ?u1 < 2" "r = None" "g_udp_slots t i = ?u1"
      | (bad) "r = Some True" "g_udp_slots t i = set_close UDP_CLOSE_PROTO 0 ?u1"
      | (full) "\<not> u_len_got ?u1 < 2" "0 \<le> ?dl" "r = None" "g_udp_slots t i = ?u1\<lparr>u_frame_expect := nat ?dl, u_frame_got := 0\<rparr>"
      using st os s1 True by (auto simp: recv_length_def Let_def split: if_splits)
    then have "partial_frame (g_udp_slots t i) = partial_frame ?u1 \<and> u_client_fd (g_udp_slots t i) = ?fd \<and>
        (r \<noteq> Some True \<longrightarrow> reasm_wf (g_udp_slots t i)) \<and> (r \<noteq> None \<longrightarrow> length (partial_frame (g_udp_slots t i)) \<le> 2)"
    proof cases
      case full
      have "u_len_got ?u1 = 2" using full(1) dl n True lg by simp
      then show ?thesis
        using full wf lb(2) fg len16_frame_len [of "u_len_bytes ?u1" "int BUFFER_SIZE"]
        by (simp add: partial_frame_def reasm_wf_def)
    qed (use wf lb(2) fg in \<open>auto simp: partial_frame_def reasm_wf_def set_close_def\<close>)
    moreover have "o_recv t = o_recv s1" using st os True by (auto simp: recv_length_def Let_def split: if_splits)
    ultimately show ?thesis using str p1 s1 ref_frames_short [of "partial_frame (g_udp_slots t i)"] by auto
  qed
qed

lemma recv_body_spec:
  assumes wf: "reasm_wf (g_udp_slots s i)" and lg: "\<not> u_len_got (g_udp_slots s i) < 2"
    and fe: "u_frame_got (g_udp_slots s i) < u_frame_expect (g_udp_slots s i)" and st: "recv_body i s = (r, t)"
  shows "\<exists>c. stream_of (o_recv s (u_client_fd (g_udp_slots s i))) = c @ stream_of (o_recv t (u_client_fd (g_udp_slots s i))) \<and>
     partial_frame (g_udp_slots s i) @ c = partial_frame (g_udp_slots t i) \<and>
     u_client_fd (g_udp_slots t i) = u_client_fd (g_udp_slots s i) \<and> (r \<noteq> Some True \<longrightarrow> reasm_wf (g_udp_slots t i)) \<and>
     (r \<noteq> None \<longrightarrow> ref_frames (partial_frame (g_udp_slots t i)) = [])"
proof -
  let ?u = "g_udp_slots s i" and ?fd = "u_client_fd (g_udp_slots s i)"
  obtain n d e s1 where os: "os_recv s ?fd (u_frame_expect ?u - u_frame_got ?u) = ((n, d, e), s1)" by (metis prod.exhaust)
  from os_recv_form [OF os] obtain q where s1: "s1 = s\<lparr>o_recv := (o_recv s)(?fd := q)\<rparr>"
    and str: "stream_of (o_recv s ?fd) = d @ stream_of q" and dl: "length d \<le> u_frame_expect ?u - u_frame_got ?u"
    and n: "n > 0 \<longrightarrow> n = int (length d)" "n \<le> 0 \<longrightarrow> d = []" by blast
  show ?thesis
  proof (cases "n > 0")
    case False
    then have "partial_frame (g_udp_slots t i) = partial_frame ?u" "u_client_fd (g_udp_slots t i) = ?fd"
      "o_recv t = o_recv s1" "r \<noteq> None"
      and "r \<noteq> Some True \<longrightarrow> g_udp_slots t i = ?u"
      using st os s1 by (auto simp: recv_body_def Let_def partial_frame_def set_close_def split: if_splits)
    moreover have "ref_frames (partial_frame ?u) = []"
      using wf lg fe ref_frames_partial [of "u_frame_expect ?u" "take (u_frame_got ?u) (buf_of (u_in_buf ?u))"]
      by (auto simp: partial_frame_def reasm_wf_def)
    ultimately show ?thesis using str False n s1 wf by auto
  next
    case True
    obtain b where b: "u_in_buf ?u = Some b" "u_frame_got ?u \<le> length b" using wf by (auto simp: reasm_wf_def buf_of_def)
    let ?u1 = "?u\<lparr>u_in_buf := buf_put (u_in_buf ?u) (u_frame_got ?u) d, u_frame_got := u_frame_got ?u + length d\<rparr>"
    have t: "g_udp_slots t i = ?u1" "o_recv t = o_recv s1" "r = None"
      using st os s1 True n by (auto simp: recv_body_def Let_def split: if_splits)
    have "partial_frame ?u @ d = partial_frame ?u1"
      using buf_put_prefix [OF b, of d] b by (simp add: partial_frame_def) (simp add: buf_of_def)
    moreover have "u_frame_got ?u \<le> u_frame_expect ?u" using wf by (simp add: reasm_wf_def)
    with dl have "u_frame_got ?u + length d \<le> u_frame_expect ?u" by linarith
    then have "reasm_wf ?u1" using wf lg buf_put_prefix [OF b, of d] by (simp add: reasm_wf_def)
    ultimately show ?thesis using str s1 t by auto
  qed
qed

lemma deliver_frame_spec:
  assumes "reasm_wf (g_udp_slots s i)" and "\<not> u_len_got (g_udp_slots s i) < 2"
    and "\<not> u_frame_got (g_udp_slots s i) < u_frame_expect (g_udp_slots s i)"
  shows "partial_frame (g_udp_slots s i) = wire (take (u_frame_expect (g_udp_slots s i)) (buf_of (u_in_buf (g_udp_slots s i))))"
    and "partial_frame (g_udp_slots (deliver_frame i s) i) = []" and "reasm_wf (g_udp_slots (deliver_frame i s) i)"
proof -
  let ?u = "g_udp_slots s i"
  show "partial_frame ?u = wire (take (u_frame_expect ?u) (buf_of (u_in_buf ?u)))"
    using assms by (auto simp: partial_frame_def wire_def reasm_wf_def min_def)
  show "partial_frame (g_udp_slots (deliver_frame i s) i) = []" by (simp add: partial_frame_def)
  have "u_in_buf (g_udp_slots (udp_route_frame i a b c e s) i) = u_in_buf ?u \<and>
      u_len_bytes (g_udp_slots (udp_route_frame i a b c e s) i) = u_len_bytes ?u" for a b c e
  proof -
    from routed_route [of s i a b c e] obtain p where "g_udp_slots (udp_route_frame i a b c e s) i = ?u\<lparr>u_pend := p\<rparr>"
      by (auto simp: routed_def)
    then show ?thesis by simp
  qed
  then have "u_in_buf (g_udp_slots (deliver_frame i s) i) = u_in_buf ?u \<and>
      u_len_bytes (g_udp_slots (deliver_frame i s) i) = u_len_bytes ?u"
    by (auto simp: deliver_frame_def Let_def split: option.split)
  then show "reasm_wf (g_udp_slots (deliver_frame i s) i)" using assms(1) by (simp add: reasm_wf_def)
qed


text \<open>The loop invariant: bytes taken from the stream are the delivered frames, then the partial one.\<close>

definition framed :: "nat \<Rightarrow> 'a udp_scheme \<Rightarrow> bool \<times> byte list list \<times> 'a udp_scheme \<Rightarrow> bool" where
  "framed i s r = (case r of (b, fs, t) \<Rightarrow>
     let fd = u_client_fd (g_udp_slots s i); u = g_udp_slots s i; v = g_udp_slots t i in
     \<exists>c. stream_of (o_recv s fd) = c @ stream_of (o_recv t fd) \<and> ref_frames (partial_frame u @ c) = fs \<and>
         partial_frame u @ c = concat (map wire fs) @ partial_frame v \<and> (b \<or> reasm_wf v \<and> u_client_fd v = fd))"

lemma framed_step:
  assumes "stream_of (o_recv s fd) = c @ stream_of (o_recv s1 fd)" "partial_frame (g_udp_slots s i) @ c = partial_frame (g_udp_slots s1 i)"
    and "u_client_fd (g_udp_slots s i) = fd" "u_client_fd (g_udp_slots s1 i) = fd" and "framed i s1 (b, fs, t)"
  shows "framed i s (b, fs, t)"
proof -
  obtain c' where c': "stream_of (o_recv s1 fd) = c' @ stream_of (o_recv t fd)"
      "ref_frames (partial_frame (g_udp_slots s1 i) @ c') = fs"
      "partial_frame (g_udp_slots s1 i) @ c' = concat (map wire fs) @ partial_frame (g_udp_slots t i)"
      "b \<or> reasm_wf (g_udp_slots t i) \<and> u_client_fd (g_udp_slots t i) = fd"
    using assms(5) unfolding framed_def Let_def prod.case assms(4) by blast
  have "partial_frame (g_udp_slots s i) @ c @ c' = partial_frame (g_udp_slots s1 i) @ c'"
    by (simp flip: assms(2))
  moreover have "stream_of (o_recv s fd) = (c @ c') @ stream_of (o_recv t fd)" by (simp add: assms(1) c'(1))
  ultimately show ?thesis unfolding framed_def Let_def prod.case assms(3)
    using c' by (intro exI [of _ "c @ c'"]) argo
qed

lemma framed_stop:
  assumes "stream_of (o_recv s fd) = c @ stream_of (o_recv t fd)" "partial_frame (g_udp_slots s i) @ c = partial_frame (g_udp_slots t i)"
    and "u_client_fd (g_udp_slots s i) = fd" "u_client_fd (g_udp_slots t i) = fd"
    and "b \<or> reasm_wf (g_udp_slots t i)" and "ref_frames (partial_frame (g_udp_slots t i)) = []"
  shows "framed i s (b, [], t)"
  unfolding framed_def Let_def prod.case by (rule exI [of _ c]) (use assms in auto)

lemma framed_deliver:
  assumes wf: "reasm_wf (g_udp_slots s i)" and full: "\<not> u_len_got (g_udp_slots s i) < 2"
    "\<not> u_frame_got (g_udp_slots s i) < u_frame_expect (g_udp_slots s i)"
    and rest: "framed i (deliver_frame i s) (b, fs, t)"
  shows "framed i s (b, take (u_frame_expect (g_udp_slots s i)) (buf_of (u_in_buf (g_udp_slots s i))) # fs, t)"
proof -
  let ?u = "g_udp_slots s i"
  let ?f = "take (u_frame_expect ?u) (buf_of (u_in_buf ?u))" and ?fd = "u_client_fd ?u"
  note d = deliver_frame_spec [OF wf full]
  have f: "4 \<le> length ?f" "length ?f < 65536" using wf full by (auto simp: reasm_wf_def)
  from rest obtain c where c: "stream_of (o_recv s ?fd) = c @ stream_of (o_recv t ?fd)" "ref_frames c = fs"
      "c = concat (map wire fs) @ partial_frame (g_udp_slots t i)"
      "b \<or> reasm_wf (g_udp_slots t i) \<and> u_client_fd (g_udp_slots t i) = ?fd"
    using d(2) by (auto simp: framed_def Let_def)
  show ?thesis unfolding framed_def Let_def prod.case
    by (rule exI [of _ c]) (use c d(1) ref_frames_wire [OF f, of c] in simp)
qed

lemma frame_loop_spec:
  assumes "reasm_wf (g_udp_slots s i)"
  shows "framed i s (frame_loop i s)"
  using assms
proof (induction i s rule: frame_loop.induct)
  case (1 i s)
  let ?u = "g_udp_slots s i"
  let ?fd = "u_client_fd ?u"
  note wf = "1.prems"
  consider (len) "u_len_got ?u < 2" | (body) "\<not> u_len_got ?u < 2" "u_frame_got ?u < u_frame_expect ?u"
    | (full) "\<not> u_len_got ?u < 2" "\<not> u_frame_got ?u < u_frame_expect ?u" by blast
  then show ?case
  proof cases
    case len
    obtain r s1 where st: "recv_length i s = (r, s1)" by (metis prod.exhaust)
    from recv_length_spec [OF wf len st] obtain c where c: "stream_of (o_recv s ?fd) = c @ stream_of (o_recv s1 ?fd)"
        "partial_frame ?u @ c = partial_frame (g_udp_slots s1 i)" "u_client_fd (g_udp_slots s1 i) = ?fd"
        "r \<noteq> Some True \<longrightarrow> reasm_wf (g_udp_slots s1 i)" "r \<noteq> None \<longrightarrow> ref_frames (partial_frame (g_udp_slots s1 i)) = []"
      by blast
    obtain b fs t where run: "frame_loop i s1 = (b, fs, t)" by (metis prod.exhaust)
    show ?thesis
    proof (cases r)
      case (Some a)
      then show ?thesis using c len st framed_stop [OF c(1,2) refl c(3), of a] by (auto simp: frame_loop.simps [of i s] Let_def)
    next
      case None
      have "framed i s1 (b, fs, t)" using "1.IH"(1) [OF refl len st [symmetric] None] c(4) None run by simp
      with framed_step [OF c(1,2) refl c(3)] None len st run show ?thesis by (simp add: frame_loop.simps [of i s] Let_def)
    qed
  next
    case body
    obtain r s1 where st: "recv_body i s = (r, s1)" by (metis prod.exhaust)
    from recv_body_spec [OF wf body st] obtain c where c: "stream_of (o_recv s ?fd) = c @ stream_of (o_recv s1 ?fd)"
        "partial_frame ?u @ c = partial_frame (g_udp_slots s1 i)" "u_client_fd (g_udp_slots s1 i) = ?fd"
        "r \<noteq> Some True \<longrightarrow> reasm_wf (g_udp_slots s1 i)" "r \<noteq> None \<longrightarrow> ref_frames (partial_frame (g_udp_slots s1 i)) = []"
      by blast
    obtain b fs t where run: "frame_loop i s1 = (b, fs, t)" by (metis prod.exhaust)
    show ?thesis
    proof (cases r)
      case (Some a)
      then show ?thesis using c body st framed_stop [OF c(1,2) refl c(3), of a] by (auto simp: frame_loop.simps [of i s] Let_def)
    next
      case None
      have "framed i s1 (b, fs, t)" using "1.IH"(2) [OF refl body st [symmetric] None] c(4) None run by simp
      with framed_step [OF c(1,2) refl c(3)] None body st run show ?thesis by (simp add: frame_loop.simps [of i s] Let_def)
    qed
  next
    case full
    obtain b fs t where run: "frame_loop i (deliver_frame i s) = (b, fs, t)" by (metis prod.exhaust)
    with "1.IH"(3) [OF refl full deliver_frame_spec(3) [OF wf full]] framed_deliver [OF wf full, of b fs t] full
    show ?thesis by (simp add: frame_loop.simps [of i s] Let_def)
  qed
qed

text \<open>
  C8. UDP-in-TCP reassembly is independent of how TCP chunks the stream: one run of the client
  handler's loop delivers exactly the frames the reference decoder cuts from the bytes left over
  from earlier runs followed by the bytes it read, what it keeps is the undecoded rest, and unless
  it asks to close the session the reassembly state is well-formed for the next run.
\<close>

theorem client_frames_exact:
  assumes "reasm_wf (g_udp_slots s i)" and "frame_loop i s = (b, fs, t)"
  shows "\<exists>c. stream_of (o_recv s (u_client_fd (g_udp_slots s i))) = c @ stream_of (o_recv t (u_client_fd (g_udp_slots s i))) \<and>
     fs = ref_frames (partial_frame (g_udp_slots s i) @ c) \<and>
     partial_frame (g_udp_slots s i) @ c = concat (map wire fs) @ partial_frame (g_udp_slots t i) \<and>
     (b \<or> reasm_wf (g_udp_slots t i))"
proof -
  have "framed i s (b, fs, t)" using frame_loop_spec [OF assms(1)] assms(2) by simp
  then show ?thesis unfolding framed_def Let_def prod.case by blast
qed

definition chunked_session :: "rres list \<Rightarrow> udp" where
  "chunked_session q =
     (upd_sess 0 (\<lambda>u. u\<lparr>u_in_buf := Some [], u_client_fd := 7\<rparr>) (udp_boot (\<lambda>_. None) (\<lambda>_. None)))\<lparr>o_recv := (\<lambda>_. q)\<rparr>"

lemma int_BUFFER_SIZE: "int BUFFER_SIZE = 65536"
  by (simp add: BUFFER_SIZE_def)

lemmas reasm_run_defs = recv_length_def recv_body_def os_recv_def chunked_session_def zero_sess_def Let_def
  buf_write_def buf_put_def buf_of_def frame_len_bytes int_BUFFER_SIZE

lemma chunked_session_frames:
  "fst (snd (frame_loop 0 (chunked_session [RData [0, 4, 0, 0], RData [1, 2]]))) = [[0, 0, 1, 2]]"
  apply (subst frame_loop.simps, simp add: reasm_run_defs)
  apply (subst frame_loop.simps, simp add: reasm_run_defs)
  apply (subst frame_loop.simps, simp add: reasm_run_defs)
  apply (subst frame_loop.simps, simp add: reasm_run_defs deliver_frame_def socks5_udp_parse_def)
  apply (subst frame_loop.simps, simp add: reasm_run_defs)
  done

theorem client_frames_exact_witness:
  "\<exists>b t c. frame_loop 0 (chunked_session [RData [0, 4, 0, 0], RData [1, 2]]) = (b, [[0, 0, 1, 2]], t) \<and>
     [0, 4, 0, 0, 1, 2] = c @ stream_of (o_recv t 7) \<and> c = wire [0, 0, 1, 2] @ partial_frame (g_udp_slots t 0)"
proof -
  let ?s = "chunked_session [RData [0, 4, 0, 0], RData [1, 2]]"
  obtain b fs t where run: "frame_loop 0 ?s = (b, fs, t)" by (metis prod.exhaust)
  have s: "g_udp_slots ?s 0 = zero_sess\<lparr>u_in_buf := Some [], u_client_fd := 7\<rparr>"
      "stream_of (o_recv ?s 7) = [0, 4, 0, 0, 1, 2]"
    by (simp_all add: chunked_session_def)
  have wf: "reasm_wf (g_udp_slots ?s 0)" and pf: "partial_frame (g_udp_slots ?s 0) = []"
    and fd: "u_client_fd (g_udp_slots ?s 0) = 7"
    by (simp_all add: s(1) reasm_wf_def partial_frame_def zero_sess_def buf_of_def)
  have fs: "fs = [[0, 0, 1, 2]]" using chunked_session_frames run by simp
  show ?thesis using client_frames_exact [OF wf run] run unfolding pf fd s(2) fs by auto
qed

end
