(* ===== verification/Udp_Delivery.thy ===== *)
theory Udp_Delivery
  imports Udp_Session_Props "HOL-Library.Sublist"
begin

unbundle bit_operations_syntax

text \<open>
  The way back to the client. In UDP-in-TCP mode every datagram received from the 5G side becomes
  one complete length-prefixed frame of the TCP stream, in order and without loss under partial
  writes; in UDP ASSOCIATE mode only the control connection's peer can send through the session
  and receive from it.
\<close>

section \<open>The stream to a UDP-in-TCP client\<close>

definition pending_out :: "udp_conn \<Rightarrow> byte list" where
  "pending_out u = take (u_out_len u - u_out_off u) (drop (u_out_off u) (buf_of (u_out_buf u)))"

definition to_client :: "nat \<Rightarrow> 'a udp_scheme \<Rightarrow> byte list" where
  "to_client i s = sent_on (u_client_fd (g_udp_slots s i)) (o_log s) @ pending_out (g_udp_slots s i)"

definition out_wf :: "udp_conn \<Rightarrow> bool" where
  "out_wf u \<longleftrightarrow> u_out_buf u \<noteq> None \<and> u_out_len u \<le> length (buf_of (u_out_buf u))"

lemma out_wfI: "b \<noteq> None \<Longrightarrow> n \<le> length (buf_of b) \<Longrightarrow> out_wf (u\<lparr>u_out_buf := b, u_out_len := n, u_out_off := 0\<rparr>)"
  by (simp add: out_wf_def)

lemma length_udp_header: "length (udp_header src) \<le> 22"
  by (simp add: udp_header_def socks5_udp_encode_def encode_addr_port_def) linarith

lemma pending_out_advance:
  assumes "n \<le> length (pending_out u)"
  shows "pending_out u = take n (pending_out u) @ pending_out (u\<lparr>u_out_off := u_out_off u + n\<rparr>)"
proof -
  have "drop n (pending_out u) = pending_out (u\<lparr>u_out_off := u_out_off u + n\<rparr>)"
    by (simp add: pending_out_def drop_take add.commute)
  then show ?thesis by (metis append_take_drop_id)
qed

lemma udp_flush_out_spec:
  assumes "udp_flush_out i s = (b, t)"
  shows "to_client i t = to_client i s \<and> (out_wf (g_udp_slots s i) \<longrightarrow> out_wf (g_udp_slots t i)) \<and>
     u_out_buf (g_udp_slots t i) = u_out_buf (g_udp_slots s i)"
  using assms
proof (induction i s arbitrary: b t rule: udp_flush_out.induct)
  case (1 i s)
  let ?u = "g_udp_slots s i"
  have p: "take (u_out_len ?u - u_out_off ?u) (drop (u_out_off ?u) (buf_of (u_out_buf ?u))) = pending_out ?u"
    by (simp add: pending_out_def)
  show ?case
  proof (cases "u_out_off ?u < u_out_len ?u")
    case False
    then show ?thesis using "1.prems"
      by (auto simp: udp_flush_out.simps [of i s] Let_def to_client_def pending_out_def out_wf_def)
  next
    case True
    obtain n e s1 where os: "os_send s (u_client_fd ?u) (pending_out ?u) = ((n, e), s1)" by (metis prod.exhaust)
    note eq = "1.prems" [unfolded udp_flush_out.simps [of i s] Let_def p]
    from os_send_form [OF os] have s1: "g_udp_slots s1 = g_udp_slots s"
      "o_log s1 = o_log s @ (if n > 0 then [SEND (u_client_fd ?u) (take (nat n) (pending_out ?u))] else [])"
      "n > 0 \<longrightarrow> nat n \<le> length (pending_out ?u)" by auto
    show ?thesis
    proof (cases "n > 0")
      case n: True
      let ?s2 = "upd_sess i (\<lambda>u. u\<lparr>u_out_off := u_out_off u + nat n\<rparr>) s1"
      have "udp_flush_out i ?s2 = (b, t)" using eq True os n by simp
      note IH = "1.IH" [OF refl True os [folded p, symmetric] refl n this]
      have "to_client i ?s2 = to_client i s"
        using pending_out_advance [of "nat n" ?u] s1 n by (simp add: to_client_def)
      then show ?thesis using IH s1 by (auto simp: out_wf_def)
    next
      case False
      then have "t = s1 \<or> t = upd_sess i (set_close UDP_CLOSE_IO e) s1" using eq True os by (auto split: if_splits)
      then show ?thesis using s1 False by (auto simp: set_close_def to_client_def pending_out_def out_wf_def)
    qed
  qed
qed

lemma buf_put_drop: "b \<noteq> None \<Longrightarrow> drop off (buf_of (buf_put b off x)) = x @ drop (off + length x) (buf_of b)"
  by (auto simp: buf_put_def buf_of_def)

lemma buf_put_None [simp]: "buf_put b off x = None \<longleftrightarrow> b = None"
  by (simp add: buf_put_def)

text \<open>The three writes around the datagram and the move to the front leave one frame at offset 0.\<close>

lemma framed_buffer:
  fixes d :: "byte list"
  assumes "b \<noteq> None" and "length hdr \<le> 22"
  defines "start \<equiv> 24 - length hdr" and "w \<equiv> wire (hdr @ d)"
  defines "b3 \<equiv> buf_put (buf_put (buf_put b 24 d) start hdr) (start - 2) (len16 (length d + length hdr))"
  shows "take (length w) (buf_of (if start - 2 \<noteq> 0 then buf_put b3 0 (take (length w) (drop (start - 2) (buf_of b3))) else b3)) = w"
proof -
  have st: "2 \<le> start" "start + length hdr = 24" "start - 2 + 2 = start" using assms(2) by (auto simp: start_def)
  have "drop (start - 2) (buf_of b3) = w @ drop (24 + length d) (buf_of b)"
    using st assms(1) unfolding b3_def w_def wire_def
    by (simp add: buf_put_drop len16_def add.commute)
  then have take: "take (length w) (drop (start - 2) (buf_of b3)) = w" by simp
  have "b3 \<noteq> None" using assms(1) by (simp add: b3_def)
  then show ?thesis using take buf_put_drop [of b3 0 w] by auto
qed

lemma remote_datagram04_spec:
  assumes st: "remote_datagram04 i d src s = (b, t)" and wf: "out_wf (g_udp_slots s i)"
    and z: "u_out_len (g_udp_slots s i) = 0"
  shows "to_client i t = to_client i s @ (if d = [] then [] else wire (udp_header src @ d)) \<and> out_wf (g_udp_slots t i)"
proof (cases "d = []")
  case True
  then show ?thesis using assms
    by (auto simp: remote_datagram04_def to_client_def pending_out_def out_wf_def buf_put_def)
next
  case False
  let ?hdr = "udp_header src"
  let ?w = "wire (?hdr @ d)" and ?start = "24 - length ?hdr"
  let ?b3 = "buf_put (buf_put (buf_put (u_out_buf (g_udp_slots s i)) 24 d) ?start ?hdr) (?start - 2) (len16 (length d + length ?hdr))"
  let ?b4 = "if ?start - 2 \<noteq> 0 then buf_put ?b3 0 (take (length ?w) (drop (?start - 2) (buf_of ?b3))) else ?b3"
  have lw: "length ?w = Suc (Suc (length d + length ?hdr))" by (simp add: wire_def len16_def)
  obtain s5 where run: "udp_flush_out i s5 = (b, t)" and s5: "o_log s5 = o_log s"
      "g_udp_slots s5 i = (g_udp_slots s i)\<lparr>u_out_buf := ?b4, u_out_len := length ?w, u_out_off := 0\<rparr>"
    using st False unfolding remote_datagram04_def Let_def by (cases "?start - 2 \<noteq> 0") (auto simp: len16_def lw)
  have b: "u_out_buf (g_udp_slots s i) \<noteq> None" using wf by (simp add: out_wf_def)
  have t4: "take (length ?w) (buf_of ?b4) = ?w" by (rule framed_buffer [OF b length_udp_header])
  then have "length ?w \<le> length (buf_of ?b4)" by (metis length_take min.cobounded1)
  moreover have "?b4 \<noteq> None" using b by (simp del: not_None_eq)
  ultimately have "out_wf (g_udp_slots s5 i)" unfolding s5(2) by (intro out_wfI)
  moreover have "to_client i s5 = to_client i s @ ?w" using t4 z by (simp add: to_client_def pending_out_def s5)
  ultimately show ?thesis using udp_flush_out_spec [OF run] False by simp
qed

text \<open>The frames a run of received datagrams stands for; empty ones are dropped, long ones are cut.\<close>

fun reply_frames :: "dres list \<Rightarrow> byte list list" where
  "reply_frames [] = []"
| "reply_frames (DData d src # q) =
     (if d = [] then [] else [udp_header src @ take (BUFFER_SIZE - 24) d]) @ reply_frames q"
| "reply_frames (DErr e # q) = reply_frames q"

lemma udp_remote04_spec:
  assumes "out_wf (g_udp_slots s i)"
  shows "case udp_remote04 i s of (b, t) \<Rightarrow>
     out_wf (g_udp_slots t i) \<and> u_remote_udp_fd (g_udp_slots t i) = u_remote_udp_fd (g_udp_slots s i) \<and>
     (\<exists>p. o_dgram s (u_remote_udp_fd (g_udp_slots s i)) = p @ o_dgram t (u_remote_udp_fd (g_udp_slots s i)) \<and>
          to_client i t = to_client i s @ concat (map wire (reply_frames p)))"
  using assms
proof (induction i s rule: udp_remote04.induct)
  case (1 i s)
  let ?u = "g_udp_slots s i"
  let ?fd = "u_remote_udp_fd ?u"
  show ?case
  proof (cases "u_out_len ?u > 0")
    case True
    then show ?thesis using "1.prems" by (simp add: udp_remote04.simps [of i s])
  next
    case z: False
    show ?thesis
    proof (cases "o_dgram s ?fd")
      case Nil
      then show ?thesis using "1.prems" z by (simp add: udp_remote04.simps [of i s] os_recvfrom_def)
    next
      case (Cons x q)
      let ?s1 = "s\<lparr>o_dgram := (o_dgram s)(?fd := q)\<rparr>"
      show ?thesis
      proof (cases x)
        case (DErr e)
        then show ?thesis using "1.prems" z Cons
          by (auto simp: udp_remote04.simps [of i s] os_recvfrom_def to_client_def pending_out_def out_wf_def set_close_def
              intro!: exI [of _ "[DErr e]"])
      next
        case (DData d src)
        let ?d = "take (BUFFER_SIZE - 24) d"
        have os: "os_recvfrom s ?fd (BUFFER_SIZE - 24) = ((int (length ?d), ?d, src, 0), ?s1)"
          by (simp add: os_recvfrom_def Cons DData)
        obtain b s2 where dg: "remote_datagram04 i ?d src ?s1 = (b, s2)" by (metis prod.exhaust)
        have "out_wf (g_udp_slots ?s1 i)" "u_out_len (g_udp_slots ?s1 i) = 0" using "1.prems" z by simp_all
        note sp = remote_datagram04_spec [OF dg this] and fr = remote_datagram04_frame [OF dg]
        have emp: "?d = [] \<longleftrightarrow> d = []" by (auto simp: BUFFER_SIZE_def)
        have tc: "to_client i s2 = to_client i s @ concat (map wire (reply_frames [x]))"
          using sp emp DData by (simp add: to_client_def)
        show ?thesis
        proof (cases b)
          case True
          then have "udp_remote04 i s = (True, s2)" using z os dg by (simp add: udp_remote04.simps [of i s])
          then show ?thesis using sp fr tc Cons by (auto intro!: exI [of _ "[x]"])
        next
          case False
          then have run: "udp_remote04 i s = udp_remote04 i s2" using z os dg by (simp add: udp_remote04.simps [of i s])
          obtain b' t where t: "udp_remote04 i s2 = (b', t)" by (metis prod.exhaust)
          have ih: "out_wf (g_udp_slots t i)" "u_remote_udp_fd (g_udp_slots t i) = ?fd"
            "\<exists>p. q = p @ o_dgram t ?fd \<and> to_client i t = to_client i s2 @ concat (map wire (reply_frames p))"
            using "1.IH" [OF z os [symmetric] refl refl refl _ dg [symmetric]] False sp fr t by auto
          from ih(3) obtain p where p: "q = p @ o_dgram t ?fd" "to_client i t = to_client i s2 @ concat (map wire (reply_frames p))"
            by blast
          have "reply_frames (x # p) = reply_frames [x] @ reply_frames p" by (simp add: DData)
          then have "to_client i t = to_client i s @ concat (map wire (reply_frames (x # p)))" using p(2) tc by simp
          then show ?thesis using ih(1,2) p(1) run t Cons by (auto intro!: exI [of _ "x # p"])
        qed
      qed
    qed
  qed
qed

text \<open>
  C16. In UDP-in-TCP mode, what the session has written to the client plus what it still holds in
  its output buffer grows, on a 5G-side event, by exactly one length-prefixed frame per nonempty
  datagram taken from the socket, in order, whatever the socket accepted per write.
\<close>

theorem reply_stream_exact:
  assumes "out_wf (g_udp_slots s i)" and "u_local_udp_fd (g_udp_slots s i) < 0"
    and "udp_remote_event i s = (b, t)"
  shows "\<exists>p. o_dgram s (u_remote_udp_fd (g_udp_slots s i)) = p @ o_dgram t (u_remote_udp_fd (g_udp_slots s i)) \<and>
     to_client i t = to_client i s @ concat (map wire (reply_frames p)) \<and> out_wf (g_udp_slots t i)"
  using assms udp_remote04_spec [OF assms(1)] by (auto simp: udp_remote_event_def)

definition reply_session :: "dres list \<Rightarrow> (int \<times> int) list \<Rightarrow> udp" where
  "reply_session q w =
     (upd_sess 0 (\<lambda>u. u\<lparr>u_out_buf := Some [], u_client_fd := 7, u_local_udp_fd := -1, u_remote_udp_fd := 9\<rparr>)
        (udp_boot (\<lambda>_. None) (\<lambda>_. None)))\<lparr>o_dgram := (\<lambda>_. q), o_send := (\<lambda>_. w)\<rparr>"

theorem reply_stream_exact_witness:
  "\<exists>b t p. udp_remote_event 0 (reply_session [DData [42] zero_sockaddr] [(5, 0)]) = (b, t) \<and>
     [DData [42] zero_sockaddr] = p @ o_dgram t 9 \<and> to_client 0 t = concat (map wire (reply_frames p))"
proof -
  let ?s = "reply_session [DData [42] zero_sockaddr] [(5, 0)]"
  obtain b t where run: "udp_remote_event 0 ?s = (b, t)" by (metis prod.exhaust)
  have s: "out_wf (g_udp_slots ?s 0)" "u_local_udp_fd (g_udp_slots ?s 0) < 0" "u_remote_udp_fd (g_udp_slots ?s 0) = 9"
    "o_dgram ?s 9 = [DData [42] zero_sockaddr]" "to_client 0 ?s = []"
    by (simp_all add: reply_session_def out_wf_def zero_sess_def buf_of_def to_client_def pending_out_def)
  show ?thesis using reply_stream_exact [OF s(1,2) run] run unfolding s(3,4,5) by auto
qed

section \<open>Who may use a UDP ASSOCIATE relay\<close>

definition authorised :: "udp_conn \<Rightarrow> bool" where
  "authorised u \<longleftrightarrow> (\<forall>a. u_client_src u = Some a \<longrightarrow> same_ip a (u_peer_ss u))"

text \<open>Two states between which nothing was sent, no resolution started and no client learnt.\<close>

definition unused :: "nat \<Rightarrow> 'a udp_scheme \<Rightarrow> 'a udp_scheme \<Rightarrow> bool" where
  "unused i s t \<longleftrightarrow> o_log t = o_log s \<and> dns_jobs t = dns_jobs s \<and>
     u_client_src (g_udp_slots t i) = u_client_src (g_udp_slots s i) \<and> u_pend (g_udp_slots t i) = u_pend (g_udp_slots s i)"

definition foreign :: "udp_conn \<Rightarrow> dres \<Rightarrow> bool" where
  "foreign u r = (case r of DData d a \<Rightarrow> \<not> same_ip a (u_peer_ss u) | DErr e \<Rightarrow> True)"

lemma local_datagram_auth:
  "u_peer_ss (g_udp_slots (local_datagram i d src s) i) = u_peer_ss (g_udp_slots s i)"
  "authorised (g_udp_slots s i) \<Longrightarrow> authorised (g_udp_slots (local_datagram i d src s) i)"
  by (auto simp: local_datagram_def Let_def authorised_def split: option.split)

lemma local_datagram_foreign:
  "\<not> same_ip src (u_peer_ss (g_udp_slots s i)) \<Longrightarrow> unused i s (local_datagram i d src s)"
  by (auto simp: local_datagram_def Let_def unused_def split: option.split)

lemma udp_local_event_auth:
  "case udp_local_event i s of (b, t) \<Rightarrow>
     u_peer_ss (g_udp_slots t i) = u_peer_ss (g_udp_slots s i) \<and>
     (authorised (g_udp_slots s i) \<longrightarrow> authorised (g_udp_slots t i)) \<and>
     ((\<forall>r \<in> set (o_dgram s (u_local_udp_fd (g_udp_slots s i))). foreign (g_udp_slots s i) r) \<longrightarrow> unused i s t)"
proof (induction i s rule: udp_local_event.induct)
  case (1 i s)
  let ?u = "g_udp_slots s i"
  let ?fd = "u_local_udp_fd ?u"
  show ?case
  proof (cases "o_dgram s ?fd")
    case Nil
    then show ?thesis by (simp add: udp_local_event.simps [of i s] os_recvfrom_def unused_def)
  next
    case (Cons x q)
    let ?s1 = "s\<lparr>o_dgram := (o_dgram s)(?fd := q)\<rparr>"
    show ?thesis
    proof (cases x)
      case (DErr e)
      then show ?thesis using Cons
        by (auto simp: udp_local_event.simps [of i s] os_recvfrom_def unused_def set_close_def authorised_def)
    next
      case (DData d src)
      let ?s2 = "local_datagram i (take BUFFER_SIZE d) src ?s1"
      have os: "os_recvfrom s ?fd BUFFER_SIZE = ((int (length (take BUFFER_SIZE d)), take BUFFER_SIZE d, src, 0), ?s1)"
        by (simp add: os_recvfrom_def Cons DData)
      then have run: "udp_local_event i s = udp_local_event i ?s2" by (simp add: udp_local_event.simps [of i s])
      obtain b t where t: "udp_local_event i ?s2 = (b, t)" by (metis prod.exhaust)
      note IH = "1.IH" [OF os [symmetric] refl refl refl, unfolded t, simplified local_datagram_frame local_datagram_auth]
      have au: "authorised ?u \<longrightarrow> authorised (g_udp_slots ?s2 i)" using local_datagram_auth(2) [of ?s1 i] by simp
      have "unused i s t" if "\<forall>r \<in> set (o_dgram s ?fd). foreign ?u r"
      proof -
        have "\<not> same_ip src (u_peer_ss ?u)" using that Cons DData by (simp add: foreign_def)
        then have "unused i ?s1 ?s2" by (intro local_datagram_foreign) simp
        moreover have "unused i ?s2 t"
          using IH that Cons by (auto simp: foreign_def local_datagram_auth local_datagram_frame split: dres.splits)
        ultimately show ?thesis by (simp add: unused_def)
      qed
      then show ?thesis using IH au run t by (auto simp: local_datagram_auth)
    qed
  qed
qed

text \<open>
  C9. Only the peer of the control connection can use a UDP ASSOCIATE relay: the learnt client
  address always has the peer's IP address, and a run over datagrams from other addresses sends
  nothing, starts no resolution, parks nothing and changes no learnt address.
\<close>

theorem only_peer_uses_relay:
  assumes "authorised (g_udp_slots s i)" and "udp_local_event i s = (b, t)"
  shows "authorised (g_udp_slots t i) \<and> u_peer_ss (g_udp_slots t i) = u_peer_ss (g_udp_slots s i) \<and>
     ((\<forall>r \<in> set (o_dgram s (u_local_udp_fd (g_udp_slots s i))). foreign (g_udp_slots s i) r) \<longrightarrow> unused i s t)"
  using assms udp_local_event_auth [of i s] by auto

definition associate_session :: "dres list \<Rightarrow> udp" where
  "associate_session q =
     (upd_sess 0 (\<lambda>u. u\<lparr>u_in_buf := Some [], u_client_fd := 7, u_local_udp_fd := 8, u_remote_udp_fd := 9,
                          u_peer_ss := \<lparr>sa_family = AF_INET, sa_addr = [192, 168, 1, 2], sa_port = [200, 0]\<rparr>\<rparr>)
        (udp_boot (\<lambda>_. None) (\<lambda>_. None)))\<lparr>o_dgram := (\<lambda>_. q)\<rparr>"

theorem only_peer_uses_relay_witness:
  "unused 0 (associate_session [DData [0, 0, 0, 1, 8, 8, 8, 8, 0, 53, 1] \<lparr>sa_family = AF_INET, sa_addr = [10, 0, 0, 9], sa_port = [4, 4]\<rparr>])
     (snd (udp_local_event 0 (associate_session
        [DData [0, 0, 0, 1, 8, 8, 8, 8, 0, 53, 1] \<lparr>sa_family = AF_INET, sa_addr = [10, 0, 0, 9], sa_port = [4, 4]\<rparr>])))"
proof -
  let ?q = "[DData [0, 0, 0, 1, 8, 8, 8, 8, 0, 53, 1] \<lparr>sa_family = AF_INET, sa_addr = [10, 0, 0, 9], sa_port = [4, 4]\<rparr>]"
  let ?s = "associate_session ?q"
  obtain b t where run: "udp_local_event 0 ?s = (b, t)" by (metis prod.exhaust)
  have a: "authorised (g_udp_slots ?s 0)" by (simp add: authorised_def associate_session_def zero_sess_def)
  have "\<forall>r \<in> set (o_dgram ?s (u_local_udp_fd (g_udp_slots ?s 0))). foreign (g_udp_slots ?s 0) r"
    by (simp add: associate_session_def foreign_def same_ip_def AF_INET_def AF_INET6_def mem_eq_def
        socks5_addr_normalize_def buf_write_def numeral_eq_Suc)
  with only_peer_uses_relay [OF a run] run show ?thesis by simp
qed

section \<open>Replies of a UDP ASSOCIATE relay\<close>

text \<open>The datagrams received ones stand for: each nonempty one behind its header, to the learnt client.\<close>

fun replies03 :: "udp_conn \<Rightarrow> dres list \<Rightarrow> sysev list" where
  "replies03 u (DData d src # q) =
     (case u_client_src u of
        Some a \<Rightarrow> if d = [] then [] else [SENDTO (u_local_udp_fd u) (udp_header src @ take (BUFFER_SIZE - 22) d) a]
      | None \<Rightarrow> []) @ replies03 u q"
| "replies03 u (DErr e # q) = replies03 u q"
| "replies03 u [] = []"

text \<open>What the replies depend on.\<close>

definition same_client :: "udp_conn \<Rightarrow> udp_conn \<Rightarrow> bool" where
  "same_client u v \<longleftrightarrow> u_client_src v = u_client_src u \<and> u_local_udp_fd v = u_local_udp_fd u \<and>
     u_remote_udp_fd v = u_remote_udp_fd u \<and> u_peer_ss v = u_peer_ss u \<and> (u_in_buf u \<noteq> None \<longrightarrow> u_in_buf v \<noteq> None)"

lemma same_client_replies: "same_client u v \<Longrightarrow> replies03 v q = replies03 u q"
  by (induction u q rule: replies03.induct) (auto simp: same_client_def split: option.split)

lemma reply_buffer:
  assumes "b \<noteq> None" and "length hdr \<le> 22"
  shows "take (length d + length hdr) (drop (22 - length hdr) (buf_of (buf_put (buf_put b 22 d) (22 - length hdr) hdr))) = hdr @ d"
proof -
  have "22 - length hdr + length hdr = 22" using assms(2) by simp
  then have "drop (22 - length hdr) (buf_of (buf_put (buf_put b 22 d) (22 - length hdr) hdr)) = hdr @ d @ drop (22 + length d) (buf_of b)"
    using assms(1) by (simp add: buf_put_drop)
  then show ?thesis by simp
qed

lemma remote_datagram03_spec:
  assumes "u_in_buf (g_udp_slots s i) \<noteq> None"
  shows "\<exists>l. o_log (remote_datagram03 i (take (BUFFER_SIZE - 22) d) src s) = o_log s @ l \<and>
     subseq l (replies03 (g_udp_slots s i) [DData d src]) \<and>
     (o_sendto s = [] \<longrightarrow> l = replies03 (g_udp_slots s i) [DData d src] \<and>
        o_sendto (remote_datagram03 i (take (BUFFER_SIZE - 22) d) src s) = [])"
    and "same_client (g_udp_slots s i) (g_udp_slots (remote_datagram03 i (take (BUFFER_SIZE - 22) d) src s) i)"
proof -
  let ?u = "g_udp_slots s i" and ?d = "take (BUFFER_SIZE - 22) d"
  let ?t = "remote_datagram03 i ?d src s"
  have emp: "?d = [] \<longleftrightarrow> d = []" by (auto simp: BUFFER_SIZE_def)
  show "\<exists>l. o_log ?t = o_log s @ l \<and> subseq l (replies03 ?u [DData d src]) \<and>
     (o_sendto s = [] \<longrightarrow> l = replies03 ?u [DData d src] \<and> o_sendto ?t = [])"
  proof (cases "?d = [] \<or> u_client_src ?u = None")
    case True
    then have "o_log ?t = o_log s \<and> o_sendto ?t = o_sendto s" by (auto simp: remote_datagram03_def Let_def)
    moreover have "replies03 ?u [DData d src] = []" using True emp by (auto split: option.split)
    ultimately show ?thesis by simp
  next
    case False
    then obtain a where a: "u_client_src ?u = Some a" by auto
    note rb = reply_buffer [OF assms length_udp_header, of ?d src]
    have r: "replies03 ?u [DData d src] = [SENDTO (u_local_udp_fd ?u) (udp_header src @ ?d) a]"
      using a False emp by simp
    have "o_log ?t = o_log s \<and> o_sendto s \<noteq> [] \<or> o_log ?t = o_log s @ replies03 ?u [DData d src] \<and> (o_sendto s = [] \<longrightarrow> o_sendto ?t = [])"
      unfolding r using False a rb by (auto simp: remote_datagram03_def Let_def os_sendto_def log_ev_def split: list.splits)
    then show ?thesis by (elim disjE) auto
  qed
  show "same_client ?u (g_udp_slots ?t i)"
    by (auto simp: same_client_def remote_datagram03_def Let_def buf_put_def split: option.split)
qed

lemma udp_remote03_spec:
  assumes "u_in_buf (g_udp_slots s i) \<noteq> None"
  shows "case udp_remote03 i s of (b, t) \<Rightarrow>
     \<exists>p l. o_dgram s (u_remote_udp_fd (g_udp_slots s i)) = p @ o_dgram t (u_remote_udp_fd (g_udp_slots s i)) \<and>
       o_log t = o_log s @ l \<and> subseq l (replies03 (g_udp_slots s i) p) \<and>
       (o_sendto s = [] \<longrightarrow> l = replies03 (g_udp_slots s i) p) \<and> same_client (g_udp_slots s i) (g_udp_slots t i)"
  using assms
proof (induction i s rule: udp_remote03.induct)
  case (1 i s)
  let ?u = "g_udp_slots s i"
  let ?fd = "u_remote_udp_fd ?u"
  show ?case
  proof (cases "o_dgram s ?fd")
    case Nil
    then show ?thesis by (simp add: udp_remote03.simps [of i s] os_recvfrom_def same_client_def)
  next
    case (Cons x q)
    let ?s1 = "s\<lparr>o_dgram := (o_dgram s)(?fd := q)\<rparr>"
    show ?thesis
    proof (cases x)
      case (DErr e)
      then show ?thesis using Cons
        by (auto simp: udp_remote03.simps [of i s] os_recvfrom_def set_close_def same_client_def intro!: exI [of _ "[DErr e]"])
    next
      case (DData d src)
      let ?s2 = "remote_datagram03 i (take (BUFFER_SIZE - 22) d) src ?s1"
      have os: "os_recvfrom s ?fd (BUFFER_SIZE - 22) =
          ((int (length (take (BUFFER_SIZE - 22) d)), take (BUFFER_SIZE - 22) d, src, 0), ?s1)"
        by (simp add: os_recvfrom_def Cons DData)
      then have run: "udp_remote03 i s = udp_remote03 i ?s2" by (simp add: udp_remote03.simps [of i s])
      have b1: "u_in_buf (g_udp_slots ?s1 i) \<noteq> None" using "1.prems" by simp
      note sp = remote_datagram03_spec [OF b1, of d src]
      have sc: "same_client ?u (g_udp_slots ?s2 i)" using sp(2) by simp
      obtain b t where t: "udp_remote03 i ?s2 = (b, t)" by (metis prod.exhaust)
      obtain l1 where l1: "o_log ?s2 = o_log s @ l1" "subseq l1 (replies03 ?u [x])"
          "o_sendto s = [] \<longrightarrow> l1 = replies03 ?u [x] \<and> o_sendto ?s2 = []"
        using sp(1) DData by auto
      obtain p l where IH: "q = p @ o_dgram t ?fd" "o_log t = o_log ?s2 @ l" "subseq l (replies03 ?u p)"
          "o_sendto ?s2 = [] \<longrightarrow> l = replies03 ?u p" "same_client (g_udp_slots ?s2 i) (g_udp_slots t i)"
        using "1.IH" [OF os [symmetric] refl refl refl] sc t "1.prems" same_client_replies [OF sc]
        by (auto simp: remote_datagram03_frame same_client_def)
      have app: "replies03 ?u (x # p) = replies03 ?u [x] @ replies03 ?u p" by (simp add: DData)
      have "subseq (l1 @ l) (replies03 ?u (x # p))" unfolding app by (rule list_emb_append_mono [OF l1(2) IH(3)])
      moreover have "o_sendto s = [] \<longrightarrow> l1 @ l = replies03 ?u (x # p)" using l1(3) IH(4) app by simp
      moreover have "same_client ?u (g_udp_slots t i)" using sc IH(5) by (simp add: same_client_def)
      ultimately show ?thesis unfolding run t prod.case
        using l1(1) IH(1,2) Cons by (intro exI [of _ "x # p"] exI [of _ "l1 @ l"]) simp
    qed
  qed
qed

text \<open>
  C17. A UDP ASSOCIATE relay answers only the authorised client, with what it received: on a 5G-side
  event the datagrams sent are, in order, the received nonempty ones, each behind a header naming
  its sender, to the learnt address, which has the control peer's IP address; a datagram is missing
  only when the kernel refused to send, and none is sent before a client is learnt.
\<close>

theorem associate_replies:
  assumes "u_in_buf (g_udp_slots s i) \<noteq> None" and "authorised (g_udp_slots s i)"
    and "u_local_udp_fd (g_udp_slots s i) \<ge> 0" and "udp_remote_event i s = (b, t)"
  shows "\<exists>p l. o_dgram s (u_remote_udp_fd (g_udp_slots s i)) = p @ o_dgram t (u_remote_udp_fd (g_udp_slots s i)) \<and>
     o_log t = o_log s @ l \<and> subseq l (replies03 (g_udp_slots s i) p) \<and>
     (o_sendto s = [] \<longrightarrow> l = replies03 (g_udp_slots s i) p) \<and> authorised (g_udp_slots t i)"
  using assms udp_remote03_spec [OF assms(1)]
  by (auto simp: udp_remote_event_def authorised_def same_client_def)

definition learnt_session :: "dres list \<Rightarrow> udp" where
  "learnt_session q = upd_sess 0 (\<lambda>u. u\<lparr>u_client_src := Some (u_peer_ss u)\<rparr>) (associate_session q)"

theorem associate_replies_witness:
  "\<exists>t p. snd (udp_remote_event 0 (learnt_session [DData [7] zero_sockaddr])) = t \<and>
     [DData [7] zero_sockaddr] = p @ o_dgram t 9 \<and>
     o_log t = replies03 (g_udp_slots (learnt_session []) 0) p \<and> authorised (g_udp_slots t 0)"
proof -
  let ?s = "learnt_session [DData [7] zero_sockaddr]"
  obtain b t where run: "udp_remote_event 0 ?s = (b, t)" by (metis prod.exhaust)
  have s: "u_in_buf (g_udp_slots ?s 0) \<noteq> None" "authorised (g_udp_slots ?s 0)" "u_local_udp_fd (g_udp_slots ?s 0) \<ge> 0"
    "o_sendto ?s = []" "o_log ?s = []" "u_remote_udp_fd (g_udp_slots ?s 0) = 9" "o_dgram ?s 9 = [DData [7] zero_sockaddr]"
    "g_udp_slots ?s 0 = g_udp_slots (learnt_session []) 0"
    by (simp_all add: learnt_session_def associate_session_def authorised_def zero_sess_def same_ip_def mem_eq_def)
  show ?thesis using associate_replies [OF s(1-3) run] run s(4-8) by auto
qed

end
