(* ===== verification/Udp_Worker.thy ===== *)
theory Udp_Worker
  imports Udp_Delivery
begin

unbundle bit_operations_syntax

text \<open>
  The life of a UDP session in \<open>simple-socks5.c\<close>: \<open>udp_start_session\<close> creates it on a handshake
  thread, the worker's loop dispatches its events, the five-second scan times it out, and
  \<open>udp_conn_unref\<close>/\<open>udp_conn_finalize\<close> take it down. Pointer-chasing loops over a session list take
  fuel; \<open>UDP_SLOT_COUNT\<close> units always suffice, see \<open>udp_scan_chase\<close>. Socket options, the results
  of \<open>bind\<close> and log lines are not modelled; the errno recorded when \<open>epoll_ctl\<close> fails, which only
  a log line shows, is 0 here.
\<close>

section \<open>Taking a session down\<close>

text \<open>The class a session is counted under; the enumeration has no value beyond \<open>UDP_CLOSE_UNKNOWN\<close>.\<close>

definition counted_kind :: "udp_close_kind \<Rightarrow> udp_close_kind" where
  "counted_kind k = (if k = UDP_CLOSE_NONE then UDP_CLOSE_UNKNOWN else k)"

definition count_close :: "nat \<Rightarrow> 'a udp_scheme \<Rightarrow> 'a udp_scheme" where
  "count_close i s =
     (let u = g_udp_slots s i;
          lived = max 0 (o_now s - u_created u);
          kind = counted_kind (u_close_kind u);
          s1 = s\<lparr>g_udp_close_kind := (g_udp_close_kind s)(kind := g_udp_close_kind s kind + 1),
                 g_udp_close_total := g_udp_close_total s + 1\<rparr>
      in if lived < 1 then s1\<lparr>g_udp_close_short_lived := g_udp_close_short_lived s1 + 1\<rparr> else s1)"

definition close_sess_fds :: "nat \<Rightarrow> 'a udp_scheme \<Rightarrow> 'a udp_scheme" where
  "close_sess_fds i s =
     (let c = u_client_fd (g_udp_slots s i);
          s1 = (if c \<ge> 0 then upd_sess i (\<lambda>u. u\<lparr>u_client_fd := -1\<rparr>) (os_close c s) else s);
          l = u_local_udp_fd (g_udp_slots s1 i);
          s2 = (if l \<ge> 0 then upd_sess i (\<lambda>u. u\<lparr>u_local_udp_fd := -1\<rparr>) (os_close l s1) else s1);
          r = u_remote_udp_fd (g_udp_slots s2 i)
      in if r \<ge> 0 then upd_sess i (\<lambda>u. u\<lparr>u_remote_udp_fd := -1\<rparr>) (os_close r (release_java_socket r s2)) else s2)"

definition udp_conn_finalize :: "nat \<Rightarrow> 'a udp_scheme \<Rightarrow> 'a udp_scheme" where
  "udp_conn_finalize i s =
     (if u_finalized (g_udp_slots s i) then s\<lparr>g_udp_st_double_fin := g_udp_st_double_fin s + 1\<rparr>
      else
        let s1 = count_close i (upd_sess i (\<lambda>u. u\<lparr>u_finalized := True\<rparr>) s);
            u = g_udp_slots s1 i;
            w = u_widx u;
            s2 = (if u_next u \<noteq> None \<or> u_prev u \<noteq> None \<or> udp_list_head s1 w = Some i
                  then udp_list_remove w i s1 else s1);
            s3 = upd_sess i (\<lambda>u. u\<lparr>u_magic := 0\<rparr>) s2;
            s4 = close_sess_fds i s3;
            s5 = upd_sess i (\<lambda>u. u\<lparr>u_in_buf := None, u_out_buf := None\<rparr>) s4;
            s6 = s5\<lparr>g_conn_count := g_conn_count s5 - 1\<rparr>
        in udp_slot_release (u_slot (g_udp_slots s6 i)) s6)"

definition udp_conn_unref :: "nat \<Rightarrow> 'a udp_scheme \<Rightarrow> 'a udp_scheme" where
  "udp_conn_unref i s =
     (let old = u_refs (g_udp_slots s i);
          s1 = upd_sess i (\<lambda>u. u\<lparr>u_refs := old - 1\<rparr>) s
      in if old = 1 then udp_conn_finalize i s1 else s1)"

definition udp_unref_all :: "nat list \<Rightarrow> 'a udp_scheme \<Rightarrow> 'a udp_scheme" where
  "udp_unref_all g s = foldl (\<lambda>t i. udp_conn_unref i t) s g"

section \<open>The event loop\<close>

definition udp_session_event :: "nat \<Rightarrow> udp_fd_role \<Rightarrow> u32 \<Rightarrow> 'a udp_scheme \<Rightarrow> bool \<times> 'a udp_scheme" where
  "udp_session_event i role ev s =
     (case role of
        UDP_ROLE_CLIENT \<Rightarrow>
          if u_local_udp_fd (g_udp_slots s i) \<ge> 0 then udp_ctrl_event i ev s else udp_client_data_event i ev s
      | UDP_ROLE_LOCAL \<Rightarrow> udp_local_event i s
      | UDP_ROLE_REMOTE \<Rightarrow> udp_remote_event i s)"

definition udp_outcome ::
  "nat \<Rightarrow> nat \<Rightarrow> bool \<Rightarrow> 'a udp_scheme \<times> nat list \<Rightarrow> 'a udp_scheme \<times> nat list" where
  "udp_outcome w i fatal sg =
     (case sg of (s, garbage) \<Rightarrow>
      if fatal then
        (if \<not> u_closed (g_udp_slots s i)
         then (udp_list_remove w i (upd_sess i (\<lambda>u. u\<lparr>u_closed := True\<rparr>) s),
               if length garbage < MAX_EVENTS then garbage @ [i] else garbage)
         else (s, garbage))
      else (udp_update_events w i s, garbage))"

definition udp_worker_event ::
  "nat \<Rightarrow> int \<Rightarrow> u64 \<times> u32 \<Rightarrow> 'a udp_scheme \<times> nat list \<Rightarrow> 'a udp_scheme \<times> nat list" where
  "udp_worker_event w now rawev sg =
     (case rawev of (raw, ev) \<Rightarrow> case sg of (s, garbage) \<Rightarrow>
      if udp_event_is_dns_wake raw then (udp_dns_drain w s, garbage)
      else case udp_event_decode raw of (sidx, egen, role) \<Rightarrow>
        if udp_event_bad_slot (sint sidx) (int UDP_SLOT_COUNT)
        then (s\<lparr>g_udp_st_bad_slot := g_udp_st_bad_slot s + 1\<rparr>, garbage)
        else
          let i = unat sidx; u = g_udp_slots s i in
          case udp_event_check_slot egen (u_gen u) (u_magic u) (g_udp_slot_state s i) (u_closed u) (u_registered u) of
            UDP_EV_PROCESS \<Rightarrow>
              (case udp_session_event i role ev (upd_sess i (\<lambda>u. u\<lparr>u_last_active := now\<rparr>) s) of
                 (fatal, s1) \<Rightarrow> udp_outcome w i fatal (s1, garbage))
          | UDP_EV_STALE \<Rightarrow> (s\<lparr>g_udp_st_stale := g_udp_st_stale s + 1\<rparr>, garbage)
          | UDP_EV_INACTIVE \<Rightarrow> (s, garbage)
          | UDP_EV_NOT_READY \<Rightarrow> (s, garbage))"

fun udp_worker_events ::
  "nat \<Rightarrow> int \<Rightarrow> (u64 \<times> u32) list \<Rightarrow> 'a udp_scheme \<times> nat list \<Rightarrow> bool \<times> 'a udp_scheme \<times> nat list" where
  "udp_worker_events w now [] sg = (False, sg)"
| "udp_worker_events w now (e # es) sg =
     (if fst e = 0 then (True, sg) else udp_worker_events w now es (udp_worker_event w now e sg))"

section \<open>The idle scan\<close>

definition udp_scan_expired :: "int \<Rightarrow> udp_conn \<Rightarrow> bool" where
  "udp_scan_expired now u \<longleftrightarrow>
     u_magic u = UDP_CONN_MAGIC \<and> \<not> u_closed u \<and> u_registered u \<and>
     udp_dns_pend_count (u_pend u) UDP_DNS_PEND_SLOTS = 0 \<and>
     udp_conn_idle_expired now (u_last_active u) UDP_IDLE_TIMEOUT_SEC"

definition udp_scan_sess :: "nat \<Rightarrow> int \<Rightarrow> nat \<Rightarrow> 'a udp_scheme \<times> nat list \<Rightarrow> 'a udp_scheme \<times> nat list" where
  "udp_scan_sess w now i sg =
     (case sg of (s, garbage) \<Rightarrow>
        let u = g_udp_slots s i;
            s1 = (if u_magic u = UDP_CONN_MAGIC \<and> \<not> u_closed u \<and> u_out_len u > 0
                  then upd_sess i (\<lambda>u. u\<lparr>u_last_active := now\<rparr>) s else s)
        in if udp_scan_expired now (g_udp_slots s1 i) then
             (udp_list_remove w i
                (upd_sess i (\<lambda>u. u\<lparr>u_closed := True\<rparr>) (upd_sess i (set_close UDP_CLOSE_IDLE 0) s1)),
              if length garbage < MAX_EVENTS then garbage @ [i] else garbage)
           else (s1, garbage))"

fun udp_scan_loop ::
  "nat \<Rightarrow> nat \<Rightarrow> int \<Rightarrow> nat option \<Rightarrow> 'a udp_scheme \<times> nat list \<Rightarrow> 'a udp_scheme \<times> nat list" where
  "udp_scan_loop 0 w now cur sg = sg"
| "udp_scan_loop (Suc fuel) w now cur sg =
     (case cur of None \<Rightarrow> sg
      | Some i \<Rightarrow> let nxt = u_next (g_udp_slots (fst sg) i)
                  in udp_scan_loop fuel w now nxt (udp_scan_sess w now i sg))"

text \<open>As for the TCP worker, a finished turn leaves the released garbage in the array.\<close>

definition udp_worker_iteration ::
  "nat \<Rightarrow> int \<Rightarrow> (u64 \<times> u32) list \<Rightarrow> int \<Rightarrow> 'a udp_scheme \<Rightarrow> bool \<times> 'a udp_scheme \<times> nat list \<times> int" where
  "udp_worker_iteration w now events last_check s =
     (case udp_worker_events w now events (s, []) of
        (True, s1, g1) \<Rightarrow> (True, s1, g1, last_check)
      | (False, s1, g1) \<Rightarrow>
          (case (if now - last_check \<ge> 5
                 then (udp_scan_loop UDP_SLOT_COUNT w now (udp_list_head s1 w) (s1, g1), now)
                 else ((s1, g1), last_check)) of
             ((s2, g2), lc) \<Rightarrow> (False, udp_unref_all g2 s2, g2, lc)))"

section \<open>Leaving the loop\<close>

fun udp_drain_batch ::
  "nat \<Rightarrow> nat \<Rightarrow> nat option \<Rightarrow> nat list \<Rightarrow> 'a udp_scheme \<Rightarrow> nat list \<times> 'a udp_scheme" where
  "udp_drain_batch 0 w cur collected s = (collected, s)"
| "udp_drain_batch (Suc fuel) w cur collected s =
     (case cur of None \<Rightarrow> (collected, s)
      | Some i \<Rightarrow>
          if length collected < MAX_EVENTS then
            (let nxt = u_next (g_udp_slots s i);
                 s1 = udp_list_remove w i s
             in if u_magic (g_udp_slots s1 i) = UDP_CONN_MAGIC
                then udp_drain_batch fuel w nxt (collected @ [i])
                       (upd_sess i (\<lambda>u. u\<lparr>u_closed := True\<rparr>) (upd_sess i (set_close UDP_CLOSE_SHUTDOWN 0) s1))
                else udp_drain_batch fuel w nxt collected s1)
          else (collected, s))"

text \<open>
  \<open>for (;;)\<close> with one \<open>break\<close>, at a batch that is not full. No bound is visible in the code, so
  the loop is a partial function: \<^term>\<open>None\<close> stands for never leaving it.
\<close>

partial_function (option) udp_drain_loop :: "nat \<Rightarrow> 'a udp_scheme \<Rightarrow> 'a udp_scheme option" where
  "udp_drain_loop w s =
     (let r = udp_drain_batch UDP_SLOT_COUNT w (udp_list_head s w) [] s;
          collected = fst r;
          s2 = udp_unref_all collected (snd r)
      in if length collected < MAX_EVENTS then Some s2 else udp_drain_loop w s2)"

text \<open>
  A thread that never leaves the loop would release nothing of what follows; the state is then left
  as the loop found it. \<open>Udp_Props\<close> shows that this branch is not taken.
\<close>

definition udp_worker_exit :: "nat \<Rightarrow> nat list \<Rightarrow> 'a udp_scheme \<Rightarrow> 'a udp_scheme" where
  "udp_worker_exit w garbage s =
     (let s1 = s\<lparr>uw_stopping := (uw_stopping s)(w := True)\<rparr>
      in case udp_drain_loop w s1 of
           None \<Rightarrow> s1
         | Some s2 \<Rightarrow>
             let s3 = udp_unref_all garbage s2
             in os_close (uw_epoll_fd s3 w) s3)"

section \<open>Starting a session\<close>

definition send_zero_reply :: "fd \<Rightarrow> byte \<Rightarrow> 'a os_scheme \<Rightarrow> 'a os_scheme" where
  "send_zero_reply client_fd rep s =
     snd (os_send s client_fd (socks5_encode_reply rep False [0, 0, 0, 0] [0, 0]))"

text \<open>\<open>atomic_fetch_add(&g_udp_next_worker, 1) % UDP_WORKER_COUNT\<close>, an \<open>int\<close>.\<close>

definition pick_udp_worker :: "u32 \<Rightarrow> int" where
  "pick_udp_worker counter = c_rem (sint counter) (int UDP_WORKER_COUNT)"

definition init_sess :: "nat \<Rightarrow> fd \<Rightarrow> int \<Rightarrow> int \<Rightarrow> bool \<Rightarrow> bool \<Rightarrow> udp_conn \<Rightarrow> udp_conn" where
  "init_sess w client_fd cmd now ok1 ok2 u =
     u\<lparr>u_magic := UDP_CONN_MAGIC, u_cmd := cmd, u_client_fd := client_fd, u_local_udp_fd := -1,
       u_remote_udp_fd := -1, u_widx := w, u_ep_u64 := ep_u64_of (u_gen u) (u_slot u), u_refs := 1,
       u_finalized := False, u_registered := False, u_close_kind := UDP_CLOSE_NONE, u_close_reason := False,
       u_close_errno := 0, u_last_active := now, u_created := now,
       u_in_buf := (if ok1 then Some [] else None), u_out_buf := (if ok2 then Some [] else None)\<rparr>"

text \<open>
  The success reply of UDP ASSOCIATE: the control connection's own address, the relay's port.
  \<open>getsockname\<close> on the relay socket just created answers an address; where it would not, the
  program would read an uninitialised port and the model sends port 0.
\<close>

definition bound_port :: "fd \<Rightarrow> 'a os_scheme \<Rightarrow> byte list" where
  "bound_port f s = (case o_sockname s f of Some a \<Rightarrow> sa_port a | None \<Rightarrow> [0, 0])"

definition associate_reply :: "fd \<Rightarrow> fd \<Rightarrow> 'a os_scheme \<Rightarrow> byte list" where
  "associate_reply client_fd local_fd s =
     (let zero = socks5_encode_reply 0 False [0, 0, 0, 0] [0, 0] in
      case o_sockname s client_fd of
        None \<Rightarrow> zero
      | Some a \<Rightarrow>
          if sa_family a = AF_INET then socks5_encode_reply 0 False (sa_addr a) (bound_port local_fd s)
          else if sa_family a = AF_INET6 then
            (if v4mapped (sa_addr a) then socks5_encode_reply 0 False (drop 12 (sa_addr a)) (bound_port local_fd s)
             else socks5_encode_reply 0 True (sa_addr a) (bound_port local_fd s))
          else zero)"

text \<open>Recording a setup failure, answering the client and giving the session up.\<close>

definition refuse_session :: "nat \<Rightarrow> fd \<Rightarrow> byte \<Rightarrow> int \<Rightarrow> 'a udp_scheme \<Rightarrow> 'a udp_scheme" where
  "refuse_session i client_fd rep e s =
     udp_conn_unref i (send_zero_reply client_fd rep (upd_sess i (set_close UDP_CLOSE_RESOURCE e) s))"

text \<open>The dual-stack relay socket, IPv4 when IPv6 is not available.\<close>

definition relay_socket :: "'a os_scheme \<Rightarrow> (fd \<times> int) \<times> 'a os_scheme" where
  "relay_socket s = (case os_socket s of ((f, e), s1) \<Rightarrow> if f \<ge> 0 then ((f, e), s1) else os_socket s1)"

text \<open>Sockets and reply; \<open>False\<close> when the session was refused and released.\<close>

definition open_associate :: "nat \<Rightarrow> fd \<Rightarrow> 'a udp_scheme \<Rightarrow> bool \<times> 'a udp_scheme" where
  "open_associate i client_fd s =
     (case relay_socket s of ((l, e), s1) \<Rightarrow>
      if l < 0 then (False, refuse_session i client_fd 0x01 e s1)
      else let s2 = upd_sess i (\<lambda>u. u\<lparr>u_local_udp_fd := l\<rparr>) s1 in
        case request_java_5g_socket s2 of ((r, e2), s3) \<Rightarrow>
        if r < 0 then (False, refuse_session i client_fd 0x04 e2 s3)
        else let s4 = upd_sess i (\<lambda>u. u\<lparr>u_remote_udp_fd := r\<rparr>) s3;
                 s5 = snd (os_send s4 client_fd (associate_reply client_fd l s4))
             in (True, case o_peername s5 client_fd of
                         Some a \<Rightarrow> upd_sess i (\<lambda>u. u\<lparr>u_peer_ss := a\<rparr>) s5
                       | None \<Rightarrow> s5))"

definition open_udp_in_tcp :: "nat \<Rightarrow> fd \<Rightarrow> 'a udp_scheme \<Rightarrow> bool \<times> 'a udp_scheme" where
  "open_udp_in_tcp i client_fd s =
     (case request_java_5g_socket s of ((r, e), s1) \<Rightarrow>
      if r < 0 then (False, refuse_session i client_fd 0x04 e s1)
      else (True, send_zero_reply client_fd 0x00 (upd_sess i (\<lambda>u. u\<lparr>u_remote_udp_fd := r\<rparr>) s1)))"

text \<open>The two or three registrations; each is attempted only when the ones before succeeded.\<close>

definition register_sess :: "fd \<Rightarrow> nat \<Rightarrow> 'a udp_scheme \<Rightarrow> bool \<times> 'a udp_scheme" where
  "register_sess ep i s =
     (let u = g_udp_slots s i;
          c_ev = (if u_local_udp_fd u \<ge> 0 then EPOLLRDHUP else EPOLLIN OR EPOLLRDHUP);
          s1 = upd_sess i (\<lambda>u. u\<lparr>u_client_events := c_ev\<rparr>) s in
      case os_epoll_ctl s1 CTL_ADD ep (u_client_fd u) c_ev (u_ep_u64 u) of
        (False, s2) \<Rightarrow> (False, s2)
      | (True, s2) \<Rightarrow>
          (case (if u_local_udp_fd u \<ge> 0
                 then os_epoll_ctl (upd_sess i (\<lambda>u. u\<lparr>u_local_events := EPOLLIN\<rparr>) s2) CTL_ADD ep (u_local_udp_fd u)
                        EPOLLIN (u_ep_u64 u OR UDP_EV_ROLE_LOCAL_FLAG)
                 else (True, s2)) of
             (False, s3) \<Rightarrow> (False, s3)
           | (True, s3) \<Rightarrow>
               os_epoll_ctl (upd_sess i (\<lambda>u. u\<lparr>u_remote_events := EPOLLIN\<rparr>) s3) CTL_ADD ep (u_remote_udp_fd u)
                 EPOLLIN (u_ep_u64 u OR UDP_EV_ROLE_REMOTE_FLAG)))"

definition admit_sess :: "nat \<Rightarrow> nat \<Rightarrow> 'a udp_scheme \<Rightarrow> 'a udp_scheme" where
  "admit_sess w i s =
     (if uw_stopping s w then udp_conn_unref i (upd_sess i (set_close UDP_CLOSE_SHUTDOWN 0) s)
      else case register_sess (uw_epoll_fd s w) i (udp_list_add w i s) of
        (False, s1) \<Rightarrow>
          udp_conn_unref i (udp_list_remove w i (upd_sess i (\<lambda>u. u\<lparr>u_closed := True\<rparr>)
            (upd_sess i (set_close UDP_CLOSE_RESOURCE 0) s1)))
      | (True, s1) \<Rightarrow> upd_sess i (\<lambda>u. u\<lparr>u_registered := True\<rparr>) s1)"

text \<open>\<open>None\<close> is undefined behaviour: the counter has wrapped and \<open>udp_workers[u->widx]\<close> is out of bounds.\<close>

definition udp_start_session :: "fd \<Rightarrow> int \<Rightarrow> 'a udp_scheme \<Rightarrow> 'a udp_scheme option" where
  "udp_start_session client_fd cmd s =
     (let cnt = g_conn_count s; s0 = s\<lparr>g_conn_count := cnt + 1\<rparr> in
      if cnt \<ge> MAX_CONCURRENT_CONNS
      then Some (os_close client_fd (send_zero_reply client_fd 0x01 (s0\<lparr>g_conn_count := g_conn_count s0 - 1\<rparr>)))
      else case udp_slot_acquire s0 of
        (None, s1) \<Rightarrow>
          Some (os_close client_fd (send_zero_reply client_fd 0x01 (s1\<lparr>g_conn_count := g_conn_count s1 - 1\<rparr>)))
      | (Some i, s1) \<Rightarrow>
          let wi = pick_udp_worker (g_udp_next_worker s1);
              s2 = s1\<lparr>g_udp_next_worker := g_udp_next_worker s1 + 1\<rparr>
          in if wi < 0 then None else Some (
             let w = nat wi in
             case os_malloc s2 of (ok1, s3) \<Rightarrow> case os_malloc s3 of (ok2, s4) \<Rightarrow>
             let s5 = upd_sess i (init_sess w client_fd cmd (o_now s4) ok1 ok2) s4 in
             if \<not> ok1 \<or> \<not> ok2 then udp_conn_unref i (upd_sess i (set_close UDP_CLOSE_RESOURCE 0) s5)
             else case (if cmd = 0x03 then open_associate i client_fd s5 else open_udp_in_tcp i client_fd s5) of
               (False, s6) \<Rightarrow> s6
             | (True, s6) \<Rightarrow> admit_sess w i s6))"

end
