(* ===== verification/Udp_Engine.thy ===== *)
theory Udp_Engine
  imports Udp_Worker Session_Table
begin

unbundle bit_operations_syntax

text \<open>
  The UDP engine refines the session table: every operation on sessions acts on the view of the
  state as the abstract operation of \<open>Session_Table\<close>, everything else leaves the view alone. The
  ownership invariant of the table therefore holds for the engine in every worker turn, on the
  way out of the loop and for every outcome of a session start.
\<close>

section \<open>The view\<close>

definition cell_of :: "udp_conn \<Rightarrow> cell" where
  "cell_of u = \<lparr>cl_live = (u_magic u = UDP_CONN_MAGIC), cl_closed = u_closed u, cl_reg = u_registered u,
     cl_refs = u_refs u, cl_fin = u_finalized u, cl_widx = u_widx u, cl_slot = u_slot u,
     cl_next = u_next u, cl_prev = u_prev u\<rparr>"

definition tbl :: "'a udp_scheme \<Rightarrow> table" where
  "tbl s = \<lparr>tb_cell = (\<lambda>i. cell_of (g_udp_slots s i)), tb_active = g_udp_slot_state s, tb_free = udp_free s,
     tb_head = udp_list_head s, tb_count = g_conn_count s\<rparr>"

lemma cell_of_simps [simp]:
  "cl_live (cell_of u) \<longleftrightarrow> u_magic u = UDP_CONN_MAGIC" "cl_closed (cell_of u) = u_closed u" "cl_reg (cell_of u) = u_registered u"
  "cl_refs (cell_of u) = u_refs u" "cl_fin (cell_of u) = u_finalized u" "cl_widx (cell_of u) = u_widx u"
  "cl_slot (cell_of u) = u_slot u" "cl_next (cell_of u) = u_next u" "cl_prev (cell_of u) = u_prev u"
  by (simp_all add: cell_of_def)

lemma tbl_simps [simp]:
  "tb_cell (tbl s) i = cell_of (g_udp_slots s i)" "tb_active (tbl s) = g_udp_slot_state s" "tb_free (tbl s) = udp_free s"
  "tb_head (tbl s) = udp_list_head s" "tb_count (tbl s) = g_conn_count s"
  by (simp_all add: tbl_def)

text \<open>Two states with the same view, generations and worker fields; all the data path keeps them.\<close>

definition same_ses :: "'a udp_scheme \<Rightarrow> 'a udp_scheme \<Rightarrow> bool" where
  "same_ses s t \<longleftrightarrow> tbl t = tbl s \<and> (\<forall>i. u_gen (g_udp_slots t i) = u_gen (g_udp_slots s i)) \<and>
     uw_epoll_fd t = uw_epoll_fd s \<and> uw_stopping t = uw_stopping s \<and>
     g_udp_free_slots t = g_udp_free_slots s \<and> g_udp_free_slot_top t = g_udp_free_slot_top s"

lemma same_ses_refl [simp]: "same_ses s s"
  by (simp add: same_ses_def)

lemma same_ses_trans [trans]: "same_ses s t \<Longrightarrow> same_ses t u \<Longrightarrow> same_ses s u"
  by (simp add: same_ses_def)

lemma tbl_upd:
  assumes "\<And>u. cell_of (f u) = g (cell_of u)"
  shows "tbl (upd_sess i f s) = upd_cell i g (tbl s)"
  using assms by (simp add: tbl_def upd_cell_def upd_sess_def udp_free_def fun_eq_iff)

lemma same_ses_upd:
  assumes "cell_of (f (g_udp_slots s i)) = cell_of (g_udp_slots s i)"
    and "u_gen (f (g_udp_slots s i)) = u_gen (g_udp_slots s i)"
  shows "same_ses s (upd_sess i f s)"
  using assms by (simp add: same_ses_def tbl_def udp_free_def fun_eq_iff)

lemma same_ses_cells:
  assumes "\<And>j. cell_of (g_udp_slots t j) = cell_of (g_udp_slots s j) \<and> u_gen (g_udp_slots t j) = u_gen (g_udp_slots s j)"
    and "g_udp_slot_state t = g_udp_slot_state s" "udp_list_head t = udp_list_head s" "g_conn_count t = g_conn_count s"
    and "g_udp_free_slots t = g_udp_free_slots s" "g_udp_free_slot_top t = g_udp_free_slot_top s"
    and "uw_epoll_fd t = uw_epoll_fd s" "uw_stopping t = uw_stopping s"
  shows "same_ses s t"
  using assms by (simp add: same_ses_def tbl_def udp_free_def fun_eq_iff)

section \<open>The data path leaves the view alone\<close>

lemma routed_same_ses: "routed s t \<Longrightarrow> same_ses s t"
proof -
  assume r: "routed s t"
  have "cell_of (g_udp_slots t j) = cell_of (g_udp_slots s j) \<and> u_gen (g_udp_slots t j) = u_gen (g_udp_slots s j)" for j
  proof -
    from r obtain p where "g_udp_slots t j = (g_udp_slots s j)\<lparr>u_pend := p\<rparr>" by (auto simp: routed_def)
    then show ?thesis by (simp add: cell_of_def)
  qed
  then show ?thesis using r by (intro same_ses_cells) (auto simp: routed_def)
qed

lemmas same_ses_route = routed_same_ses [OF routed_route]

text \<open>Updates of fields outside the view.\<close>

lemma cell_of_data [simp]:
  "cell_of (u\<lparr>u_out_off := a\<rparr>) = cell_of u" "cell_of (u\<lparr>u_out_len := b\<rparr>) = cell_of u"
  "cell_of (u\<lparr>u_in_buf := c\<rparr>) = cell_of u" "cell_of (u\<lparr>u_out_buf := c\<rparr>) = cell_of u"
  "cell_of (u\<lparr>u_client_src := d\<rparr>) = cell_of u" "cell_of (u\<lparr>u_len_bytes := l\<rparr>) = cell_of u"
  "cell_of (u\<lparr>u_len_got := a\<rparr>) = cell_of u" "cell_of (u\<lparr>u_frame_expect := a\<rparr>) = cell_of u"
  "cell_of (u\<lparr>u_frame_got := a\<rparr>) = cell_of u" "cell_of (u\<lparr>u_last_active := n\<rparr>) = cell_of u"
  "cell_of (u\<lparr>u_client_events := m\<rparr>) = cell_of u" "cell_of (u\<lparr>u_local_events := m\<rparr>) = cell_of u"
  "cell_of (u\<lparr>u_remote_events := m\<rparr>) = cell_of u" "cell_of (u\<lparr>u_pend := p\<rparr>) = cell_of u"
  "cell_of (u\<lparr>u_peer_ss := q\<rparr>) = cell_of u" "cell_of (u\<lparr>u_local_udp_fd := fd\<rparr>) = cell_of u"
  "cell_of (u\<lparr>u_remote_udp_fd := fd\<rparr>) = cell_of u" "cell_of (u\<lparr>u_client_fd := fd\<rparr>) = cell_of u"
  "cell_of (set_close k e u) = cell_of u" "u_gen (set_close k e u) = u_gen u"
  by (simp_all add: cell_of_def set_close_def)

text \<open>
  A frame of the data path: a preorder on states that tolerates the kernel's answers, byte counters,
  name resolution and updates of session fields outside the view. Whatever is such a frame is kept
  by the handling of every session event. It is used twice: for the session table itself, and for
  the tables of the TCP engine, which share the process.
\<close>

locale data_frame =
  fixes R :: "'a udp_scheme \<Rightarrow> 'a udp_scheme \<Rightarrow> bool"
  assumes R_refl: "R s s"
    and R_trans: "R s t \<Longrightarrow> R t u \<Longrightarrow> R s u"
    and kernel: "R s (s\<lparr>o_recv := a, o_send := b, o_dgram := c, o_sendto := d, o_ctl := e, o_log := l\<rparr>)"
    and bytes: "R s (s\<lparr>g_udp_rx_bytes := x, g_udp_tx_bytes := y\<rparr>)"
    and upd: "(\<And>u. cell_of (f u) = cell_of u) \<Longrightarrow> (\<And>u. u_gen (f u) = u_gen u) \<Longrightarrow> R s (upd_sess i f s)"
    and route: "R s (udp_route_frame i atyp addr port payload s)"
    and counters: "R s (s\<lparr>g_dns_st_lost := nl, g_dns_st_replay := nr, g_dns_st_drop := nd\<rparr>)"
    and job: "R s (upd_job w k g s)"
    and cache: "R s (dns_cache_put host sa now s)"
begin

lemma recv: "os_recv s f n = ((r, d, e), t) \<Longrightarrow> R s t"
  by (drule os_recv_form) (use kernel [where s = s and b = "o_send s" and c = "o_dgram s" and d = "o_sendto s" and e = "o_ctl s" and l = "o_log s"] in auto)

lemma recvfrom: "os_recvfrom s f n = ((r, d, a, e), t) \<Longrightarrow> R s t"
  by (drule os_recvfrom_form) (use kernel [where s = s and a = "o_recv s" and b = "o_send s" and d = "o_sendto s" and e = "o_ctl s" and l = "o_log s"] in auto)

lemma send: "os_send s f bs = ((r, e), t) \<Longrightarrow> R s t"
  by (drule os_send_form) (use kernel [where s = s and a = "o_recv s" and c = "o_dgram s" and d = "o_sendto s" and e = "o_ctl s"] in auto)

lemma sendto: "os_sendto s f bs a = ((r, e), t) \<Longrightarrow> R s t"
  by (drule os_sendto_form) (use kernel [where s = s and a = "o_recv s" and b = "o_send s" and c = "o_dgram s" and e = "o_ctl s"] in auto)

lemma ctl: "os_epoll_ctl s op ep f ev u = (b, t) \<Longrightarrow> R s t"
  using kernel [where s = s and a = "o_recv s" and b = "o_send s" and c = "o_dgram s" and d = "o_sendto s" and e = "o_ctl s" and l = "o_log s @ [CTL op ep f ev u]"]
    kernel [where s = s and a = "o_recv s" and b = "o_send s" and c = "o_dgram s" and d = "o_sendto s" and e = "tl (o_ctl s)" and l = "o_log s @ [CTL op ep f ev u]"]
    kernel [where s = s and a = "o_recv s" and b = "o_send s" and c = "o_dgram s" and d = "o_sendto s" and e = "tl (o_ctl s)" and l = "o_log s"]
  by (auto simp: os_epoll_ctl_def log_ev_def split: list.splits if_splits)

lemma flush_out: "udp_flush_out i s = (b, t) \<Longrightarrow> R s t"
proof (induction i s arbitrary: b t rule: udp_flush_out.induct)
  case (1 i s)
  let ?u = "g_udp_slots s i"
  let ?bs = "take (u_out_len ?u - u_out_off ?u) (drop (u_out_off ?u) (buf_of (u_out_buf ?u)))"
  obtain n e s1 where os: "os_send s (u_client_fd ?u) ?bs = ((n, e), s1)" by (metis prod.exhaust)
  note c1 = send [OF os]
  show ?case
  proof (cases "u_out_off ?u < u_out_len ?u \<and> n > 0")
    case True
    let ?s2 = "upd_sess i (\<lambda>u. u\<lparr>u_out_off := u_out_off u + nat n\<rparr>) s1"
    have "udp_flush_out i ?s2 = (b, t)" using "1.prems" True os by (simp add: udp_flush_out.simps [of i s] Let_def)
    with "1.IH" [OF refl _ os [symmetric] refl] True have "R ?s2 t" by simp
    moreover have "R s1 ?s2" by (rule upd) simp_all
    ultimately show ?thesis using c1 by (blast intro: R_trans)
  next
    case False
    then have "t = s1 \<or> t = upd_sess i (set_close UDP_CLOSE_IO e) s1 \<or> t = upd_sess i (\<lambda>u. u\<lparr>u_out_len := 0, u_out_off := 0\<rparr>) s"
      using "1.prems" os by (auto simp: udp_flush_out.simps [of i s] Let_def split: if_splits)
    then show ?thesis using c1 upd [of "set_close UDP_CLOSE_IO e" s1 i]
        upd [of "\<lambda>u. u\<lparr>u_out_len := 0, u_out_off := 0\<rparr>" s i] by (auto intro: R_trans)
  qed
qed

lemma step: "R s t \<Longrightarrow> (\<And>u. cell_of (f u) = cell_of u) \<Longrightarrow> (\<And>u. u_gen (f u) = u_gen u) \<Longrightarrow> R s (upd_sess i f t)"
  by (rule R_trans [OF _ upd]) simp_all

lemma count: "R s t \<Longrightarrow> R s (count_rx i r t)"
  using bytes [where s = t and y = "g_udp_tx_bytes t"] by (auto simp: count_rx_def Let_def intro: R_trans)

lemma os_sendto: "R s t \<Longrightarrow> R s (snd (os_sendto t f bs a))"
  using sendto [of t f bs a] by (metis prod.collapse R_trans)

lemma routed: "R s t \<Longrightarrow> R s (udp_route_frame i a b c d t)"
  by (rule R_trans [OF _ route])

lemmas intros = R_refl step count os_sendto routed

lemma ctrl: "udp_ctrl_event i ev s = (b, t) \<Longrightarrow> R s t"
  by (auto simp: udp_ctrl_event_def split: if_splits prod.splits dest!: recv intro!: intros)

lemma local_dgram: "R s (local_datagram i d src s)"
  by (auto simp: local_datagram_def Let_def split: option.split intro!: intros)

lemma local: "udp_local_event i s = (b, t) \<Longrightarrow> R s t"
proof (induction i s arbitrary: b t rule: udp_local_event.induct)
  case (1 i s)
  obtain r d a e s1 where os: "os_recvfrom s (u_local_udp_fd (g_udp_slots s i)) BUFFER_SIZE = ((r, d, a, e), s1)"
    by (metis prod.exhaust)
  note c1 = recvfrom [OF os]
  show ?case
  proof (cases "r < 0")
    case True
    then show ?thesis using "1.prems" os c1
      by (auto simp: udp_local_event.simps [of i s] split: if_splits intro!: intros)
  next
    case False
    then have "udp_local_event i (local_datagram i d a s1) = (b, t)"
      using "1.prems" os by (simp add: udp_local_event.simps [of i s])
    from "1.IH" [OF os [symmetric] refl refl refl False this] show ?thesis
      using c1 local_dgram [of s1 i d a] by (blast intro: R_trans)
  qed
qed

lemma remote_dgram03: "R s (remote_datagram03 i d src s)"
  by (auto simp: remote_datagram03_def Let_def split: option.split intro!: intros)

lemma remote_dgram04: "remote_datagram04 i d src s = (b, t) \<Longrightarrow> R s t"
  by (auto simp: remote_datagram04_def Let_def split: if_splits dest!: flush_out
      intro!: intros elim!: R_trans [rotated])

lemma remote03: "udp_remote03 i s = (b, t) \<Longrightarrow> R s t"
proof (induction i s arbitrary: b t rule: udp_remote03.induct)
  case (1 i s)
  obtain r d a e s1 where os: "os_recvfrom s (u_remote_udp_fd (g_udp_slots s i)) (BUFFER_SIZE - 22) = ((r, d, a, e), s1)"
    by (metis prod.exhaust)
  note c1 = recvfrom [OF os]
  show ?case
  proof (cases "r < 0")
    case True
    then show ?thesis using "1.prems" os c1
      by (auto simp: udp_remote03.simps [of i s] split: if_splits intro!: intros)
  next
    case False
    then have "udp_remote03 i (remote_datagram03 i d a s1) = (b, t)"
      using "1.prems" os by (simp add: udp_remote03.simps [of i s])
    from "1.IH" [OF os [symmetric] refl refl refl False this] show ?thesis
      using c1 remote_dgram03 [of s1 i d a] by (blast intro: R_trans)
  qed
qed

lemma remote04: "udp_remote04 i s = (b, t) \<Longrightarrow> R s t"
proof (induction i s arbitrary: b t rule: udp_remote04.induct)
  case (1 i s)
  obtain r d a e s1 where os: "os_recvfrom s (u_remote_udp_fd (g_udp_slots s i)) (BUFFER_SIZE - 24) = ((r, d, a, e), s1)"
    by (metis prod.exhaust)
  obtain f s2 where dg: "remote_datagram04 i d a s1 = (f, s2)" by (metis prod.exhaust)
  note c1 = recvfrom [OF os] and c2 = R_trans [OF recvfrom [OF os] remote_dgram04 [OF dg]]
  show ?case
  proof (cases "u_out_len (g_udp_slots s i) > 0 \<or> r < 0 \<or> f")
    case True
    then show ?thesis using "1.prems" os dg c1 c2
      by (auto simp: udp_remote04.simps [of i s] split: if_splits bool.splits intro!: intros)
  next
    case False
    then have "udp_remote04 i s2 = (b, t)" using "1.prems" os dg by (simp add: udp_remote04.simps [of i s])
    with "1.IH" [OF _ os [symmetric] refl refl refl _ dg [symmetric]] False have "R s2 t" by simp
    then show ?thesis using c2 by (blast intro: R_trans)
  qed
qed

lemma remote: "udp_remote_event i s = (b, t) \<Longrightarrow> R s t"
  by (auto simp: udp_remote_event_def split: if_splits dest: remote03 remote04)

lemma recv_len: "recv_length i s = (r, t) \<Longrightarrow> R s t"
  by (auto simp: recv_length_def Let_def split: if_splits prod.splits dest!: recv intro!: intros)

lemma recv_bdy: "recv_body i s = (r, t) \<Longrightarrow> R s t"
  by (auto simp: recv_body_def Let_def split: if_splits prod.splits dest!: recv intro!: intros)

lemma deliver: "R s (deliver_frame i s)"
  by (auto simp: deliver_frame_def Let_def split: option.split intro!: intros)

lemma frames: "frame_loop i s = (b, fs, t) \<Longrightarrow> R s t"
proof (induction i s arbitrary: b fs t rule: frame_loop.induct)
  case (1 i s)
  let ?u = "g_udp_slots s i"
  obtain r1 s1 where st1: "recv_length i s = (r1, s1)" by (metis prod.exhaust)
  obtain r2 s2 where st2: "recv_body i s = (r2, s2)" by (metis prod.exhaust)
  note c = recv_len [OF st1] recv_bdy [OF st2]
  consider (len) "u_len_got ?u < 2" | (body) "\<not> u_len_got ?u < 2" "u_frame_got ?u < u_frame_expect ?u"
    | (full) "\<not> u_len_got ?u < 2" "\<not> u_frame_got ?u < u_frame_expect ?u" by blast
  then show ?case
  proof cases
    case len
    show ?thesis
    proof (cases r1)
      case None
      then have "frame_loop i s1 = (b, fs, t)" using "1.prems" len st1 by (simp add: frame_loop.simps [of i s] Let_def)
      from "1.IH"(1) [OF refl len st1 [symmetric] None this] c show ?thesis by (blast intro: R_trans)
    qed (use "1.prems" len st1 c in \<open>auto simp: frame_loop.simps [of i s] Let_def\<close>)
  next
    case body
    show ?thesis
    proof (cases r2)
      case None
      then have "frame_loop i s2 = (b, fs, t)" using "1.prems" body st2 by (simp add: frame_loop.simps [of i s] Let_def)
      from "1.IH"(2) [OF refl body st2 [symmetric] None this] c show ?thesis by (blast intro: R_trans)
    qed (use "1.prems" body st2 c in \<open>auto simp: frame_loop.simps [of i s] Let_def\<close>)
  next
    case full
    obtain fs' where "frame_loop i (deliver_frame i s) = (b, fs', t)"
      using "1.prems" full by (auto simp: frame_loop.simps [of i s] Let_def split: prod.splits)
    from "1.IH"(3) [OF refl full this] deliver [of s i] show ?thesis by (blast intro: R_trans)
  qed
qed

lemma client_data:
  assumes "udp_client_data_event i ev s = (b, t)"
  shows "R s t"
proof -
  obtain f s1 where 1: "(if u_out_len (g_udp_slots s i) > 0 then udp_flush_out i s else (False, s)) = (f, s1)"
    by (metis prod.exhaust)
  obtain g fs s2 where 2: "frame_loop i s1 = (g, fs, s2)" by (metis prod.exhaust)
  have "R s s1" using 1 R_refl by (auto split: if_splits dest: flush_out)
  moreover have "t = s1 \<or> t = s2"
    using assms unfolding udp_client_data_event_def 1 by (cases f) (auto simp: 2 split: if_splits)
  ultimately show ?thesis using frames [OF 2] by (blast intro: R_trans)
qed

lemma session_event: "udp_session_event i role ev s = (b, t) \<Longrightarrow> R s t"
  by (auto simp: udp_session_event_def split: udp_fd_role.splits if_splits
      dest: ctrl client_data local remote)

lemma mod_events:
  assumes "R s t" and "\<And>u. cell_of (f u) = cell_of u" and "\<And>u. u_gen (f u) = u_gen u"
  shows "R s (case os_epoll_ctl t op ep fd ev x of (True, t') \<Rightarrow> upd_sess i f t' | (False, t') \<Rightarrow> t')"
proof -
  obtain b t' where ct: "os_epoll_ctl t op ep fd ev x = (b, t')" by (metis prod.exhaust)
  have "R s t'" using assms(1) ctl [OF ct] by (blast intro: R_trans)
  then show ?thesis using assms(2,3) by (cases b) (auto simp: ct intro: step)
qed

lemma update_events: "R s (udp_update_events w i s)"
proof -
  define u where "u = g_udp_slots s i"
  define c_ev where "c_ev = (let c0 = (if u_local_udp_fd u \<ge> 0 then EPOLLRDHUP else EPOLLIN OR EPOLLRDHUP)
      in if u_local_udp_fd u < 0 \<and> u_out_len u > 0 then c0 OR EPOLLOUT else c0)"
  define s1 where "s1 = (if u_client_events u \<noteq> c_ev then
      (case os_epoll_ctl s CTL_MOD (uw_epoll_fd s w) (u_client_fd u) c_ev (u_ep_u64 u) of
         (True, t) \<Rightarrow> upd_sess i (\<lambda>u. u\<lparr>u_client_events := c_ev\<rparr>) t | (False, t) \<Rightarrow> t) else s)"
  have s1: "R s s1"
    unfolding s1_def by (auto intro!: mod_events R_refl)
  have "udp_update_events w i s = s \<or> udp_update_events w i s = s1 \<or>
      (\<exists>r_ev. udp_update_events w i s = (case os_epoll_ctl s1 CTL_MOD (uw_epoll_fd s1 w) (u_remote_udp_fd u) r_ev
                        (u_ep_u64 u OR UDP_EV_ROLE_REMOTE_FLAG) of
                   (True, t) \<Rightarrow> upd_sess i (\<lambda>u. u\<lparr>u_remote_events := r_ev\<rparr>) t | (False, t) \<Rightarrow> t))"
    unfolding udp_update_events_def Let_def u_def [symmetric] c_ev_def [unfolded Let_def, symmetric] s1_def [symmetric] by auto
  then show ?thesis using s1 by (elim disjE exE) (auto intro!: mod_events [OF s1] R_refl)
qed

text \<open>Name resolution.\<close>

lemma send_5g: "R s t \<Longrightarrow> R s (udp_send_5g i p dst t)"
proof -
  assume st: "R s t"
  obtain q l x where f: "udp_send_5g i p dst t = t\<lparr>o_sendto := q, o_log := l, g_udp_tx_bytes := x\<rparr>"
    using udp_send_5g_form [of i p dst t] by blast
  let ?t = "t\<lparr>o_sendto := q, o_log := l\<rparr>"
  have "R t ?t" using kernel [where s = t and a = "o_recv t" and b = "o_send t" and c = "o_dgram t" and d = q and e = "o_ctl t" and l = l] by simp
  moreover have "R ?t (?t\<lparr>g_udp_tx_bytes := x\<rparr>)" using bytes [where s = ?t and x = "g_udp_rx_bytes t" and y = x] by simp
  ultimately show ?thesis unfolding f using st by (auto intro: R_trans)
qed

lemma counted:
  "R s t \<Longrightarrow> R s (t\<lparr>g_dns_st_lost := n\<rparr>)" "R s t \<Longrightarrow> R s (t\<lparr>g_dns_st_replay := n\<rparr>)" "R s t \<Longrightarrow> R s (t\<lparr>g_dns_st_drop := n\<rparr>)"
  using counters [where s = t and nl = n and nr = "g_dns_st_replay t" and nd = "g_dns_st_drop t"] counters [where s = t and nl = "g_dns_st_lost t" and nr = n and nd = "g_dns_st_drop t"]
    counters [where s = t and nl = "g_dns_st_lost t" and nr = "g_dns_st_replay t" and nd = n] by (auto intro: R_trans)

lemma flush_pend: "R s t \<Longrightarrow> R s (flush_pend host dst i t k)"
  by (auto simp: flush_pend_def Let_def upd_pend_def intro!: step counted send_5g)

lemma drop_pend: "R s t \<Longrightarrow> R s (drop_pend host i t k)"
  by (auto simp: drop_pend_def Let_def upd_pend_def intro!: step counted)

lemma flush_pending: "R s t \<Longrightarrow> R s (udp_dns_flush_pending w host dst t)"
  unfolding udp_dns_flush_pending_def
  by (rule sess_walk_induct [of "R s"]) (auto intro!: foldl_induct [of "R s"] intro: flush_pend)

lemma drop_pending: "R s t \<Longrightarrow> R s (udp_dns_drop_pending w host t)"
  unfolding udp_dns_drop_pending_def
  by (rule sess_walk_induct [of "R s"]) (auto intro!: foldl_induct [of "R s"] intro: drop_pend)

lemma drain: "R s (udp_dns_drain w s)"
proof -
  have "R s (drain_job w now t k)" if "R s t" for t k now
    using that by (auto simp: drain_job_def Let_def split: udp_dns_state.split option.split
        intro!: R_trans [OF _ job] intro: flush_pending drop_pending R_trans [OF _ cache])
  then show ?thesis unfolding udp_dns_drain_def by (intro foldl_induct [of "R s"]) (simp_all add: R_refl)
qed

end

text \<open>The session table is such a frame.\<close>

interpretation ses: data_frame same_ses
proof (unfold_locales, goal_cases)
  case (2 s t u)
  then show ?case by (rule same_ses_trans)
next
  case (6 s i atyp addr port payload)
  then show ?case by (rule same_ses_route)
qed (auto intro!: same_ses_cells intro: same_ses_upd simp: upd_job_def dns_cache_put_def Let_def)

lemmas same_ses_send = ses.send and same_ses_ctl = ses.ctl and same_ses_step = ses.step
  and same_ses_session_event = ses.session_event and same_ses_update_events = ses.update_events and same_ses_drain = ses.drain

section \<open>Refinement of the session operations\<close>

text \<open>Unlinking, linking and closing act on the view as the table's operations.\<close>

lemma cell_of_ctl [simp]:
  "cell_of (u\<lparr>u_next := n\<rparr>) = (cell_of u)\<lparr>cl_next := n\<rparr>" "cell_of (u\<lparr>u_prev := p\<rparr>) = (cell_of u)\<lparr>cl_prev := p\<rparr>"
  "cell_of (u\<lparr>u_closed := b\<rparr>) = (cell_of u)\<lparr>cl_closed := b\<rparr>" "cell_of (u\<lparr>u_registered := b\<rparr>) = (cell_of u)\<lparr>cl_reg := b\<rparr>"
  "cell_of (u\<lparr>u_refs := k\<rparr>) = (cell_of u)\<lparr>cl_refs := k\<rparr>" "cell_of (u\<lparr>u_finalized := b\<rparr>) = (cell_of u)\<lparr>cl_fin := b\<rparr>"
  "cell_of (u\<lparr>u_magic := 0\<rparr>) = (cell_of u)\<lparr>cl_live := False\<rparr>"
  by (simp_all add: cell_of_def UDP_CONN_MAGIC_def)

lemma tbl_head: "tbl (s\<lparr>udp_list_head := h\<rparr>) = (tbl s)\<lparr>tb_head := h\<rparr>"
  by (simp add: tbl_def udp_free_def)

lemma tbl_links:
  "tbl (upd_sess i (\<lambda>u. u\<lparr>u_next := x\<rparr>) s) = upd_cell i (\<lambda>c. c\<lparr>cl_next := x\<rparr>) (tbl s)"
  "tbl (upd_sess i (\<lambda>u. u\<lparr>u_prev := x\<rparr>) s) = upd_cell i (\<lambda>c. c\<lparr>cl_prev := x\<rparr>) (tbl s)"
  by (rule tbl_upd, simp)+

lemma tbl_unlink: "tbl (udp_list_remove w i s) = tb_unlink w i (tbl s)"
  by (cases "u_prev (g_udp_slots s i)"; cases "u_next (g_udp_slots s i)")
    (auto simp: udp_list_remove_def tb_unlink_def Let_def tbl_links tbl_head upd_cell_twice split: option.split)

lemma tbl_link: "tbl (udp_list_add w i s) = tb_link w i (tbl s)"
  by (cases "udp_list_head s w")
    (simp_all add: udp_list_add_def tb_link_def Let_def tbl_links tbl_head upd_cell_twice)

lemma tbl_close: "tbl (upd_sess i (\<lambda>u. u\<lparr>u_closed := True\<rparr>) s) = upd_cell i (\<lambda>c. c\<lparr>cl_closed := True\<rparr>) (tbl s)"
  by (rule tbl_upd) simp

lemma tbl_data: "(\<And>u. cell_of (f u) = cell_of u) \<Longrightarrow> tbl (upd_sess i f s) = tbl s"
  by (simp add: tbl_def udp_free_def fun_eq_iff)

text \<open>Fields besides the view that taking sessions down keeps.\<close>

definition same_rest :: "'a udp_scheme \<Rightarrow> 'a udp_scheme \<Rightarrow> bool" where
  "same_rest s t \<longleftrightarrow> (\<forall>j. u_gen (g_udp_slots t j) = u_gen (g_udp_slots s j)) \<and>
     uw_epoll_fd t = uw_epoll_fd s \<and> uw_stopping t = uw_stopping s"

lemma same_rest_refl [simp]: "same_rest s s"
  by (simp add: same_rest_def)

lemma same_rest_trans: "same_rest s t \<Longrightarrow> same_rest t u \<Longrightarrow> same_rest s u"
  by (simp add: same_rest_def)

lemma same_ses_rest: "same_ses s t \<Longrightarrow> same_rest s t"
  by (simp add: same_ses_def same_rest_def)

lemma same_rest_upd: "same_rest s t \<Longrightarrow> (\<And>u. u_gen (f u) = u_gen u) \<Longrightarrow> same_rest s (upd_sess i f t)"
  by (simp add: same_rest_def)

lemma same_rest_unlink: "same_rest s t \<Longrightarrow> same_rest s (udp_list_remove w i t)"
  by (auto simp: udp_list_remove_def Let_def same_rest_def split: option.split)

lemma same_rest_link: "same_rest s t \<Longrightarrow> same_rest s (udp_list_add w i t)"
  by (auto simp: udp_list_add_def Let_def same_rest_def split: option.split)

definition stack :: "'a udp_scheme \<Rightarrow> nat list \<times> nat" where
  "stack s = (g_udp_free_slots s, g_udp_free_slot_top s)"

lemma stack_simps [simp]:
  "stack (upd_sess i f s) = stack s" "stack (s\<lparr>udp_list_head := h\<rparr>) = stack s" "stack (s\<lparr>g_conn_count := n\<rparr>) = stack s"
  "stack (udp_list_remove w i s) = stack s" "stack (udp_list_add w i s) = stack s"
  by (auto simp: stack_def udp_list_remove_def udp_list_add_def Let_def split: option.split)

lemma same_ses_stack: "same_ses s t \<Longrightarrow> stack t = stack s"
  by (simp add: same_ses_def stack_def)

lemma same_ses_count_close: "same_ses s (count_close i s)"
  by (simp add: count_close_def Let_def same_ses_def tbl_def udp_free_def)

lemma same_ses_os_close: "same_ses s t \<Longrightarrow> same_ses s (os_close f t)" "same_ses s t \<Longrightarrow> same_ses s (release_java_socket f t)"
  by (simp_all add: os_close_def release_java_socket_def log_ev_def same_ses_def tbl_def udp_free_def)

lemma same_ses_close_fds: "same_ses s (close_sess_fds i s)"
  by (auto simp: close_sess_fds_def Let_def intro!: ses.intros same_ses_os_close)

definition room :: "'a udp_scheme \<Rightarrow> bool" where
  "room s \<longleftrightarrow> snd (stack s) < length (fst (stack s))"

lemma tbl_release: "room s \<Longrightarrow> tbl (udp_slot_release j s) = tb_release j (tbl s)"
  by (simp add: tbl_def tb_release_def udp_slot_release_def udp_free_def take_Suc_conv_app_nth room_def stack_def)

lemma tbl_count: "tbl (s\<lparr>g_conn_count := n\<rparr>) = (tbl s)\<lparr>tb_count := n\<rparr>"
  by (simp add: tbl_def udp_free_def)

lemma udp_finalize_refines:
  assumes r: "room s"
  shows "tbl (udp_conn_finalize i s) = tb_finalize i (tbl s) \<and> same_rest s (udp_conn_finalize i s) \<and>
     length (g_udp_free_slots (udp_conn_finalize i s)) = length (g_udp_free_slots s) \<and>
     g_udp_free_slot_top (udp_conn_finalize i s) \<le> length (g_udp_free_slots s)"
proof (cases "u_finalized (g_udp_slots s i)")
  case True
  then show ?thesis using r
    by (simp add: udp_conn_finalize_def tb_finalize_def tbl_def udp_free_def same_rest_def room_def stack_def)
next
  case False
  define s0 where "s0 = upd_sess i (\<lambda>u. u\<lparr>u_finalized := True\<rparr>) s"
  define s1 where "s1 = count_close i s0"
  define s2 where "s2 = (if u_next (g_udp_slots s1 i) \<noteq> None \<or> u_prev (g_udp_slots s1 i) \<noteq> None \<or>
      udp_list_head s1 (u_widx (g_udp_slots s1 i)) = Some i then udp_list_remove (u_widx (g_udp_slots s1 i)) i s1 else s1)"
  define s3 where "s3 = upd_sess i (\<lambda>u. u\<lparr>u_magic := 0\<rparr>) s2"
  define s4 where "s4 = close_sess_fds i s3"
  define s5 where "s5 = upd_sess i (\<lambda>u. u\<lparr>u_in_buf := None, u_out_buf := None\<rparr>) s4"
  define s6 where "s6 = s5\<lparr>g_conn_count := g_conn_count s5 - 1\<rparr>"
  have fin: "udp_conn_finalize i s = udp_slot_release (u_slot (g_udp_slots s6 i)) s6"
    using False by (simp add: udp_conn_finalize_def Let_def s0_def s1_def s2_def s3_def s4_def s5_def s6_def)
  note c1 = same_ses_count_close [of s0 i, folded s1_def] and c4 = same_ses_close_fds [of s3 i, folded s4_def]
  have t0: "tbl s0 = upd_cell i (\<lambda>c. c\<lparr>cl_fin := True\<rparr>) (tbl s)" unfolding s0_def by (rule tbl_upd) simp
  have t1: "tbl s1 = tbl s0" using c1 by (simp add: same_ses_def)
  have f1: "cell_of (g_udp_slots s1 j) = tb_cell (tbl s0) j" "udp_list_head s1 = tb_head (tbl s0)" for j
    by (simp_all flip: t1)
  have f1': "u_next (g_udp_slots s1 i) = cl_next (tb_cell (tbl s0) i)" "u_prev (g_udp_slots s1 i) = cl_prev (tb_cell (tbl s0) i)"
    "u_widx (g_udp_slots s1 i) = cl_widx (tb_cell (tbl s0) i)"
    using f1(1) [of i] by (metis cell_of_simps)+
  have t2: "tbl s2 = (if cl_next (tb_cell (tbl s0) i) \<noteq> None \<or> cl_prev (tb_cell (tbl s0) i) \<noteq> None \<or>
      tb_head (tbl s0) (cl_widx (tb_cell (tbl s0) i)) = Some i then tb_unlink (cl_widx (tb_cell (tbl s0) i)) i (tbl s0) else tbl s0)"
    by (simp only: s2_def f1' f1(2) tbl_unlink [of _ i s1, unfolded t1] t1 if_distrib [of tbl])
  have t3: "tbl s3 = upd_cell i (\<lambda>c. c\<lparr>cl_live := False\<rparr>) (tbl s2)" unfolding s3_def by (rule tbl_upd) simp
  have t5: "tbl s5 = tbl s3" using c4 tbl_data [of "\<lambda>u. u\<lparr>u_in_buf := None, u_out_buf := None\<rparr>" i s4]
    by (simp add: s5_def same_ses_def)
  have t6: "tbl s6 = (tbl s3)\<lparr>tb_count := tb_count (tbl s3) - 1\<rparr>" using t5 by (simp add: s6_def tbl_count flip: t5)
  have sl: "u_slot (g_udp_slots s6 i) = cl_slot (tb_cell (tbl s3) i)"
    using arg_cong [OF t6, of "\<lambda>t. cl_slot (tb_cell t i)"] by simp
  have st: "stack s6 = stack s"
    using same_ses_stack [OF c1] same_ses_stack [OF c4] by (simp add: s6_def s5_def s3_def s2_def s0_def)
  then have r6: "room s6" using r by (simp add: room_def)
  have "same_rest s s6"
  proof -
    have "same_rest s s0" by (simp add: s0_def same_rest_upd)
    then have "same_rest s s1" using same_ses_rest [OF c1] same_rest_trans by blast
    then have "same_rest s s3" by (auto simp: s3_def s2_def intro!: same_rest_upd same_rest_unlink)
    then have "same_rest s s4" using same_ses_rest [OF c4] same_rest_trans by blast
    then show ?thesis by (simp add: s6_def s5_def same_rest_def)
  qed
  then have "same_rest s (udp_conn_finalize i s)" by (simp add: fin udp_slot_release_def same_rest_def)
  moreover have "tbl (udp_conn_finalize i s) = tb_finalize i (tbl s)"
    using False unfolding fin tbl_release [OF r6] sl t6 t3 t2 t0 by (simp add: tb_finalize_def Let_def)
  ultimately show ?thesis using st r by (simp add: fin udp_slot_release_def stack_def room_def)
qed

end
