(* ===== verification/Udp_Life.thy ===== *)
theory Udp_Life
  imports Udp_Engine
begin

unbundle bit_operations_syntax

text \<open>
  Ownership of UDP sessions over their whole life. The invariant is the session table's, read off
  the engine's state through the view of \<open>Udp_Engine\<close>; the properties say what a worker turn, the
  exit from the loop and \<open>udp_start_session\<close> do to it.
\<close>

section \<open>The invariant\<close>

definition udp_inv :: "int \<Rightarrow> 'a udp_scheme \<Rightarrow> (nat \<Rightarrow> nat list) \<Rightarrow> nat list \<Rightarrow> bool" where
  "udp_inv K s L G \<longleftrightarrow> udp_slots_wf s \<and> tb_inv UDP_SLOT_COUNT K (tbl s) L G"

lemma udp_inv_tb: "udp_inv K s L G \<Longrightarrow> tb_inv UDP_SLOT_COUNT K (tbl s) L G"
  by (simp add: udp_inv_def)

lemma udp_inv_same: "same_ses s t \<Longrightarrow> udp_inv K t L G = udp_inv K s L G"
  by (simp add: same_ses_def udp_inv_def udp_slots_wf_def)

lemma udp_inv_perm: "udp_inv K s L G \<Longrightarrow> distinct H \<Longrightarrow> set H = set G \<Longrightarrow> udp_inv K s L H"
  by (auto simp: udp_inv_def intro: tb_inv_perm)

lemma udp_inv_listed:
  assumes "udp_inv K s L G" and "i \<in> set (L w)"
  shows "i < UDP_SLOT_COUNT" "g_udp_slot_state s i" "u_magic (g_udp_slots s i) = UDP_CONN_MAGIC" "\<not> u_closed (g_udp_slots s i)"
    "u_refs (g_udp_slots s i) = 1" "u_widx (g_udp_slots s i) = w" "u_slot (g_udp_slots s i) = i" "i \<notin> set G"
  using tb_invD(5-7) [OF udp_inv_tb [OF assms(1)] assms(2)] tb_invD(12) [OF udp_inv_tb [OF assms(1)], of i w] assms(2)
  by (auto simp: cell_owned_def)

section \<open>Releasing\<close>

lemma udp_unref_refines:
  assumes "room s"
  shows "tbl (udp_conn_unref i s) = tb_unref i (tbl s) \<and> same_rest s (udp_conn_unref i s) \<and>
     (udp_slots_wf s \<longrightarrow> udp_slots_wf (udp_conn_unref i s))"
proof -
  let ?s = "upd_sess i (\<lambda>u. u\<lparr>u_refs := u_refs (g_udp_slots s i) - 1\<rparr>) s"
  have t: "tbl ?s = upd_cell i (\<lambda>c. c\<lparr>cl_refs := u_refs (g_udp_slots s i) - 1\<rparr>) (tbl s)" by (rule tbl_upd) simp
  have r: "room ?s" "same_rest s ?s" using assms by (simp_all add: room_def same_rest_def)
  note f = udp_finalize_refines [OF r(1), of i]
  show ?thesis using f t r(2) same_rest_trans [OF r(2)]
    by (auto simp: udp_conn_unref_def tb_unref_def Let_def udp_slots_wf_def)
qed

lemma udp_slots_wf_stack: "udp_slots_wf s \<longleftrightarrow> length (fst (stack s)) = UDP_SLOT_COUNT \<and> snd (stack s) \<le> UDP_SLOT_COUNT"
  by (simp add: udp_slots_wf_def stack_def)

interpretation udp_tab: session_engine UDP_SLOT_COUNT tbl udp_slots_wf udp_list_add udp_list_remove
  "\<lambda>i. upd_sess i (\<lambda>u. u\<lparr>u_closed := True\<rparr>)" udp_conn_unref
proof (unfold_locales, goal_cases)
  case (7 s i)
  then have "room s" by (simp add: room_def stack_def udp_free_def udp_slots_wf_def)
  with 7 show ?case using udp_unref_refines [of s i] by simp
qed (simp_all add: tbl_link tbl_unlink tbl_close udp_slots_wf_stack)

lemma udp_inv_owned: "udp_inv K s L G = udp_tab.owned K s L G"
  by (simp add: udp_inv_def udp_tab.owned_def)

lemma udp_inv_room:
  assumes "udp_inv K s L G" and "i \<in> set G"
  shows "room s"
  using tb_inv_room [OF udp_inv_tb [OF assms(1)] assms(2)] assms(1)
  by (simp add: udp_inv_def udp_slots_wf_def udp_free_def room_def stack_def)

text \<open>A slot whose session has been released and that nobody has taken since stays so.\<close>

definition udp_released :: "'a udp_scheme \<Rightarrow> nat \<Rightarrow> bool" where
  "udp_released s i \<longleftrightarrow> \<not> g_udp_slot_state s i \<and> u_refs (g_udp_slots s i) \<le> 0"

definition settled :: "'a udp_scheme \<Rightarrow> 'a udp_scheme \<Rightarrow> bool" where
  "settled s t \<longleftrightarrow> same_rest s t \<and> (\<forall>j. udp_released s j \<longrightarrow> udp_released t j)"

lemma settled_refl [simp]: "settled s s"
  by (simp add: settled_def)

lemma settled_trans: "settled s t \<Longrightarrow> settled t u \<Longrightarrow> settled s u"
  using same_rest_trans by (auto simp: settled_def)

lemma udp_released_tbl: "udp_released s i \<longleftrightarrow> \<not> tb_active (tbl s) i \<and> cl_refs (tb_cell (tbl s) i) \<le> 0"
  by (simp add: udp_released_def)

lemma udp_inv_unref:
  assumes "udp_inv K s L (i # G)"
  shows "udp_inv K (udp_conn_unref i s) L G" and "settled s (udp_conn_unref i s)" and "udp_released (udp_conn_unref i s) i"
proof -
  note r = udp_unref_refines [OF udp_inv_room [OF assms], of i i] and off = tb_unref_off [OF udp_inv_tb [OF assms]]
  show "udp_inv K (udp_conn_unref i s) L G" using assms unfolding udp_inv_owned by (rule udp_tab.owned_unref)
  show "settled s (udp_conn_unref i s)" "udp_released (udp_conn_unref i s) i"
    using r tb_invD(10) [OF udp_inv_tb [OF assms], of i] by (auto simp: settled_def udp_released_tbl off)
qed

lemma udp_inv_unref_all:
  "udp_inv K s L (xs @ G) \<Longrightarrow> udp_inv K (udp_unref_all xs s) L G \<and> settled s (udp_unref_all xs s) \<and>
     (\<forall>i \<in> set xs. udp_released (udp_unref_all xs s) i)"
proof (induction xs arbitrary: s)
  case (Cons i xs)
  note u = udp_inv_unref [OF Cons.prems [simplified]]
  have e: "udp_unref_all (i # xs) s = udp_unref_all xs (udp_conn_unref i s)" by (simp add: udp_unref_all_def)
  note ih = Cons.IH [OF u(1)]
  have "udp_released (udp_unref_all xs (udp_conn_unref i s)) i" using ih u(3) by (simp add: settled_def)
  then show ?case unfolding e using ih settled_trans [OF u(2)] by simp
qed (simp add: udp_unref_all_def)

text \<open>Writing to a free cell does not matter to anybody.\<close>

lemma tb_inv_free_cell:
  assumes inv: "tb_inv N K t L G" and i: "\<not> tb_active t i"
  shows "tb_inv N K (upd_cell i f t) L G"
proof -
  note d = tb_invD [OF inv]
  have ne: "j \<noteq> i" if "j \<in> set (L w) \<or> j \<in> set G" for j w using that d(6) [of j w] d(10) [of j] i by auto
  have "tb_list (upd_cell i f t) w (L w) = tb_list t w (L w)" for w
    by (rule tb_list_cong) (use ne in \<open>auto simp: tb_nxt_def tb_prv_def\<close>)
  moreover have "\<forall>w. i \<notin> set (L w)" "i \<notin> set G" using ne by blast+
  ultimately show ?thesis using inv unfolding tb_inv_def by (auto simp: tb_used_def)
qed

section \<open>Closing\<close>

lemma udp_inv_close:
  "udp_inv K s L G \<Longrightarrow> i \<in> set (L w) \<Longrightarrow>
   udp_inv K (udp_list_remove w i (upd_sess i (\<lambda>u. u\<lparr>u_closed := True\<rparr>) s)) (L(w := remove1 i (L w))) (G @ [i])"
  unfolding udp_inv_owned by (rule udp_tab.owned_retire)

lemma udp_inv_close_into:
  assumes inv: "udp_inv K s L (g @ X)" and i: "i \<in> set (L w)"
  shows "udp_inv K (udp_list_remove w i (upd_sess i (\<lambda>u. u\<lparr>u_closed := True\<rparr>) s)) (L(w := remove1 i (L w))) ((g @ [i]) @ X)"
    and "udp_inv K (udp_list_remove w i (upd_sess i (\<lambda>u. u\<lparr>u_closed := True\<rparr>) s)) (L(w := remove1 i (L w))) (g @ (X @ [i]))"
  by (rule udp_inv_perm [OF udp_inv_close [OF inv i]];
      use tb_invD(8) [OF udp_inv_tb [OF inv]] udp_inv_listed(8) [OF inv i] in auto)+

section \<open>A batch of events\<close>

text \<open>
  The identifiers \<open>epoll_wait\<close> returns to a worker were registered on its own event descriptor:
  one that still names the session in its slot names a session of this worker.
\<close>

definition own_event :: "nat \<Rightarrow> 'a udp_scheme \<Rightarrow> u64 \<times> u32 \<Rightarrow> bool" where
  "own_event w s e \<longleftrightarrow>
     (case udp_event_decode (fst e) of (sidx, egen, _) \<Rightarrow>
        u_gen (g_udp_slots s (unat sidx)) = egen \<longrightarrow> u_widx (g_udp_slots s (unat sidx)) = w)"

definition same_ids :: "'a udp_scheme \<Rightarrow> 'a udp_scheme \<Rightarrow> bool" where
  "same_ids s t \<longleftrightarrow> (\<forall>j. u_gen (g_udp_slots t j) = u_gen (g_udp_slots s j) \<and> u_widx (g_udp_slots t j) = u_widx (g_udp_slots s j))"

lemma same_ids_refl [simp]: "same_ids s s"
  by (simp add: same_ids_def)

lemma same_ids_trans: "same_ids s t \<Longrightarrow> same_ids t u \<Longrightarrow> same_ids s u"
  by (simp add: same_ids_def)

lemma same_ses_ids: "same_ses s t \<Longrightarrow> same_ids s t"
  by (auto simp: same_ses_def same_ids_def tbl_def cell_of_def fun_eq_iff)

lemma same_ids_close: "same_ids s (udp_list_remove w i (upd_sess i (\<lambda>u. u\<lparr>u_closed := True\<rparr>) s))"
  by (auto simp: same_ids_def udp_list_remove_def Let_def split: option.split)

lemma own_event_ids: "same_ids s t \<Longrightarrow> own_event w t e = own_event w s e"
  by (simp add: own_event_def same_ids_def)

text \<open>Sessions only move from the worker's list to the collected ones.\<close>

definition moved :: "nat \<Rightarrow> (nat \<Rightarrow> nat list) \<Rightarrow> nat list \<Rightarrow> (nat \<Rightarrow> nat list) \<Rightarrow> nat list \<Rightarrow> bool" where
  "moved w L G L' G' \<longleftrightarrow> (\<forall>v. v \<noteq> w \<longrightarrow> L' v = L v) \<and> set (L' w) \<subseteq> set (L w) \<and>
     length (L' w) + length G' = length (L w) + length G"

lemma moved_refl [simp]: "moved w L G L G"
  by (simp add: moved_def)

lemma moved_trans: "moved w L G L' G' \<Longrightarrow> moved w L' G' L'' G'' \<Longrightarrow> moved w L G L'' G''"
  by (auto simp: moved_def)

lemma moved_one: "i \<in> set (L w) \<Longrightarrow> moved w L G (L(w := remove1 i (L w))) (G @ [i])"
  using length_pos_if_in_set [of i "L w"] set_remove1_subset [of i "L w"] by (simp add: moved_def length_remove1)

lemma udp_outcome_inv:
  assumes inv: "udp_inv K s L (G @ X)" and i: "i \<in> set (L w)" and g: "length G < MAX_EVENTS"
    and o: "udp_outcome w i fatal (s, G) = (t, G')"
  shows "\<exists>L'. udp_inv K t L' (G' @ X) \<and> moved w L G L' G' \<and> length G' \<le> length G + 1 \<and> same_ids s t"
proof (cases fatal)
  case True
  then have t: "t = udp_list_remove w i (upd_sess i (\<lambda>u. u\<lparr>u_closed := True\<rparr>) s)" "G' = G @ [i]"
    using o g udp_inv_listed(4) [OF inv i] by (auto simp: udp_outcome_def)
  show ?thesis unfolding t
    by (intro exI [of _ "L(w := remove1 i (L w))"] conjI udp_inv_close_into(1) [OF inv i] moved_one [of i L w, OF i] same_ids_close) simp
next
  case False
  then have "t = udp_update_events w i s" "G' = G" using o by (simp_all add: udp_outcome_def)
  then show ?thesis using inv udp_inv_same [OF same_ses_update_events [of s w i]] same_ses_ids [OF same_ses_update_events [of s w i]]
    by (intro exI [of _ L]) simp
qed

lemma unat_less_of_sint:
  fixes x :: u32
  assumes "0 \<le> sint x" and "sint x < int n" and "n \<le> 2 ^ 31"
  shows "unat x < n"
proof -
  have "uint x = sint x" using uint_u32_sint [of x] assms by simp
  then show ?thesis using assms by (simp add: unat_eq_nat_uint nat_less_iff)
qed

lemma udp_process_listed:
  assumes inv: "udp_inv K s L G" and own: "own_event w s (raw, m)" and d: "udp_event_decode raw = (sidx, egen, role)"
    and "\<not> udp_event_bad_slot (sint sidx) (int UDP_SLOT_COUNT)"
    and "udp_event_check_slot egen (u_gen u) (u_magic u) (g_udp_slot_state s (unat sidx)) (u_closed u) (u_registered u) = UDP_EV_PROCESS"
    and u: "u = g_udp_slots s (unat sidx)"
  shows "unat sidx \<in> set (L w)"
proof -
  let ?i = "unat sidx"
  have "?i < UDP_SLOT_COUNT"
    using assms(4) by (intro unat_less_of_sint) (simp_all add: udp_event_bad_slot_def UDP_SLOT_COUNT_def)
  moreover have c: "g_udp_slot_state s ?i" "egen = u_gen u" "\<not> u_closed u" "u_registered u"
    using assms(5) by (simp_all add: udp_check_process)
  moreover have "?i \<notin> set G" using tb_invD(11) [OF udp_inv_tb [OF inv], of ?i] c u by (auto simp: cell_off_def)
  ultimately obtain v where v: "?i \<in> set (L v)" using tb_invD(13) [OF udp_inv_tb [OF inv], of ?i] by auto
  moreover have "u_widx u = w" using own c u d by (simp add: own_event_def)
  ultimately show ?thesis using udp_inv_listed(6) [OF inv v] u by simp
qed

lemma udp_worker_event_inv:
  assumes inv: "udp_inv K s L (G @ X)" and g: "length G < MAX_EVENTS" and own: "own_event w s e"
    and ev: "udp_worker_event w now e (s, G) = (t, G')"
  shows "\<exists>L'. udp_inv K t L' (G' @ X) \<and> moved w L G L' G' \<and> length G' \<le> length G + 1 \<and> same_ids s t"
proof -
  obtain raw m where e: "e = (raw, m)" by force
  obtain sidx egen role where d: "udp_event_decode raw = (sidx, egen, role)" by (metis prod.exhaust)
  let ?u = "g_udp_slots s (unat sidx)"
  define disp where "disp = udp_event_check_slot egen (u_gen ?u) (u_magic ?u) (g_udp_slot_state s (unat sidx))
     (u_closed ?u) (u_registered ?u)"
  show ?thesis
  proof (cases "\<not> udp_event_is_dns_wake raw \<and> \<not> udp_event_bad_slot (sint sidx) (int UDP_SLOT_COUNT) \<and> disp = UDP_EV_PROCESS")
    case True
    let ?s0 = "upd_sess (unat sidx) (\<lambda>u. u\<lparr>u_last_active := now\<rparr>) s"
    obtain fatal s1 where s1: "udp_session_event (unat sidx) role m ?s0 = (fatal, s1)" by (metis prod.exhaust)
    have "same_ses s ?s0" by (rule same_ses_upd) simp_all
    then have c: "same_ses s s1" using same_ses_session_event [OF s1] by (rule same_ses_trans)
    have "udp_outcome w (unat sidx) fatal (s1, G) = (t, G')"
      using ev True e d s1 by (simp add: udp_worker_event_def disp_def Let_def)
    moreover have "unat sidx \<in> set (L w)"
      using udp_process_listed [OF inv own [unfolded e] d] True unfolding disp_def by blast
    moreover have "udp_inv K s1 L (G @ X)" using inv udp_inv_same [OF c] by simp
    ultimately obtain L' where "udp_inv K t L' (G' @ X) \<and> moved w L G L' G' \<and> length G' \<le> length G + 1 \<and> same_ids s1 t"
      using udp_outcome_inv g by blast
    then show ?thesis using same_ids_trans [OF same_ses_ids [OF c]] by blast
  next
    case False
    have cnt: "same_ses s (s\<lparr>g_udp_st_bad_slot := x\<rparr>)" "same_ses s (s\<lparr>g_udp_st_stale := x\<rparr>)" for x
      by (simp_all add: same_ses_def tbl_def udp_free_def)
    have "same_ses s t \<and> G' = G"
      using ev e d False cnt same_ses_drain [of s w] unfolding udp_worker_event_def disp_def [symmetric] Let_def
      by (auto split: if_splits udp_event_disp.splits simp: disp_def)
    then show ?thesis using inv udp_inv_same [of s t K L "G @ X"] same_ses_ids [of s t] by (intro exI [of _ L]) auto
  qed
qed

lemma udp_worker_events_inv:
  assumes "udp_inv K s L (G @ X)" and "length G + length es \<le> MAX_EVENTS" and "\<forall>e \<in> set es. own_event w s e"
    and "udp_worker_events w now es (s, G) = (x, t, G')"
  shows "\<exists>L'. udp_inv K t L' (G' @ X) \<and> moved w L G L' G' \<and> length G' \<le> MAX_EVENTS"
  using assms
proof (induction es arbitrary: s G L)
  case (Cons e es)
  show ?case
  proof (cases "fst e = 0")
    case False
    obtain s1 G1 where s1: "udp_worker_event w now e (s, G) = (s1, G1)" by force
    from udp_worker_event_inv [OF Cons.prems(1) _ _ s1] Cons.prems(2,3)
    obtain L1 where L1: "udp_inv K s1 L1 (G1 @ X)" "moved w L G L1 G1" "length G1 \<le> length G + 1" "same_ids s s1" by auto
    have "\<forall>e \<in> set es. own_event w s1 e" using Cons.prems(3) own_event_ids [OF L1(4)] by simp
    with Cons.IH [OF L1(1)] Cons.prems(2,4) L1(3) False s1
    obtain L2 where "udp_inv K t L2 (G' @ X)" "moved w L1 G1 L2 G'" "length G' \<le> MAX_EVENTS" by auto
    then show ?thesis using moved_trans [OF L1(2)] by blast
  qed (use Cons.prems in \<open>auto intro!: exI [of _ L]\<close>)
qed auto

section \<open>The idle scan\<close>

text \<open>The fields the scan looks at; list surgery keeps them.\<close>

definition idle_view :: "udp_conn \<Rightarrow> u32 \<times> bool \<times> bool \<times> udp_dns_pend list \<times> int \<times> nat" where
  "idle_view u = (u_magic u, u_closed u, u_registered u, u_pend u, u_last_active u, u_out_len u)"

lemma udp_scan_expired_view: "idle_view u = idle_view v \<Longrightarrow> udp_scan_expired now u = udp_scan_expired now v"
  by (simp add: idle_view_def udp_scan_expired_def)

lemma idle_view_remove [simp]: "idle_view (g_udp_slots (udp_list_remove w i s) j) = idle_view (g_udp_slots s j)"
  by (auto simp: idle_view_def udp_list_remove_def Let_def split: option.split)

lemma tbl_next: "udp_inv K s L G \<Longrightarrow> L w = xs @ i # ys \<Longrightarrow> u_next (g_udp_slots s i) = hd_opt None ys"
  using tb_invD(3) [OF udp_inv_tb, of K s L G w] dl_rep_next(1) [of "udp_list_head s w" "tb_nxt (tbl s)" "tb_prv (tbl s)" xs i ys]
  by (simp add: tb_list_def tb_nxt_def)

lemma udp_scan_sess_inv:
  assumes inv: "udp_inv K s L (g @ X)" and g: "length g \<le> MAX_EVENTS" and i: "i \<in> set (L w)"
    and sc: "udp_scan_sess w now i (s, g) = (t, g')"
  shows "\<exists>L' Y. udp_inv K t L' (g' @ X @ Y) \<and> length g \<le> length g' \<and> length g' \<le> MAX_EVENTS \<and> (Y = [] \<or> length g' = MAX_EVENTS) \<and>
     (L' = L \<and> g' = g \<and> Y = [] \<and> \<not> udp_scan_expired now (g_udp_slots t i) \<and>
        (u_out_len (g_udp_slots s i) = 0 \<longrightarrow> idle_view (g_udp_slots t i) = idle_view (g_udp_slots s i)) \<or>
      L' = L(w := remove1 i (L w)) \<and> length (g' @ Y) = Suc (length g)) \<and>
     (\<forall>j. j \<noteq> i \<longrightarrow> idle_view (g_udp_slots t j) = idle_view (g_udp_slots s j))"
proof -
  let ?u = "g_udp_slots s i"
  define s1 where "s1 = (if u_magic ?u = UDP_CONN_MAGIC \<and> \<not> u_closed ?u \<and> u_out_len ?u > 0
     then upd_sess i (\<lambda>u. u\<lparr>u_last_active := now\<rparr>) s else s)"
  define s2 where "s2 = upd_sess i (set_close UDP_CLOSE_IDLE 0) s1"
  have c1: "same_ses s s1" unfolding s1_def by (auto intro!: same_ses_upd)
  have c2: "same_ses s s2" unfolding s2_def by (rule same_ses_step [OF c1]) simp_all
  have v: "j \<noteq> i \<Longrightarrow> idle_view (g_udp_slots s1 j) = idle_view (g_udp_slots s j)" for j by (simp add: s1_def)
  show ?thesis
  proof (cases "udp_scan_expired now (g_udp_slots s1 i)")
    case False
    then have "t = s1" "g' = g" using sc by (simp_all add: udp_scan_sess_def s1_def [symmetric] Let_def)
    moreover have "u_out_len ?u = 0 \<longrightarrow> s1 = s" by (simp add: s1_def)
    ultimately show ?thesis using False inv udp_inv_same [OF c1] g v by (intro exI [of _ L] exI [of _ "[]"]) auto
  next
    case True
    let ?Y = "if length g < MAX_EVENTS then [] else [i]"
    have t: "t = udp_list_remove w i (upd_sess i (\<lambda>u. u\<lparr>u_closed := True\<rparr>) s2)"
      and g': "g' = (if length g < MAX_EVENTS then g @ [i] else g)"
      using sc True by (simp_all add: udp_scan_sess_def s1_def [symmetric] s2_def Let_def)
    have "udp_inv K s2 L (g @ X)" using inv udp_inv_same [OF c2] by simp
    from udp_inv_close_into [OF this i, folded t]
    have "udp_inv K t (L(w := remove1 i (L w))) (g' @ X @ ?Y)" by (simp add: g')
    moreover have "idle_view (g_udp_slots t j) = idle_view (g_udp_slots s j)" if "j \<noteq> i" for j
      using that v [of j] by (simp add: t s2_def)
    ultimately show ?thesis using g
      by (intro exI [of _ "L(w := remove1 i (L w))"] exI [of _ ?Y]) (auto simp: g')
  qed
qed

text \<open>\<open>ys\<close> is what the scan has still to visit, \<open>xs\<close> what it has left on the list.\<close>

lemma udp_scan_chase:
  assumes "udp_inv K s L (g @ X)" and "length g \<le> MAX_EVENTS"
    and "L w = xs @ ys" and "length ys \<le> fuel"
    and "\<forall>j \<in> set xs. \<not> udp_scan_expired now (g_udp_slots s j)"
    and "udp_scan_loop fuel w now (hd_opt None ys) (s, g) = (t, g')"
  shows "\<exists>L' Y. udp_inv K t L' (g' @ X @ Y) \<and> moved w L g L' (g' @ Y) \<and> length g \<le> length g' \<and> length g' \<le> MAX_EVENTS \<and>
     (Y = [] \<or> length g' = MAX_EVENTS) \<and> (\<forall>j \<in> set (L' w). \<not> udp_scan_expired now (g_udp_slots t j)) \<and>
     (\<forall>j \<in> set (L' w). u_out_len (g_udp_slots s j) = 0 \<longrightarrow> idle_view (g_udp_slots t j) = idle_view (g_udp_slots s j))"
  using assms
proof (induction ys arbitrary: s g X L xs fuel)
  case Nil
  then show ?case by (cases fuel) (auto intro!: exI [of _ L] exI [of _ "[]"])
next
  case (Cons i ys)
  obtain f where f: "fuel = Suc f" using Cons.prems(4) by (cases fuel) simp_all
  obtain s1 g1 where s1: "udp_scan_sess w now i (s, g) = (s1, g1)" by force
  have i: "i \<in> set (L w)" using Cons.prems(3) by simp
  have rest: "udp_scan_loop f w now (hd_opt None ys) (s1, g1) = (t, g')"
    using Cons.prems(6) f s1 tbl_next [OF Cons.prems(1,3)] by simp
  have dist: "i \<notin> set xs" "i \<notin> set ys"
    using tb_inv_distinct [OF udp_inv_tb [OF Cons.prems(1)], of w] Cons.prems(3) by auto
  from udp_scan_sess_inv [OF Cons.prems(1,2) i s1] obtain L1 Y1 where
    1: "udp_inv K s1 L1 (g1 @ X @ Y1)" and gg: "length g \<le> length g1" and 2: "length g1 \<le> MAX_EVENTS" and
    y1: "Y1 = [] \<or> length g1 = MAX_EVENTS" and
    c: "L1 = L \<and> g1 = g \<and> Y1 = [] \<and> \<not> udp_scan_expired now (g_udp_slots s1 i) \<and>
          (u_out_len (g_udp_slots s i) = 0 \<longrightarrow> idle_view (g_udp_slots s1 i) = idle_view (g_udp_slots s i)) \<or>
        L1 = L(w := remove1 i (L w)) \<and> length (g1 @ Y1) = Suc (length g)" and
    v': "\<forall>j. j \<noteq> i \<longrightarrow> idle_view (g_udp_slots s1 j) = idle_view (g_udp_slots s j)"
    by (elim exE conjE) (rule that; assumption)
  have v: "j \<noteq> i \<Longrightarrow> idle_view (g_udp_slots s1 j) = idle_view (g_udp_slots s j)" for j using v' by blast
  have old: "\<forall>j \<in> set xs. \<not> udp_scan_expired now (g_udp_slots s1 j)"
    using Cons.prems(5) dist(1) udp_scan_expired_view [OF v] by metis
  have keep: "idle_view (g_udp_slots t j) = idle_view (g_udp_slots s j)"
    if "u_out_len (g_udp_slots s1 j) = 0 \<longrightarrow> idle_view (g_udp_slots t j) = idle_view (g_udp_slots s1 j)"
      and "idle_view (g_udp_slots s1 j) = idle_view (g_udp_slots s j)" and "u_out_len (g_udp_slots s j) = 0" for j
    using that by (simp add: idle_view_def)
  have seen: "\<exists>xs'. L1 w = xs' @ ys \<and> (\<forall>j \<in> set xs'. \<not> udp_scan_expired now (g_udp_slots s1 j))"
    using c
  proof
    assume "L1 = L(w := remove1 i (L w)) \<and> length (g1 @ Y1) = Suc (length g)"
    then show ?thesis using Cons.prems(3) dist old by (intro exI [of _ xs]) (simp add: remove1_append)
  qed (use Cons.prems(3) old in \<open>intro exI [of _ "xs @ [i]"], auto\<close>)
  then obtain xs' where xs': "L1 w = xs' @ ys" "\<forall>j \<in> set xs'. \<not> udp_scan_expired now (g_udp_slots s1 j)" by blast
  have "length ys \<le> f" using Cons.prems(4) f by simp
  note ih = Cons.IH [OF 1 [folded append_assoc, unfolded append_assoc [of g1]] 2 xs'(1) this xs'(2) rest]
  from ih obtain L' Y where
    L': "udp_inv K t L' (g' @ (X @ Y1) @ Y)" and mv: "moved w L1 g1 L' (g' @ Y)" and g': "length g1 \<le> length g'" "length g' \<le> MAX_EVENTS" and
    Y: "Y = [] \<or> length g' = MAX_EVENTS" and ex: "\<forall>j \<in> set (L' w). \<not> udp_scan_expired now (g_udp_slots t j)" and
    k: "\<forall>j \<in> set (L' w). u_out_len (g_udp_slots s1 j) = 0 \<longrightarrow> idle_view (g_udp_slots t j) = idle_view (g_udp_slots s1 j)" by auto
  have "moved w L g L' (g' @ Y1 @ Y)" using mv c Cons.prems(3) dist by (auto simp: moved_def remove1_append)
  moreover have "idle_view (g_udp_slots t j) = idle_view (g_udp_slots s j)" if j: "j \<in> set (L' w)" "u_out_len (g_udp_slots s j) = 0" for j
  proof (rule keep)
    have "i \<notin> set (L' w)" if "L1 = L(w := remove1 i (L w))" using mv that Cons.prems(3) dist by (auto simp: moved_def remove1_append)
    then show "idle_view (g_udp_slots s1 j) = idle_view (g_udp_slots s j)" using c v [of j] j by (cases "j = i") auto
  qed (use k j in auto)
  moreover have "Y1 @ Y = [] \<or> length g' = MAX_EVENTS" using y1 Y g' by auto
  ultimately show ?case using L' gg g' ex by (intro exI [of _ L'] exI [of _ "Y1 @ Y"]) auto
qed

section \<open>A worker turn\<close>

lemma idle_view_unref: "j \<noteq> i \<Longrightarrow> idle_view (g_udp_slots (udp_conn_unref i s) j) = idle_view (g_udp_slots s j)"
proof -
  assume j: "j \<noteq> i"
  have a: "g_udp_slots (count_close i t) = g_udp_slots t" for t :: "'a udp_scheme" by (simp add: count_close_def Let_def)
  have b: "g_udp_slots (close_sess_fds i t) j = g_udp_slots t j" for t :: "'a udp_scheme"
    using j by (simp add: close_sess_fds_def Let_def os_close_def release_java_socket_def log_ev_def)
  have "idle_view (g_udp_slots (udp_conn_finalize i t) j) = idle_view (g_udp_slots t j)" for t :: "'a udp_scheme"
    using j by (simp add: udp_conn_finalize_def Let_def udp_slot_release_def a b)
  then show ?thesis using j by (simp add: udp_conn_unref_def Let_def)
qed

lemma idle_view_unref_all:
  "j \<notin> set xs \<Longrightarrow> idle_view (g_udp_slots (udp_unref_all xs s) j) = idle_view (g_udp_slots s j)"
  by (induction xs arbitrary: s) (simp_all add: udp_unref_all_def idle_view_unref)

lemma udp_iteration_inv:
  assumes inv: "udp_inv K s L X" and n: "length events \<le> MAX_EVENTS" and own: "\<forall>e \<in> set events. own_event w s e"
    and it: "udp_worker_iteration w now events lc s = (x, t, G, lc')"
  shows "\<exists>L' Y. udp_inv K t L' ((if x then G else []) @ X @ Y) \<and> moved w L [] L' (G @ Y) \<and> length G \<le> MAX_EVENTS \<and>
     (Y = [] \<or> length G = MAX_EVENTS) \<and> (\<not> x \<longrightarrow> (\<forall>i \<in> set G. udp_released t i)) \<and>
     (\<not> x \<and> now - lc \<ge> 5 \<longrightarrow> (\<forall>j \<in> set (L' w). \<not> udp_scan_expired now (g_udp_slots t j))) \<and>
     (events = [] \<longrightarrow> (\<forall>j \<in> set (L' w). u_out_len (g_udp_slots s j) = 0 \<longrightarrow> idle_view (g_udp_slots t j) = idle_view (g_udp_slots s j)))"
proof -
  obtain x1 s1 g1 where ev: "udp_worker_events w now events (s, []) = (x1, s1, g1)" by (metis prod.exhaust)
  from udp_worker_events_inv [of K s L "[]" X, OF _ _ own ev] inv n obtain L1 where
    L1: "udp_inv K s1 L1 (g1 @ X)" "moved w L [] L1 g1" "length g1 \<le> MAX_EVENTS" by auto
  show ?thesis
  proof (cases "x1 \<or> now - lc < 5")
    case True
    then have "x = x1" "G = g1" "t = (if x1 then s1 else udp_unref_all g1 s1)"
      using it ev by (cases x1; auto simp: udp_worker_iteration_def)+
    moreover have "s1 = s \<and> g1 = []" if "events = []" using ev that by simp
    ultimately show ?thesis using L1 True udp_inv_unref_all [of K s1 L1 g1 X]
      by (intro exI [of _ L1] exI [of _ "[]"]) (auto simp: udp_unref_all_def)
  next
    case False
    obtain s2 g2 where sc: "udp_scan_loop UDP_SLOT_COUNT w now (udp_list_head s1 w) (s1, g1) = (s2, g2)" by force
    have t: "\<not> x" "G = g2" "t = udp_unref_all g2 s2" using it ev False sc by (auto simp: udp_worker_iteration_def)
    have h: "udp_list_head s1 w = hd_opt None (L1 w)" using tb_inv_head [OF udp_inv_tb [OF L1(1)], of w] by simp
    from udp_scan_chase [OF L1(1,3) _ tb_inv_bound [OF udp_inv_tb [OF L1(1)]] _ sc [unfolded h], of "[]"]
    obtain L' Y where L': "udp_inv K s2 L' (g2 @ X @ Y)" "moved w L1 g1 L' (g2 @ Y)" "length g2 \<le> MAX_EVENTS"
      "Y = [] \<or> length g2 = MAX_EVENTS" "\<forall>j \<in> set (L' w). \<not> udp_scan_expired now (g_udp_slots s2 j)" and
      k: "\<forall>j \<in> set (L' w). u_out_len (g_udp_slots s1 j) = 0 \<longrightarrow> idle_view (g_udp_slots s2 j) = idle_view (g_udp_slots s1 j)" by auto
    have fin: "idle_view (g_udp_slots t j) = idle_view (g_udp_slots s2 j)" if "j \<in> set (L' w)" for j
      using udp_inv_listed(8) [OF L'(1) that] idle_view_unref_all [of j g2 s2] t(3) by simp
    then have "\<not> udp_scan_expired now (g_udp_slots t j)" if "j \<in> set (L' w)" for j
      using L'(5) that udp_scan_expired_view [OF fin [OF that]] by simp
    moreover have "\<forall>j \<in> set (L' w). u_out_len (g_udp_slots s j) = 0 \<longrightarrow> idle_view (g_udp_slots t j) = idle_view (g_udp_slots s j)"
      if "events = []" using ev that k fin by simp
    ultimately show ?thesis using L'(1-4) moved_trans [OF L1(2) L'(2)] udp_inv_unref_all [OF L'(1)] t
      by (intro exI [of _ L'] exI [of _ Y]) auto
  qed
qed

section \<open>Leaving the loop\<close>

lemma tb_retire_after: "upd_cell i (\<lambda>c. c\<lparr>cl_closed := True\<rparr>) (tb_unlink w i t) = tb_retire w i t"
  by (cases "cl_prev (tb_cell t i)"; cases "cl_next (tb_cell t i)")
    (auto simp: tb_retire_def tb_unlink_def Let_def upd_cell_def fun_eq_iff intro!: arg_cong [of _ _ "\<lambda>f. t\<lparr>tb_cell := f\<rparr>"])

lemma udp_inv_collect:
  assumes inv: "udp_inv K s L (c @ G)" and i: "L w = i # ys"
    and t: "t = upd_sess i (\<lambda>u. u\<lparr>u_closed := True\<rparr>) (upd_sess i (set_close UDP_CLOSE_SHUTDOWN 0) (udp_list_remove w i s))"
  shows "udp_inv K t (L(w := ys)) ((c @ [i]) @ G) \<and> settled s t"
proof -
  have "i \<in> set (L w)" using i by simp
  note tb = tb_inv_retire [OF udp_inv_tb [OF inv] this] and l = udp_inv_listed(8) [OF inv this]
  have "tbl t = tb_retire w i (tbl s)"
    by (simp add: t tbl_close tbl_data tbl_unlink tb_retire_after)
  moreover have "udp_slots_wf t = udp_slots_wf s"
    using stack_simps(4) [of w i s] by (simp add: udp_slots_wf_def t stack_def)
  ultimately have "udp_inv K t (L(w := ys)) ((c @ G) @ [i])" using tb inv i by (simp add: udp_inv_def)
  moreover have "distinct ((c @ [i]) @ G)" using tb_invD(8) [OF udp_inv_tb [OF inv]] l by auto
  ultimately have "udp_inv K t (L(w := ys)) ((c @ [i]) @ G)" by (rule udp_inv_perm) auto
  moreover have "same_rest s t" unfolding t by (intro same_rest_upd same_rest_unlink same_rest_refl) simp_all
  moreover have "udp_released t j = udp_released s j" for j
    unfolding udp_released_tbl \<open>tbl t = tb_retire w i (tbl s)\<close> tb_retire_def
    using tb_unlink_view [of w i "upd_cell i (\<lambda>c. c\<lparr>cl_closed := True\<rparr>) (tbl s)"] no_links_eq(4) [OF tb_unlink_view(1) [of w i _ j]]
    by simp
  ultimately show ?thesis by (simp add: settled_def)
qed

lemma udp_drain_batch_inv:
  assumes "udp_inv K s L (c @ G)" and "L w = ys" and "length ys \<le> fuel" and "length c \<le> MAX_EVENTS"
    and "udp_drain_batch fuel w (hd_opt None ys) c s = (c', t)"
  shows "\<exists>L'. udp_inv K t L' (c' @ G) \<and> moved w L c L' c' \<and> settled s t \<and> length c' \<le> MAX_EVENTS \<and>
     (length c' < MAX_EVENTS \<longrightarrow> L' w = [])"
  using assms
proof (induction fuel arbitrary: s L c ys)
  case (Suc f)
  show ?case
  proof (cases "ys = [] \<or> \<not> length c < MAX_EVENTS")
    case True
    then show ?thesis using Suc.prems by (cases ys) (auto intro!: exI [of _ L])
  next
    case False
    then obtain i ys1 where ys: "ys = i # ys1" and c: "length c < MAX_EVENTS" by (cases ys) auto
    let ?t = "upd_sess i (\<lambda>u. u\<lparr>u_closed := True\<rparr>) (upd_sess i (set_close UDP_CLOSE_SHUTDOWN 0) (udp_list_remove w i s))"
    have i: "L w = [] @ i # ys1" "i \<in> set (L w)" using Suc.prems(2) ys by simp_all
    have "u_magic (g_udp_slots (udp_list_remove w i s) i) = UDP_CONN_MAGIC"
      using idle_view_remove [of w i s i] udp_inv_listed(3) [OF Suc.prems(1) i(2)] by (simp add: idle_view_def)
    then have rest: "udp_drain_batch f w (hd_opt None ys1) (c @ [i]) ?t = (c', t)"
      using Suc.prems(5) ys c tbl_next [OF Suc.prems(1) i(1)] by (simp add: Let_def)
    note col = udp_inv_collect [OF Suc.prems(1) _ refl, of w i ys1, OF i(1) [simplified]]
    have "length ys1 \<le> f" "length (c @ [i]) \<le> MAX_EVENTS" using Suc.prems(3) ys c by simp_all
    from Suc.IH [OF conjunct1 [OF col] fun_upd_same this rest] obtain L' where
      L': "udp_inv K t L' (c' @ G)" "moved w (L(w := ys1)) (c @ [i]) L' c'" "settled ?t t" "length c' \<le> MAX_EVENTS"
      "length c' < MAX_EVENTS \<longrightarrow> L' w = []" by blast
    have "moved w L c (L(w := ys1)) (c @ [i])" using i by (auto simp: moved_def)
    then show ?thesis using L' moved_trans settled_trans [OF conjunct2 [OF col]] by blast
  qed
qed (auto intro!: exI)

lemma udp_drain_loop_step:
  assumes "udp_drain_batch UDP_SLOT_COUNT w (udp_list_head s w) [] s = (c, t)"
  shows "udp_drain_loop w s = (if length c < MAX_EVENTS then Some (udp_unref_all c t) else udp_drain_loop w (udp_unref_all c t))"
  by (simp add: udp_drain_loop.simps [of w s] assms)

text \<open>A relation that the batch and the releases keep is kept by the whole loop.\<close>

lemma udp_drain_loop_rel:
  assumes "udp_drain_loop w s = Some t"
    and "\<And>v. R v (snd (udp_drain_batch UDP_SLOT_COUNT w (udp_list_head v w) [] v))"
    and "\<And>g v. R v (udp_unref_all g v)" and "\<And>u v x. R u v \<Longrightarrow> R v x \<Longrightarrow> R u x"
  shows "R s t"
proof -
  let ?b = "\<lambda>v. udp_drain_batch UDP_SLOT_COUNT w (udp_list_head v w) [] v"
  have "w = w \<longrightarrow> R s t"
  proof (rule udp_drain_loop.raw_induct [where P = "\<lambda>w' s t. w' = w \<longrightarrow> R s t", OF _ assms(1)])
    fix r w' v u
    assume ih: "\<And>w' v u. r w' v = Some u \<Longrightarrow> w' = w \<longrightarrow> R v u"
      and eq: "(let b = udp_drain_batch UDP_SLOT_COUNT w' (udp_list_head v w') [] v; c = fst b; s2 = udp_unref_all c (snd b)
        in if length c < MAX_EVENTS then Some s2 else r w' s2) = Some u"
    have step: "R v (udp_unref_all (fst (?b v)) (snd (?b v)))" using assms(2,3,4) by blast
    have "udp_unref_all (fst (?b v)) (snd (?b v)) = u \<or> R (udp_unref_all (fst (?b v)) (snd (?b v))) u" if "w' = w"
      using eq [unfolded that Let_def] ih [of w "udp_unref_all (fst (?b v)) (snd (?b v))" u] by (auto split: if_splits)
    then show "w' = w \<longrightarrow> R v u" using step assms(4) by blast
  qed
  then show ?thesis by simp
qed

text \<open>
  Every full batch takes \<open>MAX_EVENTS\<close> sessions off the list, so the length of the list is what makes
  the loop reach its \<open>break\<close>.
\<close>

lemma udp_drain_loop_inv:
  assumes "udp_inv K s L G"
  shows "\<exists>t. udp_drain_loop w s = Some t \<and> udp_inv K t (L(w := [])) G \<and> settled s t"
  using assms
proof (induction "length (L w)" arbitrary: s L rule: less_induct)
  case less
  obtain c s1 where b: "udp_drain_batch UDP_SLOT_COUNT w (udp_list_head s w) [] s = (c, s1)" by force
  have h: "udp_list_head s w = hd_opt None (L w)" using tb_inv_head [OF udp_inv_tb [OF less.prems], of w] by simp
  have "length (L w) \<le> UDP_SLOT_COUNT" by (rule tb_inv_bound [OF udp_inv_tb [OF less.prems]])
  with udp_drain_batch_inv [of K s L "[]" G w "L w" UDP_SLOT_COUNT c s1] b h less.prems
  obtain L1 where L1: "udp_inv K s1 L1 (c @ G)" "moved w L [] L1 c" "settled s s1" "length c \<le> MAX_EVENTS"
    "length c < MAX_EVENTS \<longrightarrow> L1 w = []" by auto
  note u = udp_inv_unref_all [OF L1(1)]
  have eq: "L1(w := []) = L(w := [])" using L1(2) by (auto simp: moved_def)
  show ?case
  proof (cases "length c < MAX_EVENTS")
    case True
    then have "L1 = L(w := [])" using L1(5) eq by (metis fun_upd_triv)
    then show ?thesis unfolding udp_drain_loop_step [OF b] using True u settled_trans [OF L1(3)] by (simp del: fun_upd_apply)
  next
    case False
    then have "length (L w) = MAX_EVENTS + length (L1 w)" using L1(2,4) by (simp add: moved_def)
    then have "length (L1 w) < length (L w)" by (simp add: MAX_EVENTS_def)
    from less.hyps [OF this conjunct1 [OF u], unfolded eq] obtain t where
      t: "udp_drain_loop w (udp_unref_all c s1) = Some t" "udp_inv K t (L(w := [])) G" "settled (udp_unref_all c s1) t"
      by blast
    have "settled s t" using t(3) u settled_trans L1(3) by blast
    then show ?thesis unfolding udp_drain_loop_step [OF b] if_not_P [OF False] using t by blast
  qed
qed

lemma udp_unref_released:
  assumes inv: "udp_inv K s L X" and r: "udp_released s i"
  shows "udp_inv K (udp_conn_unref i s) L X \<and> settled s (udp_conn_unref i s)"
proof -
  let ?t = "upd_sess i (\<lambda>u. u\<lparr>u_refs := u_refs (g_udp_slots s i) - 1\<rparr>) s"
  have t: "udp_conn_unref i s = ?t" using r by (simp add: udp_conn_unref_def Let_def udp_released_def)
  have tbl: "tbl ?t = upd_cell i (\<lambda>c. c\<lparr>cl_refs := u_refs (g_udp_slots s i) - 1\<rparr>) (tbl s)" by (rule tbl_upd) simp
  have "tb_inv UDP_SLOT_COUNT K (tbl ?t) L X"
    unfolding tbl by (rule tb_inv_free_cell [OF udp_inv_tb [OF inv]]) (use r in \<open>simp add: udp_released_def\<close>)
  moreover have "settled s ?t" using r by (auto simp: settled_def same_rest_def udp_released_def)
  ultimately show ?thesis using inv unfolding t by (simp add: udp_inv_def udp_slots_wf_def)
qed

lemma udp_unref_all_released:
  assumes "udp_inv K s L X" and "\<forall>i \<in> set G. udp_released s i"
  shows "udp_inv K (udp_unref_all G s) L X \<and> settled s (udp_unref_all G s)"
  using assms
proof (induction G arbitrary: s)
  case (Cons i G)
  have r: "udp_released s i" using Cons.prems(2) by simp
  note u = udp_unref_released [OF Cons.prems(1) r]
  have "\<forall>j \<in> set G. udp_released (udp_conn_unref i s) j" using Cons.prems(2) u by (simp add: settled_def)
  from Cons.IH [OF conjunct1 [OF u] this] show ?case
    using settled_trans [OF conjunct2 [OF u]] by (simp add: udp_unref_all_def)
qed (simp add: udp_unref_all_def)

lemma udp_exit_inv:
  assumes "udp_inv K s L (G @ X) \<or> udp_inv K s L X \<and> (\<forall>i \<in> set G. udp_released s i)"
  shows "udp_inv K (udp_worker_exit w G s) (L(w := [])) X \<and> uw_stopping (udp_worker_exit w G s) w"
proof -
  define s1 where "s1 = s\<lparr>uw_stopping := (uw_stopping s)(w := True)\<rparr>"
  have t1: "udp_inv K s1 L H = udp_inv K s L H" "udp_released s1 = udp_released s" "uw_stopping s1 w" for H
    by (simp_all add: s1_def udp_inv_def udp_slots_wf_def tbl_def udp_free_def udp_released_def fun_eq_iff)
  have "\<exists>s2. udp_drain_loop w s1 = Some s2 \<and> udp_inv K (udp_unref_all G s2) (L(w := [])) X \<and> settled s1 (udp_unref_all G s2)"
    using assms
  proof
    assume "udp_inv K s L (G @ X)"
    with t1(1) have "udp_inv K s1 L (G @ X)" by simp
    from udp_drain_loop_inv [OF this] show ?thesis using udp_inv_unref_all settled_trans by blast
  next
    assume a: "udp_inv K s L X \<and> (\<forall>i \<in> set G. udp_released s i)"
    with t1(1) have "udp_inv K s1 L X" by simp
    from udp_drain_loop_inv [OF this] obtain s2 where
      d: "udp_drain_loop w s1 = Some s2" "udp_inv K s2 (L(w := [])) X" "settled s1 s2" by blast
    have "\<forall>i \<in> set G. udp_released s2 i" using a t1 d(3) by (auto simp: settled_def)
    with d show ?thesis using udp_unref_all_released settled_trans by blast
  qed
  then obtain s2 where s2: "udp_drain_loop w s1 = Some s2" "udp_inv K (udp_unref_all G s2) (L(w := [])) X"
    "settled s1 (udp_unref_all G s2)" by blast
  define s3 where "s3 = udp_unref_all G s2"
  have "udp_worker_exit w G s = os_close (uw_epoll_fd s3 w) s3"
    using s2(1) by (simp add: udp_worker_exit_def Let_def s1_def s3_def)
  moreover have "same_ses s3 (os_close f s3)" for f by (rule same_ses_os_close) simp
  ultimately show ?thesis using t1(3) s2 udp_inv_same [of s3 "os_close (uw_epoll_fd s3 w) s3" K "L(w := [])" X]
    by (auto simp: s3_def [symmetric] settled_def same_rest_def same_ses_def)
qed

end
