(* ===== verification/Udp_Start.thy ===== *)
theory Udp_Start
  imports Udp_Life
begin

unbundle bit_operations_syntax

text \<open>
  \<open>udp_start_session\<close>: whatever fails on the way, the session is either complete and owned by its
  worker or undone, with every descriptor that was obtained closed once.
\<close>

section \<open>What a step does to the outside\<close>

definition quiet :: "sysev list \<Rightarrow> bool" where
  "quiet l \<longleftrightarrow> (\<forall>e \<in> set l. \<forall>f. e \<noteq> CLOSE f \<and> e \<noteq> JAVA_RELEASE f)"

lemma quiet_simps [simp]:
  "quiet []" "quiet (l @ m) \<longleftrightarrow> quiet l \<and> quiet m" "quiet (SEND f bs # l) = quiet l" "quiet (CTL op ep f ev x # l) = quiet l"
  by (auto simp: quiet_def)

text \<open>The descriptors \<open>fs\<close> were obtained while a queue of answers went from \<open>q\<close> to \<open>q'\<close>.\<close>

definition obtained :: "(int \<times> int) list \<Rightarrow> (int \<times> int) list \<Rightarrow> fd list \<Rightarrow> bool" where
  "obtained q q' fs \<longleftrightarrow> (\<exists>a. q = a @ q' \<and> filter (\<lambda>f. f \<ge> 0) (map fst a) = fs)"

definition some_fd :: "fd \<Rightarrow> fd list" where
  "some_fd f = (if f \<ge> 0 then [f] else [])"

lemma obtained_refl [simp]: "obtained q q []"
  by (simp add: obtained_def)

lemma obtained_trans: "obtained q q' fs \<Longrightarrow> obtained q' q'' gs \<Longrightarrow> obtained q q'' (fs @ gs)"
  by (auto simp: obtained_def)

lemma obtained_one [simp]: "obtained ((f, e) # q) q (some_fd f)"
  unfolding obtained_def by (rule exI [of _ "[(f, e)]"]) (simp add: some_fd_def)

lemma some_fd_neg [simp]: "f < 0 \<Longrightarrow> some_fd f = []" "some_fd (- 1) = []"
  by (simp_all add: some_fd_def)

text \<open>Steps that neither obtain nor give up a descriptor, and leave the sessions alone.\<close>

definition plain :: "nat \<Rightarrow> 'a udp_scheme \<Rightarrow> 'a udp_scheme \<Rightarrow> bool" where
  "plain i s t \<longleftrightarrow> same_ses s t \<and> (\<exists>l. o_log t = o_log s @ l \<and> quiet l) \<and> o_socket t = o_socket s \<and> o_java t = o_java s \<and>
     u_client_fd (g_udp_slots t i) = u_client_fd (g_udp_slots s i) \<and>
     u_local_udp_fd (g_udp_slots t i) = u_local_udp_fd (g_udp_slots s i) \<and>
     u_remote_udp_fd (g_udp_slots t i) = u_remote_udp_fd (g_udp_slots s i) \<and>
     u_ep_u64 (g_udp_slots t i) = u_ep_u64 (g_udp_slots s i) \<and> u_cmd (g_udp_slots t i) = u_cmd (g_udp_slots s i)"

lemma plain_refl [simp]: "plain i s s"
  by (auto simp: plain_def)

lemma plain_trans:
  assumes "plain i s t" and "plain i t u"
  shows "plain i s u"
proof -
  from assms obtain l m where "o_log t = o_log s @ l" "quiet l" "o_log u = o_log t @ m" "quiet m" by (auto simp: plain_def)
  then have "o_log u = o_log s @ (l @ m)" "quiet (l @ m)" by simp_all
  then show ?thesis using assms same_ses_trans [of s t u] unfolding plain_def by metis
qed

lemma plain_send: "plain i s (snd (os_send s f bs))"
proof -
  obtain r e t where os: "os_send s f bs = ((r, e), t)" by (metis prod.exhaust)
  from os_send_form [OF os] show ?thesis using same_ses_send [OF os] by (auto simp: plain_def os)
qed

lemma plain_ctl: "os_epoll_ctl s op ep f ev x = (b, t) \<Longrightarrow> plain i s t"
  by (auto simp: plain_def dest: same_ses_ctl)
    (auto simp: os_epoll_ctl_def log_ev_def split: list.splits if_splits)

lemma plain_upd:
  assumes "\<And>u. cell_of (f u) = cell_of u" "\<And>u. u_gen (f u) = u_gen u" "\<And>u. u_client_fd (f u) = u_client_fd u"
    "\<And>u. u_local_udp_fd (f u) = u_local_udp_fd u" "\<And>u. u_remote_udp_fd (f u) = u_remote_udp_fd u"
    "\<And>u. u_ep_u64 (f u) = u_ep_u64 u" "\<And>u. u_cmd (f u) = u_cmd u"
  shows "plain i s (upd_sess i f s)"
  using same_ses_upd [of f s i] assms by (simp add: plain_def) (simp add: upd_sess_def)

lemma plain_reply: "plain i s (send_zero_reply f r s)"
  unfolding send_zero_reply_def by (rule plain_send)

lemma plain_set_close: "plain i s (upd_sess i (set_close k e) s)"
  by (rule plain_upd) (simp_all add: set_close_def cell_of_def)

section \<open>Taking down a half-built session\<close>

definition teardown :: "fd \<Rightarrow> fd \<Rightarrow> fd \<Rightarrow> sysev list" where
  "teardown cf lo ro = CLOSE cf # map CLOSE (some_fd lo) @ (if ro \<ge> 0 then [JAVA_RELEASE ro, CLOSE ro] else [])"

lemma udp_unref_log:
  assumes u: "u_refs (g_udp_slots s i) = 1" "\<not> u_finalized (g_udp_slots s i)" "0 \<le> u_client_fd (g_udp_slots s i)"
  shows "o_log (udp_conn_unref i s) =
      o_log s @ teardown (u_client_fd (g_udp_slots s i)) (u_local_udp_fd (g_udp_slots s i)) (u_remote_udp_fd (g_udp_slots s i))"
    and "o_socket (udp_conn_unref i s) = o_socket s" and "o_java (udp_conn_unref i s) = o_java s"
proof -
  let ?s1 = "upd_sess i (\<lambda>u. u\<lparr>u_refs := 0\<rparr>) s"
  have fin: "udp_conn_unref i s = udp_conn_finalize i ?s1" using u(1) by (simp add: udp_conn_unref_def)
  have rm: "o_log (udp_list_remove w j t) = o_log t" "o_socket (udp_list_remove w j t) = o_socket t" "o_java (udp_list_remove w j t) = o_java t"
    "u_client_fd (g_udp_slots (udp_list_remove w j t) k) = u_client_fd (g_udp_slots t k)"
    "u_local_udp_fd (g_udp_slots (udp_list_remove w j t) k) = u_local_udp_fd (g_udp_slots t k)"
    "u_remote_udp_fd (g_udp_slots (udp_list_remove w j t) k) = u_remote_udp_fd (g_udp_slots t k)" for w j k and t :: "'a udp_scheme"
    by (auto simp: udp_list_remove_def Let_def upd_sess_def split: option.split)
  have cc: "o_log (count_close i t) = o_log t" "o_socket (count_close i t) = o_socket t" "o_java (count_close i t) = o_java t"
    "g_udp_slots (count_close i t) = g_udp_slots t" for t :: "'a udp_scheme"
    by (simp_all add: count_close_def Let_def)
  have rel: "o_log (udp_slot_release j t) = o_log t" "o_socket (udp_slot_release j t) = o_socket t" "o_java (udp_slot_release j t) = o_java t"
    for j and t :: "'a udp_scheme" by (simp_all add: udp_slot_release_def)
  have q: "o_socket (upd_sess j f t) = o_socket t" "o_java (upd_sess j f t) = o_java t" for j f and t :: "'a udp_scheme"
    by (simp_all add: upd_sess_def)
  have cl: "o_log (close_sess_fds i t) = o_log t @ teardown (u_client_fd (g_udp_slots t i)) (u_local_udp_fd (g_udp_slots t i)) (u_remote_udp_fd (g_udp_slots t i))"
    "o_socket (close_sess_fds i t) = o_socket t" "o_java (close_sess_fds i t) = o_java t" if "0 \<le> u_client_fd (g_udp_slots t i)" for t :: "'a udp_scheme"
    using that by (simp_all add: close_sess_fds_def Let_def os_close_def release_java_socket_def log_ev_def teardown_def some_fd_def q)
  show "o_log (udp_conn_unref i s) =
      o_log s @ teardown (u_client_fd (g_udp_slots s i)) (u_local_udp_fd (g_udp_slots s i)) (u_remote_udp_fd (g_udp_slots s i))"
    "o_socket (udp_conn_unref i s) = o_socket s" "o_java (udp_conn_unref i s) = o_java s"
    unfolding fin using u by (simp_all add: udp_conn_finalize_def Let_def rel cl rm cc q)
qed

section \<open>A session being built\<close>

definition half_built ::
  "int \<Rightarrow> (nat \<Rightarrow> nat list) \<Rightarrow> nat list \<Rightarrow> nat \<Rightarrow> nat \<Rightarrow> int \<Rightarrow> fd \<Rightarrow> fd \<Rightarrow> fd \<Rightarrow> 'a udp_scheme \<Rightarrow> 'a udp_scheme \<Rightarrow> bool" where
  "half_built K L X w i cmd cf lo ro s t \<longleftrightarrow>
     udp_inv K t L (i # X) \<and> cell_owned w i (cell_of (g_udp_slots t i)) \<and> \<not> g_udp_slot_state s i \<and>
     u_client_fd (g_udp_slots t i) = cf \<and> u_local_udp_fd (g_udp_slots t i) = lo \<and> u_remote_udp_fd (g_udp_slots t i) = ro \<and>
     u_cmd (g_udp_slots t i) = cmd \<and> u_ep_u64 (g_udp_slots t i) = ep_u64_of (u_gen (g_udp_slots t i)) i \<and>
     (\<exists>l. o_log t = o_log s @ l \<and> quiet l) \<and> obtained (o_socket s) (o_socket t) (some_fd lo) \<and>
     obtained (o_java s) (o_java t) (some_fd ro) \<and> uw_epoll_fd t = uw_epoll_fd s \<and> uw_stopping t = uw_stopping s"

text \<open>The session is undone: its invariant as before, each descriptor it had obtained closed once.\<close>

definition refused :: "int \<Rightarrow> (nat \<Rightarrow> nat list) \<Rightarrow> nat list \<Rightarrow> fd \<Rightarrow> 'a udp_scheme \<Rightarrow> 'a udp_scheme \<Rightarrow> bool" where
  "refused K L X cf s t \<longleftrightarrow> udp_inv K t L X \<and>
     (\<exists>l lo ro. o_log t = o_log s @ l @ teardown cf lo ro \<and> quiet l \<and>
        obtained (o_socket s) (o_socket t) (some_fd lo) \<and> obtained (o_java s) (o_java t) (some_fd ro))"

lemma half_plain:
  assumes h: "half_built K L X w i cmd cf lo ro s t" and p: "plain i t t'"
  shows "half_built K L X w i cmd cf lo ro s t'"
proof -
  from h p obtain l m where "o_log t = o_log s @ l" "quiet l" "o_log t' = o_log t @ m" "quiet m"
    by (auto simp: half_built_def plain_def)
  then have l: "\<exists>l. o_log t' = o_log s @ l \<and> quiet l" by (intro exI [of _ "l @ m"]) simp
  have ss: "same_ses t t'" using p by (simp add: plain_def)
  then have "cell_of (g_udp_slots t' i) = cell_of (g_udp_slots t i)" by (metis same_ses_def tbl_simps(1))
  then show ?thesis using h p l udp_inv_same [OF ss] ss unfolding half_built_def by (simp add: plain_def same_ses_def)
qed

lemma unref_refused:
  assumes inv: "udp_inv K t L (i # X)" and cf: "0 \<le> cf"
    and fds: "u_client_fd (g_udp_slots t i) = cf" "u_local_udp_fd (g_udp_slots t i) = lo" "u_remote_udp_fd (g_udp_slots t i) = ro"
    and log: "\<exists>l. o_log t = o_log s @ l \<and> quiet l"
    and q: "obtained (o_socket s) (o_socket t) (some_fd lo)" "obtained (o_java s) (o_java t) (some_fd ro)"
  shows "refused K L X cf s (udp_conn_unref i t)"
proof -
  have c: "u_refs (g_udp_slots t i) = 1" "\<not> u_finalized (g_udp_slots t i)" "0 \<le> u_client_fd (g_udp_slots t i)"
    using tb_invD(11) [OF udp_inv_tb [OF inv], of i] cf fds by (simp_all add: cell_off_def)
  note l = udp_unref_log [OF c]
  from log obtain m where "o_log t = o_log s @ m" "quiet m" by blast
  then show ?thesis unfolding refused_def
    by (intro conjI exI [of _ m] exI [of _ lo] exI [of _ ro]) (use udp_inv_unref(1) [OF inv] fds q l in simp_all)
qed

lemma half_unref: "half_built K L X w i cmd cf lo ro s t \<Longrightarrow> 0 \<le> cf \<Longrightarrow> refused K L X cf s (udp_conn_unref i t)"
  by (rule unref_refused) (auto simp: half_built_def)

lemma half_refuse:
  "half_built K L X w i cmd cf lo ro s t \<Longrightarrow> 0 \<le> cf \<Longrightarrow> refused K L X cf s (refuse_session i cf rep e t)"
  unfolding refuse_session_def
  by (rule half_unref [OF half_plain [OF half_plain [OF _ plain_set_close] plain_reply]])

text \<open>Obtaining a descriptor.\<close>

lemma os_socket_form:
  "os_socket s = ((f, e), t) \<Longrightarrow> (\<exists>q. t = s\<lparr>o_socket := q\<rparr> \<and> obtained (o_socket s) q (some_fd f))"
  by (cases "o_socket s") (auto simp: os_socket_def intro!: exI [of _ "o_socket t"])

lemma java_socket_form:
  "request_java_5g_socket s = ((f, e), t) \<Longrightarrow> (\<exists>q. t = s\<lparr>o_java := q\<rparr> \<and> obtained (o_java s) q (some_fd f))"
  by (cases "o_java s") (auto simp: request_java_5g_socket_def intro!: exI [of _ "o_java t"])

lemma relay_socket_form:
  assumes "relay_socket s = ((f, e), t)"
  shows "\<exists>q. t = s\<lparr>o_socket := q\<rparr> \<and> obtained (o_socket s) q (some_fd f)"
proof -
  obtain f1 e1 s1 where 1: "os_socket s = ((f1, e1), s1)" by (metis prod.exhaust)
  from os_socket_form [OF this] obtain q1 where q1: "s1 = s\<lparr>o_socket := q1\<rparr>" "obtained (o_socket s) q1 (some_fd f1)" by auto
  show ?thesis
  proof (cases "f1 \<ge> 0")
    case False
    then have "os_socket s1 = ((f, e), t)" using assms 1 by (simp add: relay_socket_def)
    from os_socket_form [OF this] obtain q where "t = s1\<lparr>o_socket := q\<rparr>" "obtained (o_socket s1) q (some_fd f)" by auto
    then show ?thesis using q1 False obtained_trans [of "o_socket s" q1 "[]" q] by (intro exI [of _ q]) simp
  qed (use assms 1 q1 in \<open>auto simp: relay_socket_def\<close>)
qed

lemma half_local:
  assumes h: "half_built K L X w i cmd cf (-1) ro s t" and r: "relay_socket t = ((f, e), t1)"
  shows "f < 0 \<Longrightarrow> half_built K L X w i cmd cf (-1) ro s t1"
    and "f \<ge> 0 \<Longrightarrow> half_built K L X w i cmd cf f ro s (upd_sess i (\<lambda>u. u\<lparr>u_local_udp_fd := f\<rparr>) t1)"
proof -
  from relay_socket_form [OF r] obtain q where q: "t1 = t\<lparr>o_socket := q\<rparr>" "obtained (o_socket t) q (some_fd f)" by auto
  have o: "obtained (o_socket s) q (some_fd f)" using h q(2) obtained_trans [of "o_socket s" "o_socket t" "[]" q] by (simp add: half_built_def)
  have ss: "same_ses t t1" unfolding q(1) by (auto intro: same_ses_cells)
  show "half_built K L X w i cmd cf (-1) ro s t1" if "f < 0"
    using that h o udp_inv_same [OF ss] by (simp add: half_built_def q(1))
  let ?t2 = "upd_sess i (\<lambda>u. u\<lparr>u_local_udp_fd := f\<rparr>) t1"
  have "same_ses t ?t2" by (rule same_ses_step [OF ss]) simp_all
  from udp_inv_same [OF this] show "half_built K L X w i cmd cf f ro s ?t2" if "f \<ge> 0"
    using h o by (simp add: half_built_def q(1)) (simp add: upd_sess_def)
qed

lemma half_remote:
  assumes h: "half_built K L X w i cmd cf lo (-1) s t" and r: "request_java_5g_socket t = ((f, e), t1)"
  shows "f < 0 \<Longrightarrow> half_built K L X w i cmd cf lo (-1) s t1"
    and "f \<ge> 0 \<Longrightarrow> half_built K L X w i cmd cf lo f s (upd_sess i (\<lambda>u. u\<lparr>u_remote_udp_fd := f\<rparr>) t1)"
proof -
  from java_socket_form [OF r] obtain q where q: "t1 = t\<lparr>o_java := q\<rparr>" "obtained (o_java t) q (some_fd f)" by auto
  have o: "obtained (o_java s) q (some_fd f)" using h q(2) obtained_trans [of "o_java s" "o_java t" "[]" q] by (simp add: half_built_def)
  have ss: "same_ses t t1" unfolding q(1) by (auto intro: same_ses_cells)
  show "half_built K L X w i cmd cf lo (-1) s t1" if "f < 0"
    using that h o udp_inv_same [OF ss] by (simp add: half_built_def q(1))
  let ?t2 = "upd_sess i (\<lambda>u. u\<lparr>u_remote_udp_fd := f\<rparr>) t1"
  have "same_ses t ?t2" by (rule same_ses_step [OF ss]) simp_all
  from udp_inv_same [OF this] show "half_built K L X w i cmd cf lo f s ?t2" if "f \<ge> 0"
    using h o by (simp add: half_built_def q(1)) (simp add: upd_sess_def)
qed

section \<open>The two kinds of session\<close>

lemma open_associate_outcome:
  assumes h: "half_built K L X w i cmd cf (-1) (-1) s t" and cf: "0 \<le> cf" and op: "open_associate i cf t = (ok, t')"
  shows "if ok then \<exists>lo ro. 0 \<le> lo \<and> 0 \<le> ro \<and> half_built K L X w i cmd cf lo ro s t' else refused K L X cf s t'"
proof -
  obtain l e t1 where 1: "relay_socket t = ((l, e), t1)" by (metis prod.exhaust)
  show ?thesis
  proof (cases "l < 0")
    case True
    then show ?thesis using op 1 half_refuse [OF half_local(1) [OF h 1 True] cf] by (auto simp: open_associate_def)
  next
    case l: False
    let ?t2 = "upd_sess i (\<lambda>u. u\<lparr>u_local_udp_fd := l\<rparr>) t1"
    obtain r e2 t3 where 3: "request_java_5g_socket ?t2 = ((r, e2), t3)" by (metis prod.exhaust)
    have h2: "half_built K L X w i cmd cf l (-1) s ?t2" by (rule half_local(2) [OF h 1]) (use l in simp)
    show ?thesis
    proof (cases "r < 0")
      case True
      then show ?thesis using op 1 l 3 half_refuse [OF half_remote(1) [OF h2 3 True] cf] by (auto simp: open_associate_def)
    next
      case r: False
      let ?t4 = "upd_sess i (\<lambda>u. u\<lparr>u_remote_udp_fd := r\<rparr>) t3"
      let ?t5 = "snd (os_send ?t4 cf (associate_reply cf l ?t4))"
      have h4: "half_built K L X w i cmd cf l r s ?t4" by (rule half_remote(2) [OF h2 3]) (use r in simp)
      have h5: "half_built K L X w i cmd cf l r s ?t5" by (rule half_plain [OF h4 plain_send])
      have p: "plain i ?t5 (upd_sess i (\<lambda>u. u\<lparr>u_peer_ss := a\<rparr>) ?t5)" for a by (rule plain_upd) simp_all
      have "ok" "t' = ?t5 \<or> (\<exists>a. t' = upd_sess i (\<lambda>u. u\<lparr>u_peer_ss := a\<rparr>) ?t5)"
        using op 1 l 3 r by (auto simp: open_associate_def Let_def split: option.splits)
      moreover from this(2) have "half_built K L X w i cmd cf l r s t'" using h5 half_plain [OF h5 p] by blast
      then have "\<exists>lo ro. 0 \<le> lo \<and> 0 \<le> ro \<and> half_built K L X w i cmd cf lo ro s t'" using l r by (meson not_less)
      ultimately show ?thesis by simp
    qed
  qed
qed

lemma open_udp_in_tcp_outcome:
  assumes h: "half_built K L X w i cmd cf (-1) (-1) s t" and cf: "0 \<le> cf" and op: "open_udp_in_tcp i cf t = (ok, t')"
  shows "if ok then \<exists>ro. 0 \<le> ro \<and> half_built K L X w i cmd cf (-1) ro s t' else refused K L X cf s t'"
proof -
  obtain r e t1 where 1: "request_java_5g_socket t = ((r, e), t1)" by (metis prod.exhaust)
  show ?thesis
  proof (cases "r < 0")
    case True
    then show ?thesis using op 1 half_refuse [OF half_remote(1) [OF h 1 True] cf] by (auto simp: open_udp_in_tcp_def)
  next
    case False
    then have "half_built K L X w i cmd cf (-1) r s (upd_sess i (\<lambda>u. u\<lparr>u_remote_udp_fd := r\<rparr>) t1)" by (intro half_remote(2) [OF h 1]) simp
    from half_plain [OF this plain_reply] show ?thesis using op 1 False by (auto simp: open_udp_in_tcp_def intro!: exI [of _ r])
  qed
qed

section \<open>Registration\<close>

text \<open>What the kernel is told: two or three descriptors, under the session's identifier and their roles.\<close>

definition reg_log :: "fd \<Rightarrow> fd \<Rightarrow> fd \<Rightarrow> fd \<Rightarrow> u64 \<Rightarrow> sysev list" where
  "reg_log ep cf lo ro x =
     (if lo \<ge> 0 then [CTL CTL_ADD ep cf EPOLLRDHUP x, CTL CTL_ADD ep lo EPOLLIN (x OR UDP_EV_ROLE_LOCAL_FLAG)]
      else [CTL CTL_ADD ep cf (EPOLLIN OR EPOLLRDHUP) x]) @
     [CTL CTL_ADD ep ro EPOLLIN (x OR UDP_EV_ROLE_REMOTE_FLAG)]"

lemma ctl_log: "os_epoll_ctl s op ep f ev x = (b, t) \<Longrightarrow> o_log t = o_log s @ (if b then [CTL op ep f ev x] else [])"
  by (auto simp: os_epoll_ctl_def split: list.splits if_splits)

lemma register_sess_plain:
  assumes "register_sess ep i s = (ok, t)"
  shows "plain i s t \<and> (ok \<longrightarrow> o_log t = o_log s @ reg_log ep (u_client_fd (g_udp_slots s i))
     (u_local_udp_fd (g_udp_slots s i)) (u_remote_udp_fd (g_udp_slots s i)) (u_ep_u64 (g_udp_slots s i)))"
proof -
  let ?u = "g_udp_slots s i"
  define c_ev where "c_ev = (if u_local_udp_fd ?u \<ge> 0 then EPOLLRDHUP else EPOLLIN OR EPOLLRDHUP)"
  define s1 where "s1 = upd_sess i (\<lambda>u. u\<lparr>u_client_events := c_ev\<rparr>) s"
  obtain b2 s2 where 2: "os_epoll_ctl s1 CTL_ADD ep (u_client_fd ?u) c_ev (u_ep_u64 ?u) = (b2, s2)" by force
  obtain b3 s3 where 3: "(if u_local_udp_fd ?u \<ge> 0
     then os_epoll_ctl (upd_sess i (\<lambda>u. u\<lparr>u_local_events := EPOLLIN\<rparr>) s2) CTL_ADD ep (u_local_udp_fd ?u) EPOLLIN (u_ep_u64 ?u OR UDP_EV_ROLE_LOCAL_FLAG)
     else (True, s2)) = (b3, s3)" by force
  obtain b4 s4 where 4: "os_epoll_ctl (upd_sess i (\<lambda>u. u\<lparr>u_remote_events := EPOLLIN\<rparr>) s3) CTL_ADD ep (u_remote_udp_fd ?u) EPOLLIN
     (u_ep_u64 ?u OR UDP_EV_ROLE_REMOTE_FLAG) = (b4, s4)" by force
  have p1: "plain i s s1" unfolding s1_def by (rule plain_upd) simp_all
  have p2: "plain i s s2" by (rule plain_trans [OF p1 plain_ctl [OF 2]])
  have pu: "plain i s2 (upd_sess i (\<lambda>u. u\<lparr>u_local_events := EPOLLIN\<rparr>) s2)"
    "plain i s3 (upd_sess i (\<lambda>u. u\<lparr>u_remote_events := EPOLLIN\<rparr>) s3)" by (rule plain_upd; simp)+
  have "plain i s2 s3" using 3 plain_trans [OF pu(1) plain_ctl] by (auto split: if_splits)
  then have p3: "plain i s s3" by (rule plain_trans [OF p2])
  have p4: "plain i s s4" by (rule plain_trans [OF p3 plain_trans [OF pu(2) plain_ctl [OF 4]]])
  have res: "(ok, t) = (if \<not> b2 then (False, s2) else if \<not> b3 then (False, s3) else (b4, s4))"
    using assms unfolding register_sess_def Let_def c_ev_def [symmetric] s1_def [symmetric] 2
    by (cases b2; cases b3) (simp_all add: 3 4)
  then have "plain i s t" using p2 p3 p4 by (auto split: if_splits)
  moreover have "o_log s4 = o_log s @ reg_log ep (u_client_fd ?u) (u_local_udp_fd ?u) (u_remote_udp_fd ?u) (u_ep_u64 ?u)" if "b2" "b3" "b4"
    using ctl_log [OF 2] ctl_log [OF 4] that 3 ctl_log [of "upd_sess i (\<lambda>u. u\<lparr>u_local_events := EPOLLIN\<rparr>) s2"]
    by (auto simp: reg_log_def s1_def c_ev_def split: if_splits)
  ultimately show ?thesis using res by (auto split: if_splits)
qed

section \<open>Admission to the worker\<close>

text \<open>The session is complete: owned by its worker, registered on every descriptor it uses.\<close>

definition established ::
  "int \<Rightarrow> (nat \<Rightarrow> nat list) \<Rightarrow> nat list \<Rightarrow> nat \<Rightarrow> int \<Rightarrow> fd \<Rightarrow> 'a udp_scheme \<Rightarrow> 'a udp_scheme \<Rightarrow> bool" where
  "established K L X w cmd cf s t \<longleftrightarrow>
     (\<exists>i l lo ro. udp_inv K t (L(w := i # L w)) X \<and> \<not> g_udp_slot_state s i \<and> u_registered (g_udp_slots t i) \<and>
        u_client_fd (g_udp_slots t i) = cf \<and> u_local_udp_fd (g_udp_slots t i) = lo \<and> u_remote_udp_fd (g_udp_slots t i) = ro \<and>
        u_cmd (g_udp_slots t i) = cmd \<and> 0 \<le> ro \<and> (0 \<le> lo \<longleftrightarrow> cmd = 3) \<and>
        obtained (o_socket s) (o_socket t) (some_fd lo) \<and> obtained (o_java s) (o_java t) [ro] \<and> quiet l \<and>
        o_log t = o_log s @ l @ reg_log (uw_epoll_fd s w) cf lo ro (ep_u64_of (u_gen (g_udp_slots t i)) i))"

lemma link_fields:
  "u_client_fd (g_udp_slots (udp_list_add w i s) j) = u_client_fd (g_udp_slots s j)"
  "u_local_udp_fd (g_udp_slots (udp_list_add w i s) j) = u_local_udp_fd (g_udp_slots s j)"
  "u_remote_udp_fd (g_udp_slots (udp_list_add w i s) j) = u_remote_udp_fd (g_udp_slots s j)"
  "u_ep_u64 (g_udp_slots (udp_list_add w i s) j) = u_ep_u64 (g_udp_slots s j)"
  "u_cmd (g_udp_slots (udp_list_add w i s) j) = u_cmd (g_udp_slots s j)" "u_gen (g_udp_slots (udp_list_add w i s) j) = u_gen (g_udp_slots s j)"
  "o_log (udp_list_add w i s) = o_log s" "o_socket (udp_list_add w i s) = o_socket s" "o_java (udp_list_add w i s) = o_java s"
  by (auto simp: udp_list_add_def Let_def upd_sess_def split: option.split)

lemma unlink_fields:
  "u_client_fd (g_udp_slots (udp_list_remove w i s) j) = u_client_fd (g_udp_slots s j)"
  "u_local_udp_fd (g_udp_slots (udp_list_remove w i s) j) = u_local_udp_fd (g_udp_slots s j)"
  "u_remote_udp_fd (g_udp_slots (udp_list_remove w i s) j) = u_remote_udp_fd (g_udp_slots s j)"
  "o_log (udp_list_remove w i s) = o_log s" "o_socket (udp_list_remove w i s) = o_socket s" "o_java (udp_list_remove w i s) = o_java s"
  by (auto simp: udp_list_remove_def Let_def upd_sess_def split: option.split)

lemma udp_inv_link:
  "udp_inv K t L (i # X) \<Longrightarrow> cell_owned w i (cell_of (g_udp_slots t i)) \<Longrightarrow> udp_inv K (udp_list_add w i t) (L(w := i # L w)) X"
  unfolding udp_inv_owned by (rule udp_tab.owned_link) simp_all

lemma udp_inv_register:
  assumes "udp_inv K t L X" and "i \<in> set (L w)"
  shows "udp_inv K (upd_sess i (\<lambda>u. u\<lparr>u_registered := True\<rparr>) t) L X"
proof -
  let ?f = "\<lambda>c. c\<lparr>cl_reg := True\<rparr>"
  have t: "tbl (upd_sess i (\<lambda>u. u\<lparr>u_registered := True\<rparr>) t) = upd_cell i ?f (tbl t)" by (rule tbl_upd) simp
  have l: "tb_list (upd_cell i ?f (tbl t)) v (L v) = tb_list (tbl t) v (L v)" for v
    by (rule tb_list_cong) (auto simp: tb_nxt_def tb_prv_def)
  have "tb_inv UDP_SLOT_COUNT K (upd_cell i ?f (tbl t)) L X"
    using udp_inv_tb [OF assms(1)] udp_inv_listed(8) [OF assms] unfolding tb_inv_def
    by (auto simp: l tb_used_def cell_owned_def cell_off_def)
  then show ?thesis using assms(1) by (simp add: udp_inv_def t udp_slots_wf_def)
qed

lemma admit_sess_outcome:
  assumes h: "half_built K L X w i cmd cf lo ro s t" and cf: "0 \<le> cf" and ro: "0 \<le> ro" and lo: "0 \<le> lo \<longleftrightarrow> cmd = 3"
  shows "established K L X w cmd cf s (admit_sess w i t) \<or> refused K L X cf s (admit_sess w i t)"
proof (cases "uw_stopping t w")
  case True
  then show ?thesis using half_unref [OF half_plain [OF h plain_set_close] cf] by (simp add: admit_sess_def)
next
  case False
  let ?a = "udp_list_add w i t"
  obtain ok t1 where reg: "register_sess (uw_epoll_fd t w) i ?a = (ok, t1)" by force
  note p = register_sess_plain [OF reg]
  from h obtain l where l: "o_log t = o_log s @ l" "quiet l" by (auto simp: half_built_def)
  have "udp_inv K ?a (L(w := i # L w)) X" using udp_inv_link [of K t L i X w] h by (simp add: half_built_def)
  then have inv1: "udp_inv K t1 (L(w := i # L w)) X" using udp_inv_same [of ?a t1] p by (simp add: plain_def)
  have i: "i \<in> set ((L(w := i # L w)) w)" by simp
  show ?thesis
  proof (cases ok)
    case True
    have ad: "admit_sess w i t = upd_sess i (\<lambda>u. u\<lparr>u_registered := True\<rparr>) t1" using False reg True by (simp add: admit_sess_def)
    have g: "u_gen (g_udp_slots t1 i) = u_gen (g_udp_slots t i)" using p by (simp add: plain_def same_ses_def link_fields)
    have "established K L X w cmd cf s (admit_sess w i t)"
      unfolding established_def ad
      by (intro exI [of _ i] exI [of _ l] exI [of _ lo] exI [of _ ro] conjI udp_inv_register [OF inv1 i])
        (use h p True l g ro lo in \<open>simp_all add: half_built_def plain_def link_fields some_fd_def upd_sess_def\<close>)
    then show ?thesis ..
  next
    case nok: False
    let ?t2 = "upd_sess i (set_close UDP_CLOSE_RESOURCE 0) t1"
    let ?t3 = "udp_list_remove w i (upd_sess i (\<lambda>u. u\<lparr>u_closed := True\<rparr>) ?t2)"
    have ad: "admit_sess w i t = udp_conn_unref i ?t3" using False reg nok by (simp add: admit_sess_def)
    have "plain i ?a ?t2" using p plain_trans [OF _ plain_set_close] by blast
    then obtain m where m: "o_log ?t2 = o_log t @ m" "quiet m" "o_socket ?t2 = o_socket t" "o_java ?t2 = o_java t"
      "u_client_fd (g_udp_slots ?t2 i) = cf" "u_local_udp_fd (g_udp_slots ?t2 i) = lo" "u_remote_udp_fd (g_udp_slots ?t2 i) = ro"
      using h by (auto simp: plain_def link_fields half_built_def simp del: upd_sess_simps)
    have "udp_inv K ?t2 (L(w := i # L w)) X" using inv1 udp_inv_same [of t1 ?t2] plain_set_close [of i t1] by (simp add: plain_def)
    note cl = udp_inv_close [OF this i]
    have "(L(w := i # L w))(w := remove1 i ((L(w := i # L w)) w)) = L" by auto
    with cl have x: "udp_inv K ?t3 L (X @ [i])" by metis
    have inv3: "udp_inv K ?t3 L (i # X)" by (rule udp_inv_perm [OF x]) (use tb_invD(8) [OF udp_inv_tb [OF x]] in auto)
    have "refused K L X cf s (udp_conn_unref i ?t3)"
      by (rule unref_refused [OF inv3 cf])
        (use h l m in \<open>auto simp: half_built_def unlink_fields upd_sess_def intro!: exI [of _ "l @ m"]\<close>)
    then show ?thesis by (simp add: ad)
  qed
qed

section \<open>The whole of \<open>udp_start_session\<close>\<close>

lemma os_malloc_form: "os_malloc s = (b, t) \<Longrightarrow> \<exists>q. t = s\<lparr>o_malloc := q\<rparr>"
  by (cases "o_malloc s") (auto simp: os_malloc_def intro!: exI [of _ "o_malloc t"])

lemma udp_inv_counted: "udp_inv K s L X \<Longrightarrow> udp_inv (K + 1) (s\<lparr>g_conn_count := g_conn_count s + 1\<rparr>) L X"
proof -
  have "tb_list (t\<lparr>tb_count := n\<rparr>) w xs = tb_list t w xs" for t n w xs by (rule tb_list_cong) (simp_all add: tb_nxt_def tb_prv_def)
  then show "udp_inv K s L X \<Longrightarrow> udp_inv (K + 1) (s\<lparr>g_conn_count := g_conn_count s + 1\<rparr>) L X"
    by (auto simp: udp_inv_def udp_slots_wf_def tb_inv_def tbl_count tb_used_def)
qed

lemma acquire_refines:
  assumes wf: "udp_slots_wf s" and acq: "udp_slot_acquire s = (Some i, s1)"
    and t: "t = upd_sess i (init_sess w cf cmd now ok1 ok2) (s1\<lparr>g_udp_next_worker := n, o_malloc := q\<rparr>)"
  shows "\<exists>c. tb_acquire c (tbl s) = Some (i, tbl t) \<and> cl_refs c = 1 \<and> \<not> cl_fin c \<and> \<not> cl_reg c \<and> cl_next c = None \<and> cl_prev c = None"
    and "cell_owned w i (cell_of (g_udp_slots t i))" and "udp_slots_wf t"
proof -
  let ?top = "g_udp_free_slot_top s - 1"
  have top: "0 < g_udp_free_slot_top s" "g_udp_free_slot_top s \<le> length (g_udp_free_slots s)" and i: "i = g_udp_free_slots s ! ?top"
    and s1: "s1 = s\<lparr>g_udp_free_slot_top := ?top,
        g_udp_slots := (g_udp_slots s)(i := zero_sess\<lparr>u_gen := u_gen (g_udp_slots s i) + 1, u_slot := i,
          u_client_fd := -1, u_local_udp_fd := -1, u_remote_udp_fd := -1\<rparr>),
        g_udp_slot_state := (g_udp_slot_state s)(i := True), g_udp_st_acquired := g_udp_st_acquired s + 1\<rparr>"
    using acq wf by (auto simp: udp_slot_acquire_def Let_def udp_slots_wf_def split: if_splits)
  have fr: "udp_free s = take ?top (g_udp_free_slots s) @ [i]"
    using top take_Suc_conv_app_nth [of ?top "g_udp_free_slots s"] by (simp add: udp_free_def i)
  let ?c = "\<lparr>cl_live = True, cl_closed = False, cl_reg = False, cl_refs = 1, cl_fin = False, cl_widx = w, cl_slot = i, cl_next = None, cl_prev = None\<rparr>"
  have c: "cell_of (g_udp_slots t i) = ?c" by (simp add: t s1 init_sess_def zero_sess_def cell_of_def)
  have "tbl t = (tbl s)\<lparr>tb_free := butlast (udp_free s), tb_active := (g_udp_slot_state s)(i := True), tb_cell := (tb_cell (tbl s))(i := ?c)\<rparr>"
    unfolding fr by (simp add: tbl_def fun_eq_iff c) (simp add: t s1 udp_free_def upd_sess_def)
  then have "tb_acquire ?c (tbl s) = Some (i, tbl t)" by (simp add: tb_acquire_def fr)
  then show "\<exists>c. tb_acquire c (tbl s) = Some (i, tbl t) \<and> cl_refs c = 1 \<and> \<not> cl_fin c \<and> \<not> cl_reg c \<and> cl_next c = None \<and> cl_prev c = None"
    by (intro exI [of _ ?c]) simp
  show "cell_owned w i (cell_of (g_udp_slots t i))" unfolding c by (simp add: cell_owned_def)
  show "udp_slots_wf t" using wf le_trans [OF diff_le_self] by (simp add: udp_slots_wf_def t s1)
qed

lemma half_init:
  assumes inv: "udp_inv K s L X" and acq: "udp_slot_acquire (s\<lparr>g_conn_count := g_conn_count s + 1\<rparr>) = (Some i, s1)"
    and t: "t = upd_sess i (init_sess w cf cmd now ok1 ok2) (s1\<lparr>g_udp_next_worker := n, o_malloc := q\<rparr>)"
  shows "half_built K L X w i cmd cf (-1) (-1) s t"
proof -
  let ?s0 = "s\<lparr>g_conn_count := g_conn_count s + 1\<rparr>"
  note inv0 = udp_inv_counted [OF inv]
  have wf: "udp_slots_wf ?s0" using inv0 by (simp add: udp_inv_def)
  note a = acquire_refines [OF wf acq t]
  from a(1) tb_inv_acquire [OF udp_inv_tb [OF inv0]] have f: "tb_inv UDP_SLOT_COUNT K (tbl t) L (i # X) \<and> \<not> g_udp_slot_state s i"
    by (force simp: tbl_count)
  have "\<exists>u. s1 = ?s0\<lparr>g_udp_free_slot_top := g_udp_free_slot_top s - 1, g_udp_slots := (g_udp_slots s)(i := u), 
       g_udp_slot_state := (g_udp_slot_state s)(i := True), g_udp_st_acquired := g_udp_st_acquired s + 1\<rparr> \<and> u_slot u = i"
    using acq by (auto simp: udp_slot_acquire_def Let_def split: if_splits)
  then show ?thesis unfolding half_built_def
    by (intro conjI) (use f a(2,3) in \<open>auto simp: t udp_inv_def init_sess_def upd_sess_def\<close>)
qed

lemma turned_away:
  assumes "udp_inv K s L X" and s': "s' = s \<or> s' = s\<lparr>g_udp_st_exhausted := n\<rparr>"
  shows "refused K L X cf s (os_close cf (send_zero_reply cf rep s'))"
proof -
  have c: "same_ses s s'" using s' by (auto intro: same_ses_cells)
  have p: "plain 0 s' (send_zero_reply cf rep s')" by (rule plain_reply)
  then obtain l where l: "o_log (send_zero_reply cf rep s') = o_log s' @ l" "quiet l" by (auto simp: plain_def)
  have "same_ses s (os_close cf (send_zero_reply cf rep s'))"
    using c p by (intro same_ses_os_close) (auto simp: plain_def intro: same_ses_trans)
  from udp_inv_same [OF this] have "udp_inv K (os_close cf (send_zero_reply cf rep s')) L X" using assms(1) by simp
  then show ?thesis unfolding refused_def
    by (intro conjI exI [of _ l] exI [of _ "-1"]) (use l p s' in \<open>auto simp: plain_def os_close_def log_ev_def teardown_def\<close>)
qed

lemma start_session_outcome:
  assumes inv: "udp_inv K s L X" and cf: "0 \<le> cf" and n: "0 \<le> sint (g_udp_next_worker s)"
  shows "\<exists>t. udp_start_session cf cmd s = Some t \<and>
     (established K L X (nat (pick_udp_worker (g_udp_next_worker s))) cmd cf s t \<or> refused K L X cf s t)"
proof -
  let ?s0 = "s\<lparr>g_conn_count := g_conn_count s + 1\<rparr>"
  obtain r s1 where acq: "udp_slot_acquire ?s0 = (r, s1)" by force
  show ?thesis
  proof (cases "g_conn_count s \<ge> MAX_CONCURRENT_CONNS")
    case True
    then show ?thesis using turned_away [OF inv, of s] by (auto simp: udp_start_session_def Let_def)
  next
    case quota: False
    show ?thesis
    proof (cases r)
      case None
      then have "s1 = ?s0\<lparr>g_udp_st_exhausted := g_udp_st_exhausted s + 1\<rparr>"
        using acq by (auto simp: udp_slot_acquire_def Let_def split: if_splits)
      then have "s1\<lparr>g_conn_count := g_conn_count s1 - 1\<rparr> = s\<lparr>g_udp_st_exhausted := g_udp_st_exhausted s + 1\<rparr>" by simp
      then show ?thesis using turned_away [OF inv, of "s1\<lparr>g_conn_count := g_conn_count s1 - 1\<rparr>" "g_udp_st_exhausted s + 1"] quota acq None
        by (auto simp: udp_start_session_def Let_def)
    next
      case (Some i)
      have nw: "g_udp_next_worker s1 = g_udp_next_worker s"
        using acq Some by (auto simp: udp_slot_acquire_def Let_def split: if_splits)
      define w where "w = nat (pick_udp_worker (g_udp_next_worker s))"
      have wi: "\<not> pick_udp_worker (g_udp_next_worker s) < 0"
        using n by (simp add: pick_udp_worker_def c_rem_nonneg UDP_WORKER_COUNT_def)
      define s2 where "s2 = s1\<lparr>g_udp_next_worker := g_udp_next_worker s1 + 1\<rparr>"
      obtain ok1 s3 ok2 s4 where m: "os_malloc s2 = (ok1, s3)" "os_malloc s3 = (ok2, s4)" by force
      obtain q where q: "s4 = s1\<lparr>g_udp_next_worker := g_udp_next_worker s1 + 1, o_malloc := q\<rparr>"
        using os_malloc_form [OF m(1)] os_malloc_form [OF m(2)] by (auto simp: s2_def)
      define s5 where "s5 = upd_sess i (init_sess w cf cmd (o_now s4) ok1 ok2) s4"
      have h: "half_built K L X w i cmd cf (-1) (-1) s s5" by (rule half_init [OF inv acq [unfolded Some] s5_def [unfolded q]])
      obtain ok s6 where op: "(if cmd = 3 then open_associate i cf s5 else open_udp_in_tcp i cf s5) = (ok, s6)" by force
      have st: "udp_start_session cf cmd s = Some (if \<not> ok1 \<or> \<not> ok2 then udp_conn_unref i (upd_sess i (set_close UDP_CLOSE_RESOURCE 0) s5)
          else if ok then admit_sess w i s6 else s6)"
        using quota acq Some wi m [unfolded s2_def nw] op [unfolded s5_def w_def] unfolding udp_start_session_def s5_def w_def
        by (cases "cmd = 3"; cases ok; cases ok1; cases ok2) (simp_all add: Let_def nw)
      show ?thesis
      proof (cases "ok1 \<and> ok2 \<and> ok")
        case False
        then have "refused K L X cf s (if \<not> ok1 \<or> \<not> ok2 then udp_conn_unref i (upd_sess i (set_close UDP_CLOSE_RESOURCE 0) s5)
          else if ok then admit_sess w i s6 else s6)"
          using half_unref [OF half_plain [OF h plain_set_close] cf] open_associate_outcome [OF h cf] open_udp_in_tcp_outcome [OF h cf] op
          by (auto split: if_splits)
        then show ?thesis using st by blast
      next
        case True
        then obtain lo ro where "half_built K L X w i cmd cf lo ro s s6" "0 \<le> ro" "0 \<le> lo \<longleftrightarrow> cmd = 3"
          using open_associate_outcome [OF h cf, of ok s6] open_udp_in_tcp_outcome [OF h cf, of ok s6] op
          by (cases "cmd = 3") force+
        from admit_sess_outcome [OF this(1) cf this(2,3)] show ?thesis using st True by (simp add: w_def)
      qed
    qed
  qed
qed

end
