(* ===== verification/Udp_Props.thy ===== *)
theory Udp_Props
  imports Udp_Start
begin

unbundle bit_operations_syntax

text \<open>
  The properties of the UDP engine's session life, over the lemmas of \<open>Udp_Engine\<close>, \<open>Udp_Life\<close> and
  \<open>Udp_Start\<close>.
\<close>

section \<open>Concrete states\<close>

text \<open>The UDP engine after \<open>udp_slots_init\<close>, with \<open>K\<close> connections counted elsewhere.\<close>

definition udp_engine_start :: "int \<Rightarrow> udp" where
  "udp_engine_start K = (udp_slots_init (udp_boot (\<lambda>_. None) (\<lambda>_. None)))\<lparr>g_conn_count := K\<rparr>"

lemma udp_engine_start_inv: "udp_inv K (udp_engine_start K) (\<lambda>_. []) []"
proof -
  have "tb_list (tbl (udp_engine_start K)) w []" for w
    by (simp add: tb_list_def dl_rep_def udp_engine_start_def udp_slots_init_def)
  moreover have "tb_used UDP_SLOT_COUNT (tbl (udp_engine_start K)) = 0"
    by (auto simp: tb_used_def udp_engine_start_def udp_slots_init_def)
  ultimately show ?thesis
    by (auto simp: udp_inv_def tb_inv_def udp_slots_wf_def udp_engine_start_def udp_slots_init_def udp_free_def)
qed

text \<open>One more idle session on a worker's list, as a successful start leaves it.\<close>

lemma idle_view_add: "idle_view (g_udp_slots (udp_list_add w i s) j) = idle_view (g_udp_slots s j)"
  by (auto simp: idle_view_def udp_list_add_def Let_def split: option.split)

lemma add_idle_session:
  fixes s :: udp
  assumes inv: "udp_inv K s L []" and n: "length (L 0) < UDP_SLOT_COUNT" and others: "\<forall>v. v \<noteq> 0 \<longrightarrow> L v = []"
    and idle: "\<forall>i \<in> set (L 0). udp_scan_expired 1000 (g_udp_slots s i) \<and> u_out_len (g_udp_slots s i) = 0"
  shows "\<exists>t i. udp_inv K (t :: udp) (L(0 := i # L 0)) [] \<and>
     (\<forall>j \<in> set (i # L 0). udp_scan_expired 1000 (g_udp_slots t j) \<and> u_out_len (g_udp_slots t j) = 0)"
proof -
  let ?s0 = "s\<lparr>g_conn_count := g_conn_count s + 1\<rparr>"
  have "g_udp_free_slot_top s \<noteq> 0"
  proof
    assume "g_udp_free_slot_top s = 0"
    then have a: "g_udp_slot_state s j" if "j < UDP_SLOT_COUNT" for j
      using tb_invD(2) [OF udp_inv_tb [OF inv]] that by (auto simp: udp_free_def)
    have "j \<in> set (L 0)" if lt: "j < UDP_SLOT_COUNT" for j
    proof -
      obtain v where "j \<in> set (L v)" using tb_invD(13) [OF udp_inv_tb [OF inv] lt] a [OF lt] by auto
      then show ?thesis using others by (cases "v = 0") auto
    qed
    then have "{..<UDP_SLOT_COUNT} \<subseteq> set (L 0)" by auto
    from card_mono [OF _ this] have "UDP_SLOT_COUNT \<le> card (set (L 0))" by simp
    then show False using n card_length [of "L 0"] by simp
  qed
  then obtain i s1 where acq: "udp_slot_acquire ?s0 = (Some i, s1)" by (auto simp: udp_slot_acquire_def Let_def)
  then have s1: "g_udp_slots s1 = (g_udp_slots s)(i := zero_sess\<lparr>u_gen := u_gen (g_udp_slots s i) + 1, u_slot := i,
      u_client_fd := -1, u_local_udp_fd := -1, u_remote_udp_fd := -1\<rparr>)"
    by (auto simp: udp_slot_acquire_def Let_def split: if_splits)
  define t where "t = upd_sess i (init_sess 0 5 4 1 True True) (s1\<lparr>g_udp_next_worker := 0, o_malloc := []\<rparr>)"
  note h = half_init [OF inv acq t_def]
  have inv2: "udp_inv K (udp_list_add 0 i t) (L(0 := i # L 0)) []"
    using udp_inv_link [of K t L i "[]" 0] h by (simp add: half_built_def)
  let ?t = "upd_sess i (\<lambda>u. u\<lparr>u_registered := True\<rparr>) (udp_list_add 0 i t)"
  have inv3: "udp_inv K ?t (L(0 := i # L 0)) []" by (rule udp_inv_register [OF inv2, of _ 0]) simp
  have out: "i \<notin> set (L 0)" using tb_invD(12) [OF udp_inv_tb, of K t L "[i]" i 0] h by (simp add: half_built_def)
  have j: "idle_view (g_udp_slots ?t j) = idle_view (g_udp_slots s j)" if "j \<noteq> i" for j
    using that by (simp add: idle_view_add t_def s1)
  have v: "idle_view (g_udp_slots (udp_list_add 0 i t) i) = (UDP_CONN_MAGIC, False, False, replicate UDP_DNS_PEND_SLOTS zero_pend, 1, 0)"
    unfolding idle_view_add by (simp add: t_def s1 init_sess_def zero_sess_def idle_view_def)
  have "udp_dns_pend_count (replicate UDP_DNS_PEND_SLOTS zero_pend) UDP_DNS_PEND_SLOTS = 0"
    by (simp add: udp_dns_pend_count_def zero_pend_def UDP_DNS_PEND_SLOTS_def numeral_eq_Suc)
  with v have "udp_scan_expired 1000 (g_udp_slots ?t i) \<and> u_out_len (g_udp_slots ?t i) = 0"
    by (simp add: idle_view_def udp_scan_expired_def udp_conn_idle_expired_def UDP_IDLE_TIMEOUT_SEC_def)
  moreover have "udp_scan_expired 1000 (g_udp_slots ?t j) \<and> u_out_len (g_udp_slots ?t j) = 0" if "j \<in> set (L 0)" for j
  proof -
    have "j \<noteq> i" using that out by auto
    from j [OF this] show ?thesis using idle that udp_scan_expired_view [OF j [OF \<open>j \<noteq> i\<close>], of 1000] by (simp add: idle_view_def)
  qed
  ultimately show ?thesis using inv3 by (intro exI [of _ ?t] exI [of _ i]) (simp del: fun_upd_apply)
qed

lemma idle_worker:
  "n \<le> UDP_SLOT_COUNT \<Longrightarrow> \<exists>s L. udp_inv K (s :: udp) L [] \<and> length (L 0) = n \<and> (\<forall>v. v \<noteq> 0 \<longrightarrow> L v = []) \<and>
     (\<forall>i \<in> set (L 0). udp_scan_expired 1000 (g_udp_slots s i) \<and> u_out_len (g_udp_slots s i) = 0)"
proof (induction n)
  case 0
  then show ?case using udp_engine_start_inv by (intro exI [of _ "udp_engine_start K"] exI [of _ "\<lambda>_. []"]) simp
next
  case (Suc n)
  then obtain s L where s: "udp_inv K (s :: udp) L []" "length (L 0) = n" "\<forall>v. v \<noteq> 0 \<longrightarrow> L v = []"
    "\<forall>i \<in> set (L 0). udp_scan_expired 1000 (g_udp_slots s i) \<and> u_out_len (g_udp_slots s i) = 0" by auto
  have "length (L 0) < UDP_SLOT_COUNT" using s(2) Suc.prems by simp
  from add_idle_session [OF s(1) this s(3,4)] obtain t i where
    "udp_inv K (t :: udp) (L(0 := i # L 0)) []" "\<forall>j \<in> set (i # L 0). udp_scan_expired 1000 (g_udp_slots t j) \<and> u_out_len (g_udp_slots t j) = 0"
    by blast
  then show ?case using s(2,3)
    by (intro exI [of _ t] exI [of _ "L(0 := i # L 0)"] conjI) (assumption | simp)+
qed

section \<open>Worker turns\<close>

text \<open>
  C32. A turn of a UDP worker keeps every session owned exactly once. For any batch of at most
  \<open>MAX_EVENTS\<close> events of its own event descriptor (stale identifiers included) the slots in use are
  afterwards again exactly the sessions on the workers' lists, those collected when the shutdown
  event cut the turn short, and those taken off a list without being released (\<open>X\<close> before the turn,
  \<open>Y\<close> in it); the shared connection count agrees with them; other workers' lists are untouched; a
  finished turn has released all it collected, and if the five-second scan ran, no session left on
  the list is past its idle timeout. \<open>Y\<close> is empty unless the turn takes more than \<open>MAX_EVENTS\<close>
  sessions off the list, and then holds exactly the ones beyond that number.
\<close>

theorem udp_turn_resources:
  assumes "udp_inv K s L X" and "length events \<le> MAX_EVENTS" and "\<forall>e \<in> set events. own_event w s e"
    and "udp_worker_iteration w now events lc s = (ex, t, G, lc')"
  shows "\<exists>L' Y. udp_inv K t L' ((if ex then G else []) @ X @ Y) \<and> (\<forall>v. v \<noteq> w \<longrightarrow> L' v = L v) \<and> set (L' w) \<subseteq> set (L w) \<and>
     length Y = length (L w) - length (L' w) - MAX_EVENTS \<and> length G \<le> MAX_EVENTS \<and>
     (\<not> ex \<longrightarrow> (\<forall>i \<in> set G. udp_released t i) \<and>
        (now - lc \<ge> 5 \<longrightarrow> (\<forall>i \<in> set (L' w). \<not> udp_scan_expired now (g_udp_slots t i))))"
proof -
  from udp_iteration_inv [OF assms] obtain L' Y where
    1: "udp_inv K t L' ((if ex then G else []) @ X @ Y)" "moved w L [] L' (G @ Y)" "length G \<le> MAX_EVENTS" "Y = [] \<or> length G = MAX_EVENTS"
    "\<not> ex \<longrightarrow> (\<forall>i \<in> set G. udp_released t i)"
    "\<not> ex \<and> now - lc \<ge> 5 \<longrightarrow> (\<forall>j \<in> set (L' w). \<not> udp_scan_expired now (g_udp_slots t j))" by (elim exE conjE) (rule that; assumption)
  have "length Y = length (L w) - length (L' w) - MAX_EVENTS" using 1(2-4) by (auto simp: moved_def)
  then show ?thesis using 1 by (intro exI [of _ L'] exI [of _ Y]) (simp add: moved_def)
qed

theorem udp_turn_resources_witness:
  "\<exists>t L' Y G. udp_worker_iteration 0 10 [(0x20000000, 1)] 0 (udp_engine_start 2) = (False, t, G, 10) \<and> udp_inv 2 t L' Y"
proof -
  obtain ex t G lc' where it: "udp_worker_iteration 0 10 [(0x20000000, 1)] 0 (udp_engine_start 2) = (ex, t, G, lc')"
    by (metis prod.exhaust)
  then have "\<not> ex \<and> lc' = 10" by (auto simp: udp_worker_iteration_def split: prod.splits)
  moreover have "\<forall>e \<in> set [(0x20000000, 1)]. own_event 0 (udp_engine_start 2) e"
    by (simp add: own_event_def udp_engine_start_def udp_slots_init_def zero_sess_def split: prod.split)
  ultimately show ?thesis using udp_turn_resources [OF udp_engine_start_inv _ _ it] it by (auto simp: MAX_EVENTS_def)
qed

text \<open>
  C37. The idle scan loses sessions. When a scan finds more than \<open>MAX_EVENTS\<close> expired sessions with
  nothing queued, it closes and unlinks all of them but records only \<open>MAX_EVENTS\<close> for release: the
  others stay in use, on no list, with no event of theirs ever processed again, holding their
  reference, their slot and their share of the connection quota. (The TCP scan, at a full
  array, releases what it has collected and goes on with the list.)
\<close>

theorem udp_scan_loses_sessions:
  assumes "udp_inv K s L []" and "\<forall>i \<in> set (L w). udp_scan_expired now (g_udp_slots s i) \<and> u_out_len (g_udp_slots s i) = 0"
    and "now - lc \<ge> 5"
  shows "\<exists>t G Y. udp_worker_iteration w now [] lc s = (False, t, G, now) \<and> udp_inv K t (L(w := [])) Y \<and>
     length Y = length (L w) - MAX_EVENTS \<and>
     (\<forall>i \<in> set Y. g_udp_slot_state t i \<and> (u_closed (g_udp_slots t i) \<or> \<not> u_registered (g_udp_slots t i)) \<and>
        u_refs (g_udp_slots t i) = 1 \<and> (\<forall>v. i \<notin> set ((L(w := [])) v)))"
proof -
  obtain ex t G lc' where it: "udp_worker_iteration w now [] lc s = (ex, t, G, lc')" by (metis prod.exhaust)
  then have fin: "\<not> ex" "lc' = now" using assms(3) by (auto simp: udp_worker_iteration_def split: prod.splits)
  from udp_iteration_inv [OF assms(1) _ _ it] fin(1) obtain L' Y where
    1: "udp_inv K t L' Y" "moved w L [] L' (G @ Y)" "length G \<le> MAX_EVENTS" "Y = [] \<or> length G = MAX_EVENTS" and
    2: "\<forall>j \<in> set (L' w). \<not> udp_scan_expired now (g_udp_slots t j)" and
    3: "\<forall>j \<in> set (L' w). u_out_len (g_udp_slots s j) = 0 \<longrightarrow> idle_view (g_udp_slots t j) = idle_view (g_udp_slots s j)"
    using assms(3) by auto
  have "j \<notin> set (L' w)" for j
  proof
    assume j: "j \<in> set (L' w)"
    then have "j \<in> set (L w)" using 1(2) by (auto simp: moved_def)
    then show False using 2 3 j assms(2) udp_scan_expired_view by metis
  qed
  then have "L' w = []" by (cases "L' w") auto
  then have L': "L' = L(w := [])" using 1(2) by (auto simp: moved_def)
  have "length Y = length (L w) - MAX_EVENTS" using 1(2-4) \<open>L' w = []\<close> by (auto simp: moved_def)
  moreover have "g_udp_slot_state t i \<and> (u_closed (g_udp_slots t i) \<or> \<not> u_registered (g_udp_slots t i)) \<and>
        u_refs (g_udp_slots t i) = 1 \<and> (\<forall>v. i \<notin> set ((L(w := [])) v))" if "i \<in> set Y" for i
    using tb_invD(10-12) [OF udp_inv_tb [OF 1(1)] that] unfolding L' by (simp add: cell_off_def)
  ultimately show ?thesis using it fin 1(1) unfolding L' by (intro exI [of _ t] exI [of _ G] exI [of _ Y]) (simp del: fun_upd_apply)
qed

theorem udp_scan_loses_sessions_witness:
  "\<exists>s t L L' G Y. udp_inv 0 (s :: udp) L [] \<and> udp_worker_iteration 0 1000 [] 0 s = (False, t, G, 1000) \<and>
     udp_inv 0 t L' Y \<and> length Y = 1"
proof -
  obtain s L where s: "udp_inv 0 (s :: udp) L []" "length (L 0) = Suc MAX_EVENTS"
    "\<forall>i \<in> set (L 0). udp_scan_expired 1000 (g_udp_slots s i) \<and> u_out_len (g_udp_slots s i) = 0"
    using idle_worker [of "Suc MAX_EVENTS" 0] by (auto simp: MAX_EVENTS_def UDP_SLOT_COUNT_def)
  have "5 \<le> 1000 - (0 :: int)" by simp
  from udp_scan_loses_sessions [OF s(1,3) this] show ?thesis using s(1,2) by (simp del: fun_upd_apply) blast
qed

section \<open>Leaving the loop\<close>

text \<open>
  C35. A UDP worker that leaves its loop releases every session on its list and every one collected
  before the shutdown event, leaves an empty list, the other workers' sessions in place and a
  consistent count, and refuses sessions started later. The garbage array may also hold what a
  finished turn has already released, provided no new session has taken those slots since.
\<close>

theorem udp_exit_releases_all:
  assumes "udp_inv K s L (G @ X) \<or> udp_inv K s L X \<and> (\<forall>i \<in> set G. udp_released s i)"
  shows "udp_inv K (udp_worker_exit w G s) (L(w := [])) X \<and> udp_list_head (udp_worker_exit w G s) w = None \<and>
         uw_stopping (udp_worker_exit w G s) w"
  using udp_exit_inv [OF assms, of w] tb_inv_head [OF udp_inv_tb, of K "udp_worker_exit w G s" "L(w := [])" X w] by simp

theorem udp_exit_releases_all_witness:
  "\<exists>s L. udp_inv 0 (s :: udp) L [] \<and> length (L 0) = 1000 \<and> udp_inv 0 (udp_worker_exit 0 [] s) (\<lambda>_. []) []"
proof -
  obtain s L where s: "udp_inv 0 (s :: udp) L []" "length (L 0) = 1000" "\<forall>v. v \<noteq> 0 \<longrightarrow> L v = []"
    using idle_worker [of 1000 0] by (auto simp: UDP_SLOT_COUNT_def)
  have "L(0 := []) = (\<lambda>_. [])" using s(3) by auto
  then show ?thesis using udp_exit_releases_all [of 0 s L "[]" "[]" 0] s by (simp del: fun_upd_apply) blast
qed

text \<open>
  C36. The drain loop of an exiting worker ends: it has \<open>for (;;)\<close> and a single \<open>break\<close>, at the first
  batch that is not full, and it reaches it whatever the length of the list. The loop returns
  (a \<^term>\<open>Some\<close>, where \<^term>\<open>None\<close> would be running for ever), with every session of the
  worker released, its list empty and the sessions of the other workers in place.
\<close>

theorem udp_drain_terminates:
  assumes "udp_inv K s L X"
  shows "\<exists>t. udp_drain_loop w s = Some t \<and> udp_inv K t (L(w := [])) X \<and> udp_list_head t w = None"
proof -
  obtain t where t: "udp_drain_loop w s = Some t" "udp_inv K t (L(w := [])) X" using udp_drain_loop_inv [OF assms] by blast
  then show ?thesis using tb_inv_head [OF udp_inv_tb [OF t(2)], of w] by auto
qed

theorem udp_drain_terminates_witness:
  "\<exists>s L t. udp_inv 0 (s :: udp) L [] \<and> length (L 0) = 1024 \<and> udp_drain_loop 0 s = Some t \<and> udp_list_head t 0 = None"
proof -
  obtain s L where s: "udp_inv 0 (s :: udp) L []" "length (L 0) = 1024"
    using idle_worker [of 1024 0] by (auto simp: UDP_SLOT_COUNT_def)
  then show ?thesis using udp_drain_terminates [OF s(1), of 0] by blast
qed

section \<open>Finalizing\<close>

definition close_balanced :: "'a udp_scheme \<Rightarrow> bool" where
  "close_balanced s \<longleftrightarrow> g_udp_close_total s = g_udp_close_kind s UDP_CLOSE_IDLE + g_udp_close_kind s UDP_CLOSE_PEER +
     g_udp_close_kind s UDP_CLOSE_IO + g_udp_close_kind s UDP_CLOSE_PROTO + g_udp_close_kind s UDP_CLOSE_RESOURCE +
     g_udp_close_kind s UDP_CLOSE_SHUTDOWN + g_udp_close_kind s UDP_CLOSE_UNKNOWN"

lemma upd_sess_counters:
  "g_udp_close_kind (upd_sess i f s) = g_udp_close_kind s" "g_udp_close_total (upd_sess i f s) = g_udp_close_total s"
  by (simp_all add: upd_sess_def)

lemma remove_counters:
  "g_udp_close_kind (udp_list_remove w i s) = g_udp_close_kind s" "g_udp_close_total (udp_list_remove w i s) = g_udp_close_total s"
  "u_finalized (g_udp_slots (udp_list_remove w i s) j) = u_finalized (g_udp_slots s j)"
  by (auto simp: udp_list_remove_def Let_def upd_sess_def split: option.split)

lemma close_fds_counters:
  "g_udp_close_kind (close_sess_fds i s) = g_udp_close_kind s" "g_udp_close_total (close_sess_fds i s) = g_udp_close_total s"
  "u_finalized (g_udp_slots (close_sess_fds i s) j) = u_finalized (g_udp_slots s j)"
  by (simp_all add: close_sess_fds_def Let_def upd_sess_def os_close_def release_java_socket_def log_ev_def)

lemma udp_boot_close:
  "g_udp_close_kind (udp_boot f g) = (\<lambda>_. 0)" "g_udp_close_total (udp_boot f g) = 0"
  by (simp_all add: udp_boot_def udp.defs tcp.defs tcp_boot_def)

text \<open>
  C38. Every session is finalized at most once, and every finalization is accounted for: a second
  attempt only counts itself; the first adds one to the total and to exactly one class, which is
  never \<open>UDP_CLOSE_NONE\<close>, so the total is always the sum over the classes.
\<close>

theorem udp_close_accounting:
  assumes "close_balanced s"
  shows "close_balanced (udp_conn_finalize i s) \<and>
     (u_finalized (g_udp_slots s i) \<longrightarrow> udp_conn_finalize i s = s\<lparr>g_udp_st_double_fin := g_udp_st_double_fin s + 1\<rparr>) \<and>
     (\<not> u_finalized (g_udp_slots s i) \<longrightarrow> g_udp_close_total (udp_conn_finalize i s) = g_udp_close_total s + 1 \<and>
        u_finalized (g_udp_slots (udp_conn_finalize i s) i))"
proof (cases "u_finalized (g_udp_slots s i)")
  case True
  then show ?thesis using assms by (simp add: udp_conn_finalize_def close_balanced_def)
next
  case False
  let ?t = "count_close i (upd_sess i (\<lambda>u. u\<lparr>u_finalized := True\<rparr>) s)"
  have f: "g_udp_close_kind (udp_conn_finalize i s) = g_udp_close_kind ?t" "g_udp_close_total (udp_conn_finalize i s) = g_udp_close_total ?t"
    "u_finalized (g_udp_slots (udp_conn_finalize i s) i) = u_finalized (g_udp_slots ?t i)"
    using False by (simp_all add: udp_conn_finalize_def Let_def udp_slot_release_def close_fds_counters remove_counters upd_sess_counters)
  have "close_balanced ?t" "g_udp_close_total ?t = g_udp_close_total s + 1" "u_finalized (g_udp_slots ?t i)"
    using assms by (cases "u_close_kind (g_udp_slots s i)"; simp add: count_close_def Let_def counted_kind_def close_balanced_def upd_sess_counters)+
  then show ?thesis using False f by (simp add: close_balanced_def)
qed

theorem udp_close_accounting_witness:
  "g_udp_close_total (udp_conn_finalize 7 (udp_engine_start 1)) = 1 \<and> close_balanced (udp_conn_finalize 7 (udp_engine_start 1))"
proof -
  have "close_balanced (udp_engine_start 1)" "\<not> u_finalized (g_udp_slots (udp_engine_start 1) 7)" "g_udp_close_total (udp_engine_start 1) = 0"
    by (simp_all add: close_balanced_def udp_engine_start_def udp_slots_init_def zero_sess_def udp_boot_close)
  then show ?thesis using udp_close_accounting [of "udp_engine_start 1" 7] by simp
qed

section \<open>Starting a session\<close>

text \<open>
  C33. Starting a session either succeeds, and then a slot that was free is registered, at the front
  of the chosen worker's list, with exactly the descriptors that were obtained (a relay socket for
  UDP ASSOCIATE only, and the 5G socket), each added to that worker's event descriptor under the
  session's identifier and its role, and nothing closed; or it fails, at whichever point (quota,
  no slot, no memory, no relay socket, no 5G socket, worker stopping, a registration refused), and
  then the lists, slots and count are as before and the client's descriptor and every descriptor
  obtained on the way are each closed, the 5G socket after the Java side has been told.
\<close>

theorem udp_start_all_or_nothing:
  assumes "udp_inv K s L X" and "0 \<le> cf" and "0 \<le> sint (g_udp_next_worker s)"
  shows "\<exists>t. udp_start_session cf cmd s = Some t \<and>
     (established K L X (nat (pick_udp_worker (g_udp_next_worker s))) cmd cf s t \<or> refused K L X cf s t)"
  by (rule start_session_outcome [OF assms])

theorem udp_start_all_or_nothing_witness:
  "\<exists>t L'. udp_start_session 9 3 (udp_engine_start 2) = Some t \<and> udp_inv 2 t L' []"
proof -
  have "g_udp_next_worker (udp_engine_start 2) = 0"
    by (simp add: udp_engine_start_def udp_slots_init_def udp_boot_def udp.defs tcp.defs tcp_boot_def)
  then obtain t where "udp_start_session 9 3 (udp_engine_start 2) = Some t"
    "established 2 (\<lambda>_. []) [] (nat (pick_udp_worker 0)) 3 9 (udp_engine_start 2) t \<or> refused 2 (\<lambda>_. []) [] 9 (udp_engine_start 2) t"
    using udp_start_all_or_nothing [OF udp_engine_start_inv [of 2], of 9 3] by auto
  then show ?thesis unfolding established_def refused_def by blast
qed

section \<open>Refinement\<close>

text \<open>
  C34. The engine implements the session table. Seen through \<open>tbl\<close>, the list surgery written out in
  the code is the table's link and unlink, closing a session is the table's retire, dropping a
  reference its unref (with the release of the slot when it was the last), and handling an event
  of a session, adjusting its event mask and delivering resolved names are no step at all.
\<close>

theorem udp_refines_table:
  assumes "room s"
  shows "tbl (udp_conn_unref i s) = tb_unref i (tbl s) \<and>
     tbl (udp_list_add w i s) = tb_link w i (tbl s) \<and> tbl (udp_list_remove w i s) = tb_unlink w i (tbl s) \<and>
     tbl (udp_list_remove w i (upd_sess i (\<lambda>u. u\<lparr>u_closed := True\<rparr>) s)) = tb_retire w i (tbl s) \<and>
     tbl (snd (udp_session_event i role ev s)) = tbl s \<and> tbl (udp_update_events w i s) = tbl s \<and>
     tbl (udp_dns_drain w s) = tbl s"
proof -
  have same: "tbl t = tbl s" if "same_ses s t" for t using that by (simp add: same_ses_def)
  have "same_ses s (snd (udp_session_event i role ev s))" by (rule same_ses_session_event [OF prod.collapse [symmetric]])
  then show ?thesis
    by (intro conjI same conjunct1 [OF udp_unref_refines [OF assms]] tbl_link tbl_unlink same_ses_update_events same_ses_drain)
      (simp_all only: tbl_unlink tbl_close tb_retire_def)
qed

theorem udp_refines_table_witness:
  "tbl (udp_conn_unref 1 ((udp_engine_start 0)\<lparr>g_udp_free_slot_top := 5\<rparr>)) = tb_unref 1 (tbl ((udp_engine_start 0)\<lparr>g_udp_free_slot_top := 5\<rparr>))"
proof -
  have "room ((udp_engine_start 0)\<lparr>g_udp_free_slot_top := 5\<rparr>)"
    by (simp add: room_def stack_def udp_engine_start_def udp_slots_init_def UDP_SLOT_COUNT_def)
  from udp_refines_table [OF this, of 1] show ?thesis by simp
qed

text \<open>
  A UDP event that does not name a live session of its slot does nothing: with a slot number out
  of range, a free slot, another generation or a session not yet registered or already closed, only
  a counter moves; no session, list, descriptor or byte of output is touched.
\<close>

theorem udp_stale_event_harmless:
  assumes "udp_event_decode raw = (sidx, egen, role)" and "\<not> udp_event_is_dns_wake raw"
    and "udp_event_bad_slot (sint sidx) (int UDP_SLOT_COUNT) \<or>
      (let u = g_udp_slots s (unat sidx) in
       udp_event_check_slot egen (u_gen u) (u_magic u) (g_udp_slot_state s (unat sidx)) (u_closed u) (u_registered u) \<noteq> UDP_EV_PROCESS)"
  shows "\<exists>b st. udp_worker_event w now (raw, ev) (s, G) = (s\<lparr>g_udp_st_bad_slot := b, g_udp_st_stale := st\<rparr>, G)"
proof -
  have triv: "s\<lparr>g_udp_st_bad_slot := b\<rparr> = s\<lparr>g_udp_st_bad_slot := b, g_udp_st_stale := g_udp_st_stale s\<rparr>"
    "s\<lparr>g_udp_st_stale := b\<rparr> = s\<lparr>g_udp_st_bad_slot := g_udp_st_bad_slot s, g_udp_st_stale := b\<rparr>"
    "s = s\<lparr>g_udp_st_bad_slot := g_udp_st_bad_slot s, g_udp_st_stale := g_udp_st_stale s\<rparr>" for b by simp_all
  have "\<exists>b. udp_worker_event w now (raw, ev) (s, G) = (s\<lparr>g_udp_st_bad_slot := b\<rparr>, G) \<or>
      udp_worker_event w now (raw, ev) (s, G) = (s\<lparr>g_udp_st_stale := b\<rparr>, G) \<or> udp_worker_event w now (raw, ev) (s, G) = (s, G)"
    using assms by (auto simp: udp_worker_event_def Let_def split: udp_event_disp.split)
  then show ?thesis using triv by metis
qed

theorem udp_stale_event_harmless_witness:
  "\<exists>s'. udp_worker_event 0 0 (0x10000, 1) (udp_engine_start 0, []) = (s', []) \<and> g_udp_slots s' = g_udp_slots (udp_engine_start 0)"
proof -
  obtain sidx egen role where d: "udp_event_decode 0x10000 = (sidx, egen, role)" by (metis prod.exhaust)
  have "\<not> udp_event_is_dns_wake 0x10000" by (simp add: udp_event_is_dns_wake_def UDP_EV_DNS_WAKE_def)
  moreover have "sidx = 0x10000" using d by (auto simp: udp_event_decode_def Let_def UDP_EV_ROLE_MASK_def UDP_EV_ROLE_LOCAL_FLAG_def UDP_EV_ROLE_REMOTE_FLAG_def)
  ultimately show ?thesis using udp_stale_event_harmless [OF d, of "udp_engine_start 0" 0 0 1 "[]"]
    by (auto simp: udp_event_bad_slot_def UDP_SLOT_COUNT_def)
qed

end
