(* ===== verification/Handshake.thy ===== *)
theory Handshake
  imports Udp_Props Tcp_Engine Job_Pool
begin

unbundle bit_operations_syntax

text \<open>
  The SOCKS5 handshake of \<open>simple-socks5.c\<close>: configuration of the credentials, method selection,
  the RFC 1929 sub-negotiation, the request, and the dispatch to the TCP or UDP engine. The server
  state adds the configuration and the listener's data to the two engines. \<open>inet_ntop\<close> belongs to
  the C library and is a field; \<open>java_connects\<close> is the log of the targets asked of the Java side.
  The socket timeouts are not modelled: a receive that times out is an error answer of the kernel.
\<close>

section \<open>The server state\<close>

record server = udp +
  g_auth_user :: cstring
  g_auth_pass :: cstring
  g_auth_enabled :: bool
  g_listeners :: "(fd \<times> cstring) list"       \<comment> \<open>\<open>g_listener_fds\<close> and \<open>g_listener_addrs\<close> up to \<open>g_listener_count\<close>\<close>
  g_bind_addrs :: "cstring list"              \<comment> \<open>up to \<open>g_bind_count\<close>\<close>
  g_handshake_pool :: job_pool
  g_shutdown_pipe :: "fd \<times> fd"
  inet_ntop4 :: "byte list \<Rightarrow> cstring"
  inet_ntop6 :: "byte list \<Rightarrow> cstring"
  java_connects :: "(cstring \<times> nat) list"
  k_accepting :: "fd \<Rightarrow> bool"                 \<comment> \<open>\<open>SO_ACCEPTCONN\<close>\<close>
  k_bind :: "bool list"
  k_listen :: "bool list"
  k_pipe :: "(fd \<times> fd) option list"
  k_epoll :: "fd list"
  k_accept :: "fd \<Rightarrow> fd list"

section \<open>Blocking receives\<close>

text \<open>\<open>recv(..., MSG_WAITALL)\<close> on a blocking socket: all that was asked for, unless the stream ends first.\<close>

fun recv_all :: "rres list \<Rightarrow> nat \<Rightarrow> byte list \<times> rres list" where
  "recv_all [] n = ([], [])"
| "recv_all (RData bs # q) n =
     (if n \<le> length bs then (take n bs, if drop n bs = [] then q else RData (drop n bs) # q)
      else case recv_all q (n - length bs) of (d, q') \<Rightarrow> (bs @ d, q'))"
| "recv_all (REof # q) n = ([], REof # q)"
| "recv_all (RErr e # q) n = ([], q)"

definition os_recv_all :: "'a os_scheme \<Rightarrow> fd \<Rightarrow> nat \<Rightarrow> byte list \<times> 'a os_scheme" where
  "os_recv_all s f n = (case recv_all (o_recv s f) n of (d, q) \<Rightarrow> (d, s\<lparr>o_recv := (o_recv s)(f := q)\<rparr>))"

section \<open>Credentials\<close>

text \<open>\<open>None\<close> is a null pointer.\<close>

definition socks5_server_set_auth :: "cstring option \<Rightarrow> cstring option \<Rightarrow> 'a server_scheme \<Rightarrow> 'a server_scheme" where
  "socks5_server_set_auth user pass s =
     (case (user, pass) of
        (Some u, Some p) \<Rightarrow>
          if u = [] \<or> p = [] then s\<lparr>g_auth_enabled := False, g_auth_user := [], g_auth_pass := []\<rparr>
          else s\<lparr>g_auth_user := str_bounded 256 u, g_auth_pass := str_bounded 256 p, g_auth_enabled := True\<rparr>
      | _ \<Rightarrow> s\<lparr>g_auth_enabled := False, g_auth_user := [], g_auth_pass := []\<rparr>)"

definition do_auth_check :: "fd \<Rightarrow> cstring \<Rightarrow> cstring \<Rightarrow> 'a os_scheme \<Rightarrow> bool \<times> 'a os_scheme" where
  "do_auth_check cf auth_user auth_pass s =
     (case os_recv_all s cf 2 of (b, s1) \<Rightarrow>
      if length b \<noteq> 2 \<or> b ! 0 \<noteq> 0x01 then (False, s1)
      else let ulen = b ! 1 in
      if ulen = 0 then (False, s1)
      else case os_recv_all s1 cf (unat ulen) of (user_buf, s2) \<Rightarrow>
      if length user_buf \<noteq> unat ulen then (False, s2)
      else case os_recv_all s2 cf 1 of (c, s3) \<Rightarrow>
      if length c \<noteq> 1 then (False, s3)
      else let plen = c ! 0 in
      case (if plen = 0 then ([], s3) else os_recv_all s3 cf (unat plen)) of (pass_buf, s4) \<Rightarrow>
      if length pass_buf \<noteq> unat plen then (False, s4)
      else let ok = socks5_check_credentials user_buf ulen pass_buf plen auth_user auth_pass
           in (ok, snd (os_send s4 cf (if ok then [0x01, 0x00] else [0x01, 0x01]))))"

section \<open>The negotiation\<close>

text \<open>Each part answers \<open>None\<close> (or \<open>False\<close>) where the code jumps to \<open>err\<close>.\<close>

definition hs_greeting :: "fd \<Rightarrow> 'a os_scheme \<Rightarrow> byte list option \<times> 'a os_scheme" where
  "hs_greeting cf s =
     (case os_recv_all s cf 2 of (b, s1) \<Rightarrow>
      if length b \<noteq> 2 \<or> b ! 0 \<noteq> 0x05 then (None, s1)
      else let nmethods = unat (b ! 1) in
      if nmethods < 1 then (None, s1)
      else case os_recv_all s1 cf nmethods of (ms, s2) \<Rightarrow>
      if length ms \<noteq> nmethods then (None, s2) else (Some ms, s2))"

definition hs_method :: "fd \<Rightarrow> byte list \<Rightarrow> 'a server_scheme \<Rightarrow> bool \<times> 'a server_scheme" where
  "hs_method cf ms s =
     (let desired = (if g_auth_enabled s then 0x02 else 0x00);
          user = str_bounded 256 (g_auth_user s); pass = str_bounded 256 (g_auth_pass s) in
      if \<not> socks5_method_offered ms (length ms) desired
      then (False, snd (os_send (s\<lparr>g_st_auth_fail := g_st_auth_fail s + 1\<rparr>) cf [0x05, 0xff]))
      else if g_auth_enabled s then
        (case do_auth_check cf user pass (snd (os_send s cf [0x05, 0x02])) of
           (True, s1) \<Rightarrow> (True, s1)
         | (False, s1) \<Rightarrow> (False, s1\<lparr>g_st_auth_fail := g_st_auth_fail s1 + 1\<rparr>))
      else (True, snd (os_send s cf [0x05, 0x00])))"

text \<open>The address part of the request: the host text.\<close>

definition hs_address :: "fd \<Rightarrow> byte \<Rightarrow> 'a server_scheme \<Rightarrow> cstring option \<times> 'a server_scheme" where
  "hs_address cf atyp s =
     (if atyp = 0x03 then
        (case os_recv_all s cf 1 of (c, s1) \<Rightarrow>
         if length c \<noteq> 1 then (None, s1)
         else let addr_len = socks5_request_addr_len atyp (c ! 0) in
         if addr_len \<le> 0 then (None, s1)
         else case os_recv_all s1 cf (nat addr_len) of (d, s2) \<Rightarrow>
         if length d \<noteq> nat addr_len then (None, s2) else (Some (cstr d), s2))
      else
        (let addr_len = socks5_request_addr_len atyp 0 in
         if addr_len \<le> 0 then (None, s)
         else case os_recv_all s cf (nat addr_len) of (d, s1) \<Rightarrow>
         if length d \<noteq> nat addr_len then (None, s1)
         else (Some (if atyp = 0x01 then inet_ntop4 s1 d else inet_ntop6 s1 d), s1)))"

definition hs_request :: "fd \<Rightarrow> 'a server_scheme \<Rightarrow> (byte \<times> cstring \<times> nat) option \<times> 'a server_scheme" where
  "hs_request cf s =
     (case os_recv_all s cf 4 of (b, s1) \<Rightarrow>
      if length b \<noteq> 4 then (None, s1)
      else if socks5_validate_request_header b \<noteq> 0 then (None, s1)
      else case hs_address cf (b ! 3) s1 of
        (None, s2) \<Rightarrow> (None, s2)
      | (Some host, s2) \<Rightarrow>
          (case os_recv_all s2 cf 2 of (p, s3) \<Rightarrow>
           if length p \<noteq> 2 then (None, s3)
           else (Some (b ! 1, host, unat (p ! 0) * 256 + unat (p ! 1)), s3)))"

definition hs_negotiate :: "fd \<Rightarrow> 'a server_scheme \<Rightarrow> (byte \<times> cstring \<times> nat) option \<times> 'a server_scheme" where
  "hs_negotiate cf s =
     (case hs_greeting cf s of
        (None, s1) \<Rightarrow> (None, s1)
      | (Some ms, s1) \<Rightarrow>
          (case hs_method cf ms s1 of
             (False, s2) \<Rightarrow> (None, s2)
           | (True, s2) \<Rightarrow> hs_request cf s2))"

section \<open>Dispatch\<close>

text \<open>\<open>None\<close> is the undefined behaviour of a wrapped worker counter, as in the engines.\<close>

definition hs_dispatch :: "fd \<Rightarrow> byte \<times> cstring \<times> nat \<Rightarrow> 'a server_scheme \<Rightarrow> 'a server_scheme option" where
  "hs_dispatch cf r s =
     (case r of (cmd, host, port) \<Rightarrow>
      if cmd = 0x01 then
        (let cnt = g_conn_count s; s0 = s\<lparr>g_conn_count := cnt + 1\<rparr> in
         if cnt \<ge> MAX_CONCURRENT_CONNS then Some (os_close cf (s0\<lparr>g_conn_count := g_conn_count s0 - 1\<rparr>))
         else case request_java_5g_socket (s0\<lparr>java_connects := java_connects s0 @ [(host, port)]\<rparr>) of
           ((tf, e), s1) \<Rightarrow>
             if tf < 0
             then Some (os_close cf (send_zero_reply cf 0x04
                    (s1\<lparr>g_conn_count := g_conn_count s1 - 1, g_st_conn_fail := g_st_conn_fail s1 + 1\<rparr>)))
             else handoff_to_worker cf tf (send_zero_reply cf 0x00 s1))
      else if socks5_is_supported_cmd cmd then udp_start_session cf (uint cmd) s
      else Some (os_close cf s))"

definition handle_handshake_fd :: "fd \<Rightarrow> 'a server_scheme \<Rightarrow> 'a server_scheme option" where
  "handle_handshake_fd cf s =
     (case hs_negotiate cf s of
        (None, s1) \<Rightarrow> Some (os_close cf s1)
      | (Some r, s1) \<Rightarrow> hs_dispatch cf r s1)"

definition handle_handshake_job :: "pool_job \<Rightarrow> 'a server_scheme \<Rightarrow> 'a server_scheme option" where
  "handle_handshake_job job s = handle_handshake_fd (pj_fd job) s"

section \<open>Receiving\<close>

text \<open>What a stream delivers before it ends or fails.\<close>

fun readable :: "rres list \<Rightarrow> byte list" where
  "readable (RData bs # q) = bs @ readable q"
| "readable _ = []"

lemma recv_all_spec:
  "recv_all q n = (d, q') \<Longrightarrow> d = take n (readable q) \<and> (0 < n \<and> n \<le> length (readable q) \<longrightarrow> readable q' = drop n (readable q))"
proof (induction q n arbitrary: d q' rule: recv_all.induct)
  case (2 bs q n)
  show ?case
  proof (cases "n \<le> length bs")
    case False
    obtain d1 q1 where r: "recv_all q (n - length bs) = (d1, q1)" by force
    from "2.IH" [OF False r] "2.prems" False r show ?thesis by auto
  qed (use "2.prems" in auto)
qed auto

definition rd :: "fd \<Rightarrow> 'a os_scheme \<Rightarrow> byte list" where
  "rd cf s = readable (o_recv s cf)"

lemma rd_simps [simp]:
  "rd cf (t\<lparr>g_st_auth_fail := n\<rparr>) = rd cf t" "rd cf (snd (os_send s f bs)) = rd cf s"
  by (auto simp: rd_def os_send_def Let_def log_ev_def split: list.split)

lemma os_recv_all_spec:
  assumes "os_recv_all s cf n = (d, t)" and "0 < n"
  shows "\<exists>q. t = s\<lparr>o_recv := (o_recv s)(cf := q)\<rparr>"
    and "length d = n \<Longrightarrow> rd cf s = d @ rd cf t" and "length d \<noteq> n \<Longrightarrow> length (rd cf s) < n"
proof -
  obtain q where q: "recv_all (o_recv s cf) n = (d, q)" "t = s\<lparr>o_recv := (o_recv s)(cf := q)\<rparr>"
    using assms(1) by (auto simp: os_recv_all_def split: prod.splits)
  note r = recv_all_spec [OF q(1), folded rd_def]
  show "\<exists>q. t = s\<lparr>o_recv := (o_recv s)(cf := q)\<rparr>" using q(2) by blast
  have "rd cf t = readable q" by (simp add: rd_def q(2))
  then show "rd cf s = d @ rd cf t" if "length d = n" using r that assms(2) by (metis append_take_drop_id length_take min.absorb_iff2 min.commute)
  show "length (rd cf s) < n" if "length d \<noteq> n" using r that by (simp add: min_def split: if_splits)
qed

lemma os_recv_all_ok:
  assumes "rd cf s = d @ r" and "length d = n" and "0 < n"
  shows "\<exists>q. os_recv_all s cf n = (d, s\<lparr>o_recv := (o_recv s)(cf := q)\<rparr>) \<and> rd cf (s\<lparr>o_recv := (o_recv s)(cf := q)\<rparr>) = r"
proof -
  obtain e t where t: "os_recv_all s cf n = (e, t)" by force
  note o = os_recv_all_spec [OF t assms(3)]
  have "length e = n" using o(3) assms by fastforce
  then have "e = d" "rd cf t = r" using o(2) assms by auto
  then show ?thesis using o(1) t by auto
qed

text \<open>Reading and answering on the client's descriptor is all the negotiation does to the process.\<close>

definition io :: "fd \<Rightarrow> 'a os_scheme \<Rightarrow> 'a os_scheme \<Rightarrow> bool" where
  "io cf s t \<longleftrightarrow> (\<exists>r q l. t = s\<lparr>o_recv := r, o_send := q, o_log := o_log s @ l\<rparr> \<and> (\<forall>e \<in> set l. \<exists>bs. e = SEND cf bs))"

lemma io_refl [simp]: "io cf s s"
  unfolding io_def by (intro exI [of _ "o_recv s"] exI [of _ "o_send s"] exI [of _ "[]"]) simp

lemma io_trans:
  assumes "io cf s t" and "io cf t u"
  shows "io cf s u"
proof -
  from assms obtain r q l r' q' l' where "t = s\<lparr>o_recv := r, o_send := q, o_log := o_log s @ l\<rparr>" "\<forall>e \<in> set l. \<exists>bs. e = SEND cf bs"
    "u = t\<lparr>o_recv := r', o_send := q', o_log := o_log t @ l'\<rparr>" "\<forall>e \<in> set l'. \<exists>bs. e = SEND cf bs"
    unfolding io_def by blast
  then show ?thesis unfolding io_def by (intro exI [of _ r'] exI [of _ q'] exI [of _ "l @ l'"]) auto
qed

lemma io_recv: "os_recv_all s cf n = (d, t) \<Longrightarrow> io cf s t"
  unfolding io_def os_recv_all_def
  by (auto split: prod.splits intro!: exI [of _ "o_recv t"] exI [of _ "o_send s"] exI [of _ "[]"])

lemma io_send: "io cf s (snd (os_send s cf bs))"
proof -
  obtain r e t where os: "os_send s cf bs = ((r, e), t)" by (metis prod.exhaust)
  from os_send_form [OF os] obtain q where
    "t = s\<lparr>o_send := q, o_log := o_log s @ (if r > 0 then [SEND cf (take (nat r) bs)] else [])\<rparr>" by blast
  then show ?thesis unfolding io_def os
    by (intro exI [of _ "o_recv s"] exI [of _ q] exI [of _ "if r > 0 then [SEND cf (take (nat r) bs)] else []"]) simp
qed

lemma io_greeting: "io cf s (snd (hs_greeting cf s))"
  unfolding hs_greeting_def Let_def by (auto split: prod.split dest!: io_recv intro: io_trans)

lemma io_auth: "io cf s (snd (do_auth_check cf u p s))"
  unfolding do_auth_check_def Let_def
  by (auto split: prod.splits if_splits dest!: io_recv intro: io_trans [OF _ io_send] io_trans)

lemma io_address: "io cf s (snd (hs_address cf a s))"
  unfolding hs_address_def Let_def by (auto split: prod.split dest!: io_recv intro: io_trans)

lemma io_request: "io cf s (snd (hs_request cf s))"
proof -
  obtain b s1 where 1: "os_recv_all s cf 4 = (b, s1)" by force
  obtain h s2 where 2: "hs_address cf (b ! 3) s1 = (h, s2)" by force
  have "io cf s s1" "io cf s s2" using io_recv [OF 1] io_address [of cf s1 "b ! 3"] 2 by (auto intro: io_trans)
  then show ?thesis unfolding hs_request_def
    by (auto simp: 1 2 split: prod.split option.split dest!: io_recv intro: io_trans)
qed

section \<open>The parts of the client's message\<close>

lemma length_2: "length b = 2 \<Longrightarrow> b = [b ! 0, b ! 1]"
  by (cases b; cases "tl b") auto

lemma length_1: "length b = 1 \<Longrightarrow> b = [b ! 0]"
  by (cases b) auto

lemma length_4: "length b = 4 \<Longrightarrow> b = [b ! 0, b ! 1, b ! 2, b ! 3]"
  by (simp add: list_eq_iff_nth_eq nth_Cons' numeral_eq_Suc less_Suc_eq)

lemma greeting_sound:
  assumes "hs_greeting cf s = (Some ms, t)"
  shows "rd cf s = [5, of_nat (length ms)] @ ms @ rd cf t \<and> 1 \<le> length ms \<and> length ms < 256"
proof -
  obtain b s1 where 1: "os_recv_all s cf 2 = (b, s1)" by force
  obtain m s2 where 2: "os_recv_all s1 cf (unat (b ! 1)) = (m, s2)" by force
  have c: "length b = 2" "b ! 0 = 5" "0 < unat (b ! 1)" "length m = unat (b ! 1)" "ms = m" "t = s2"
    using assms by (auto simp: hs_greeting_def Let_def 1 2 simp del: One_nat_def split: if_splits)
  have "rd cf s = b @ m @ rd cf t" using os_recv_all_spec(2) [OF 1] os_recv_all_spec(2) [OF 2 c(3)] c by simp
  moreover have b1: "b ! 1 = of_nat (length ms)" by (simp add: c del: One_nat_def)
  moreover have "b = [5, of_nat (length ms)]" by (rule length_2 [OF c(1), unfolded c(2) b1])
  moreover have "1 \<le> length ms" "length ms < 256" using c(3-5) by simp_all
  ultimately show ?thesis using c(5) by simp
qed

lemma greeting_complete:
  assumes "rd cf s = [5, of_nat (length ms)] @ ms @ r" and "1 \<le> length ms" "length ms < 256"
  shows "\<exists>t. hs_greeting cf s = (Some ms, t) \<and> rd cf t = r"
proof -
  have u: "unat (of_nat (length ms) :: byte) = length ms" using assms(3) by (rule unat_byte_of_nat)
  from os_recv_all_ok [OF assms(1), of 2] obtain s1 where
    1: "os_recv_all s cf 2 = ([5, of_nat (length ms)], s1)" "rd cf s1 = ms @ r" by auto
  have "0 < length ms" using assms(2) by linarith
  from os_recv_all_ok [OF 1(2) refl this] obtain s2 where
    2: "os_recv_all s1 cf (length ms) = (ms, s2)" "rd cf s2 = r" by auto
  show ?thesis using 1 2 u assms(2) by (auto simp: hs_greeting_def Let_def)
qed

lemma auth_sound:
  assumes "do_auth_check cf u p s = (True, t)" and "length u < 256" "length p < 256"
  shows "rd cf s = [1, of_nat (length u)] @ u @ [of_nat (length p)] @ p @ rd cf t"
proof -
  obtain b s1 where 1: "os_recv_all s cf 2 = (b, s1)" by force
  obtain ub s2 where 2: "os_recv_all s1 cf (unat (b ! 1)) = (ub, s2)" by force
  obtain c s3 where 3: "os_recv_all s2 cf 1 = (c, s3)" by force
  obtain pb s4 where 4: "(if c ! 0 = 0 then ([], s3) else os_recv_all s3 cf (unat (c ! 0))) = (pb, s4)" by force
  have k: "length b = 2" "b ! 0 = 1" "b ! 1 \<noteq> 0" "length ub = unat (b ! 1)" "length c = 1" "length pb = unat (c ! 0)"
    "socks5_check_credentials ub (b ! 1) pb (c ! 0) u p" "t = snd (os_send s4 cf [1, 0])"
    using assms(1) by (auto simp: do_auth_check_def Let_def 1 2 3 4 simp del: One_nat_def split: if_splits)
  have e: "b ! 1 = of_nat (length u)" "ub = u" "c ! 0 = of_nat (length p)" "pb = p"
    using k(4,6,7) unat_byte_of_nat [OF assms(2)] unat_byte_of_nat [OF assms(3)]
    by (simp_all add: socks5_check_credentials_def Let_def mem_eq_def)
  have "0 < unat (b ! 1)" using k(3) by (simp add: unat_gt_0)
  then have "rd cf s = b @ ub @ c @ rd cf s3"
    using os_recv_all_spec(2) [OF 1] os_recv_all_spec(2) [OF 2] os_recv_all_spec(2) [OF 3] k by simp
  moreover have "rd cf s3 = pb @ rd cf s4"
    using 4 k(6) os_recv_all_spec(2) [of s3 cf "unat (c ! 0)" pb s4] by (auto simp: unat_gt_0 split: if_splits)
  moreover have "b = [1, of_nat (length u)]" "c = [of_nat (length p)]"
    by (rule length_2 [OF k(1), unfolded k(2) e(1)], rule length_1 [OF k(5), unfolded e(3)])
  ultimately show ?thesis using k(8) e(2,4) by simp
qed

lemma auth_complete:
  assumes "rd cf s = [1, of_nat (length u)] @ u @ [of_nat (length p)] @ p @ r" and "length u < 256" "length p < 256" "u \<noteq> []"
  shows "\<exists>t. do_auth_check cf u p s = (True, t) \<and> rd cf t = r"
proof -
  have l: "unat (of_nat (length u) :: byte) = length u" "unat (of_nat (length p) :: byte) = length p"
    using assms(2,3) by (simp_all add: unat_byte_of_nat)
  from os_recv_all_ok [OF assms(1), of 2] obtain s1 where
    1: "os_recv_all s cf 2 = ([1, of_nat (length u)], s1)" "rd cf s1 = u @ [of_nat (length p)] @ p @ r" by auto
  from os_recv_all_ok [OF 1(2) refl] assms(4) obtain s2 where
    2: "os_recv_all s1 cf (length u) = (u, s2)" "rd cf s2 = [of_nat (length p)] @ p @ r" by auto
  from os_recv_all_ok [OF 2(2), of 1] obtain s3 where
    3: "os_recv_all s2 cf 1 = ([of_nat (length p)], s3)" "rd cf s3 = p @ r" by auto
  obtain s4 where 4: "(if of_nat (length p) = (0 :: byte) then ([], s3) else os_recv_all s3 cf (length p)) = (p, s4)" "rd cf s4 = r"
  proof (cases "p = []")
    case False
    with os_recv_all_ok [OF 3(2) refl] obtain s4 where "os_recv_all s3 cf (length p) = (p, s4)" "rd cf s4 = r" by auto
    moreover have "of_nat (length p) \<noteq> (0 :: byte)" using False l(2) by (metis length_0_conv unat_0)
    ultimately show ?thesis using that by simp
  qed (use 3(2) that in auto)
  have "of_nat (length u) \<noteq> (0 :: byte)" using assms(4) l(1) by (metis length_0_conv unat_0)
  moreover have "socks5_check_credentials u (of_nat (length u)) p (of_nat (length p)) u p" by (simp add: socks5_check_credentials_def mem_eq_def)
  ultimately have "do_auth_check cf u p s = (True, snd (os_send s4 cf [1, 0]))"
    using 1(1) 2(1) 3(1) 4(1) l by (cases "of_nat (length p) = (0 :: byte)") (simp_all add: do_auth_check_def)
  then show ?thesis using 4(2) by simp
qed

text \<open>The address field and the host text it stands for.\<close>

definition addr_form :: "'a server_scheme \<Rightarrow> byte \<Rightarrow> byte list \<Rightarrow> cstring \<Rightarrow> bool" where
  "addr_form s atyp addr host \<longleftrightarrow>
     atyp = 0x01 \<and> length addr = 4 \<and> host = inet_ntop4 s addr \<or>
     atyp = 0x04 \<and> length addr = 16 \<and> host = inet_ntop6 s addr \<or>
     atyp = 0x03 \<and> (\<exists>name. addr = of_nat (length name) # name \<and> 1 \<le> length name \<and> length name < 256 \<and> host = cstr name)"

lemma inet_recv: "os_recv_all s cf n = (d, t) \<Longrightarrow> inet_ntop4 t = inet_ntop4 s \<and> inet_ntop6 t = inet_ntop6 s"
  by (auto simp: os_recv_all_def split: prod.splits)

lemma address_sound:
  assumes "hs_address cf atyp s = (Some host, t)"
  shows "\<exists>addr. rd cf s = addr @ rd cf t \<and> addr_form s atyp addr host"
proof (cases "atyp = 3")
  case True
  obtain c s1 where 1: "os_recv_all s cf 1 = (c, s1)" by force
  let ?n = "socks5_request_addr_len 3 (c ! 0)"
  obtain d s2 where 2: "os_recv_all s1 cf (nat ?n) = (d, s2)" by force
  have k: "length c = 1" "0 < ?n" "length d = nat ?n" "host = cstr d" "t = s2"
    using assms True by (auto simp: hs_address_def Let_def 1 2 simp del: One_nat_def split: if_splits)
  have n: "?n = int (unat (c ! 0))" using k(2)
    by (cases "1 \<le> unat (c ! 0)") (simp_all add: socks5_request_addr_len_def atyp_defs)
  have c0: "c ! 0 = of_nat (length d)" using k(3) n by simp
  have "rd cf s = c @ d @ rd cf t" using os_recv_all_spec(2) [OF 1] os_recv_all_spec(2) [OF 2] k by simp
  moreover have "c = [of_nat (length d)]" by (rule length_1 [OF k(1), unfolded c0])
  moreover have "1 \<le> length d" "length d < 256" using k(2,3) unfolding n by linarith (use k(3) n in simp)
  ultimately show ?thesis using True k(4) unfolding addr_form_def by (intro exI [of _ "of_nat (length d) # d"]) auto
next
  case False
  let ?n = "socks5_request_addr_len atyp 0"
  obtain d s1 where 1: "os_recv_all s cf (nat ?n) = (d, s1)" by force
  have k: "0 < ?n" "length d = nat ?n" "host = (if atyp = 1 then inet_ntop4 s1 d else inet_ntop6 s1 d)" "t = s1"
    using assms False by (auto simp: hs_address_def Let_def 1 split: if_splits)
  have "atyp = 1 \<and> length d = 4 \<or> atyp = 4 \<and> length d = 16"
    using k(1,2) False by (auto simp: socks5_request_addr_len_def atyp_defs split: if_splits)
  moreover have "rd cf s = d @ rd cf t" using os_recv_all_spec(2) [OF 1] k by simp
  ultimately show ?thesis using k(3) inet_recv [OF 1] unfolding addr_form_def by (intro exI [of _ d]) auto
qed

lemma address_complete:
  assumes "rd cf s = addr @ r" and "addr_form s atyp addr host"
  shows "\<exists>t. hs_address cf atyp s = (Some host, t) \<and> rd cf t = r"
proof (cases "atyp = 3")
  case True
  then obtain name where name: "addr = of_nat (length name) # name" "1 \<le> length name" "length name < 256" "host = cstr name"
    using assms(2) by (auto simp: addr_form_def)
  have u: "unat (of_nat (length name) :: byte) = length name" using name(3) by (rule unat_byte_of_nat)
  have "rd cf s = [of_nat (length name)] @ name @ r" using assms(1) name(1) by simp
  from os_recv_all_ok [OF this, of 1] obtain s1 where 1: "os_recv_all s cf 1 = ([of_nat (length name)], s1)" "rd cf s1 = name @ r" by auto
  have "0 < length name" using name(2) by linarith
  from os_recv_all_ok [OF 1(2) refl this] obtain s2 where 2: "os_recv_all s1 cf (length name) = (name, s2)" "rd cf s2 = r" by auto
  have "socks5_request_addr_len atyp (of_nat (length name)) = int (length name)"
    using True u name(2) by (simp add: socks5_request_addr_len_def atyp_defs)
  then show ?thesis using True 1(1) 2 name(2,4) by (intro exI [of _ s2]) (auto simp: hs_address_def Let_def)
next
  case False
  then have a: "atyp = 1 \<and> length addr = 4 \<and> host = inet_ntop4 s addr \<or> atyp = 4 \<and> length addr = 16 \<and> host = inet_ntop6 s addr"
    using assms(2) by (auto simp: addr_form_def)
  then have n: "socks5_request_addr_len atyp 0 = int (length addr)" "0 < length addr"
    by (auto simp: socks5_request_addr_len_def atyp_defs)
  from os_recv_all_ok [OF assms(1) refl n(2)] obtain s1 where 1: "os_recv_all s cf (length addr) = (addr, s1)" "rd cf s1 = r" by auto
  show ?thesis using False a n 1 inet_recv [OF 1(1)] by (intro exI [of _ s1]) (auto simp: hs_address_def Let_def)
qed

lemma validate_header: "socks5_validate_request_header [v, c, z, a] = 0 \<longleftrightarrow> v = 5 \<and> z = 0 \<and> (a = 1 \<or> a = 3 \<or> a = 4)"
  by (auto simp: socks5_validate_request_header_def)

text \<open>The request as the client sends it.\<close>

definition request_form :: "'a server_scheme \<Rightarrow> byte list \<Rightarrow> byte \<times> cstring \<times> nat \<Rightarrow> bool" where
  "request_form s b r \<longleftrightarrow> (\<exists>cmd atyp addr host p q. b = [0x05, cmd, 0x00, atyp] @ addr @ [p, q] \<and>
     addr_form s atyp addr host \<and> r = (cmd, host, unat p * 256 + unat q))"

lemma request_sound:
  assumes "hs_request cf s = (Some r, t)"
  shows "\<exists>b. rd cf s = b @ rd cf t \<and> request_form s b r"
proof -
  obtain b s1 where 1: "os_recv_all s cf 4 = (b, s1)" by force
  obtain h s2 where 2: "hs_address cf (b ! 3) s1 = (h, s2)" by force
  obtain p s3 where 3: "os_recv_all s2 cf 2 = (p, s3)" by force
  obtain host where k: "length b = 4" "socks5_validate_request_header b = 0" "h = Some host" "length p = 2" "t = s3"
    "r = (b ! 1, host, unat (p ! 0) * 256 + unat (p ! 1))"
    using assms by (auto simp: hs_request_def 1 2 3 simp del: One_nat_def split: if_splits option.splits)
  from address_sound [OF 2 [unfolded k(3)]] obtain addr where a: "rd cf s1 = addr @ rd cf s2" "addr_form s1 (b ! 3) addr host" by blast
  have f: "addr_form s (b ! 3) addr host" using a(2) inet_recv [OF 1] by (simp add: addr_form_def)
  note b = length_4 [OF k(1)]
  have "b ! 0 = 5" "b ! 2 = 0" using k(2) validate_header [of "b ! 0" "b ! 1" "b ! 2" "b ! 3", folded b] by simp_all
  note b' = b [unfolded this]
  have "rd cf s = b @ addr @ p @ rd cf t" using os_recv_all_spec(2) [OF 1] a(1) os_recv_all_spec(2) [OF 3] k by simp
  then have "rd cf s = ([5, b ! 1, 0, b ! 3] @ addr @ [p ! 0, p ! 1]) @ rd cf t"
    using arg_cong2 [OF b' length_2 [OF k(4)], of "\<lambda>b p. b @ addr @ p @ rd cf t"] by simp
  then show ?thesis using f k(6) unfolding request_form_def by blast
qed

lemma request_complete:
  assumes "rd cf s = b @ rest" and "request_form s b r"
  shows "\<exists>t. hs_request cf s = (Some r, t) \<and> rd cf t = rest"
proof -
  from assms(2) obtain cmd atyp addr host p q where b: "b = [5, cmd, 0, atyp] @ addr @ [p, q]" and a: "addr_form s atyp addr host"
    and r: "r = (cmd, host, unat p * 256 + unat q)" unfolding request_form_def by blast
  have "rd cf s = [5, cmd, 0, atyp] @ addr @ [p, q] @ rest" using assms(1) b by simp
  from os_recv_all_ok [OF this, of 4] obtain s1 where 1: "os_recv_all s cf 4 = ([5, cmd, 0, atyp], s1)" "rd cf s1 = addr @ [p, q] @ rest" by auto
  have "addr_form s1 atyp addr host" using a inet_recv [OF 1(1)] by (simp add: addr_form_def)
  from address_complete [OF 1(2) this] obtain s2 where 2: "hs_address cf atyp s1 = (Some host, s2)" "rd cf s2 = [p, q] @ rest" by blast
  from os_recv_all_ok [OF 2(2), of 2] obtain s3 where 3: "os_recv_all s2 cf 2 = ([p, q], s3)" "rd cf s3 = rest" by auto
  have "socks5_validate_request_header [5, cmd, 0, atyp] = 0" using a by (auto simp: validate_header addr_form_def)
  then show ?thesis using 1(1) 2(1) 3 r by (intro exI [of _ s3]) (simp add: hs_request_def)
qed

section \<open>The whole negotiation\<close>

text \<open>What \<open>socks5_server_set_auth\<close> maintains of the configured credentials.\<close>

definition auth_wf :: "'a server_scheme \<Rightarrow> bool" where
  "auth_wf s \<longleftrightarrow> length (g_auth_user s) < 256 \<and> length (g_auth_pass s) < 256 \<and>
     (g_auth_enabled s \<longrightarrow> g_auth_user s \<noteq> [] \<and> g_auth_pass s \<noteq> [])"

lemma set_auth_wf: "auth_wf (socks5_server_set_auth u p s)"
  by (auto simp: socks5_server_set_auth_def auth_wf_def length_str_bounded str_bounded_def split: option.split)

text \<open>The messages that a client must have sent, up to its request.\<close>

definition client_message :: "'a server_scheme \<Rightarrow> byte list \<Rightarrow> byte \<times> cstring \<times> nat \<Rightarrow> bool" where
  "client_message s b r \<longleftrightarrow>
     (\<exists>ms req. b = [0x05, of_nat (length ms)] @ ms @
          (if g_auth_enabled s then [0x01, of_nat (length (g_auth_user s))] @ g_auth_user s @
             [of_nat (length (g_auth_pass s))] @ g_auth_pass s else []) @ req \<and>
        1 \<le> length ms \<and> length ms < 256 \<and> (if g_auth_enabled s then 0x02 else 0x00) \<in> set ms \<and> request_form s req r)"

lemma io_cfg: "io cf s t \<Longrightarrow> g_auth_enabled t = g_auth_enabled s \<and> g_auth_user t = g_auth_user s \<and> g_auth_pass t = g_auth_pass s \<and>
    inet_ntop4 t = inet_ntop4 s \<and> inet_ntop6 t = inet_ntop6 s"
  by (auto simp: io_def)

lemma request_form_cfg: "io cf s t \<Longrightarrow> request_form t = request_form s"
  using io_cfg [of cf s t] by (simp add: request_form_def addr_form_def fun_eq_iff)

lemma method_sound:
  assumes wf: "auth_wf s" and m: "hs_method cf ms s = (True, t)"
  shows "(if g_auth_enabled s then 0x02 else 0x00) \<in> set ms \<and> io cf s t \<and>
    rd cf s = (if g_auth_enabled s then [0x01, of_nat (length (g_auth_user s))] @ g_auth_user s @
             [of_nat (length (g_auth_pass s))] @ g_auth_pass s else []) @ rd cf t"
proof (cases "g_auth_enabled s")
  case True
  let ?s1 = "snd (os_send s cf [5, 2])"
  have u: "str_bounded 256 (g_auth_user s) = g_auth_user s" "str_bounded 256 (g_auth_pass s) = g_auth_pass s"
    and l: "length (g_auth_user s) < 256" "length (g_auth_pass s) < 256" using wf by (simp_all add: auth_wf_def)
  have a: "do_auth_check cf (g_auth_user s) (g_auth_pass s) ?s1 = (True, t)" and o: "2 \<in> set ms"
    using m True by (auto simp: hs_method_def Let_def u socks5_method_offered_iff split: if_splits prod.splits bool.splits)
  have "io cf ?s1 t" using io_auth [of cf ?s1 "g_auth_user s" "g_auth_pass s"] a by simp
  then show ?thesis using True o auth_sound [OF a l] io_trans [OF io_send] by simp
next
  case False
  then have "t = snd (os_send s cf [5, 0])" "0 \<in> set ms" using m by (auto simp: hs_method_def Let_def socks5_method_offered_iff split: if_splits)
  then show ?thesis using False io_send by simp
qed

lemma method_complete:
  assumes wf: "auth_wf s" and o: "(if g_auth_enabled s then 0x02 else 0x00) \<in> set ms"
    and r: "rd cf s = (if g_auth_enabled s then [0x01, of_nat (length (g_auth_user s))] @ g_auth_user s @
             [of_nat (length (g_auth_pass s))] @ g_auth_pass s else []) @ rest"
  shows "\<exists>t. hs_method cf ms s = (True, t) \<and> rd cf t = rest"
proof (cases "g_auth_enabled s")
  case True
  let ?s1 = "snd (os_send s cf [5, 2])"
  have u: "str_bounded 256 (g_auth_user s) = g_auth_user s" "str_bounded 256 (g_auth_pass s) = g_auth_pass s"
    and l: "length (g_auth_user s) < 256" "length (g_auth_pass s) < 256" "g_auth_user s \<noteq> []" using wf True by (simp_all add: auth_wf_def)
  have "rd cf ?s1 = [0x01, of_nat (length (g_auth_user s))] @ g_auth_user s @ [of_nat (length (g_auth_pass s))] @ g_auth_pass s @ rest"
    using r True by simp
  from auth_complete [OF this l] obtain t where "do_auth_check cf (g_auth_user s) (g_auth_pass s) ?s1 = (True, t)" "rd cf t = rest" by blast
  then show ?thesis using True o by (simp add: hs_method_def Let_def u socks5_method_offered_iff)
qed (use o r in \<open>simp add: hs_method_def Let_def socks5_method_offered_iff\<close>)

lemma negotiate_exact:
  assumes wf: "auth_wf s"
  shows "(\<exists>t. hs_negotiate cf s = (Some r, t)) \<longleftrightarrow> (\<exists>b rest. rd cf s = b @ rest \<and> client_message s b r)"
proof
  assume "\<exists>t. hs_negotiate cf s = (Some r, t)"
  then obtain t ms s1 s2 where 1: "hs_greeting cf s = (Some ms, s1)" and 2: "hs_method cf ms s1 = (True, s2)" and 3: "hs_request cf s2 = (Some r, t)"
    by (auto simp: hs_negotiate_def split: prod.splits option.splits bool.splits)
  note g = greeting_sound [OF 1]
  have io1: "io cf s s1" using io_greeting [of cf s] 1 by simp
  note c = io_cfg [OF io1]
  have "auth_wf s1" using wf c by (simp add: auth_wf_def)
  note m = method_sound [OF this 2]
  from request_sound [OF 3] obtain req where q: "rd cf s2 = req @ rd cf t" "request_form s2 req r" by blast
  have "request_form s req r" using q(2) m request_form_cfg [OF io1] request_form_cfg [of cf s1 s2] by simp
  then show "\<exists>b rest. rd cf s = b @ rest \<and> client_message s b r"
    using g m q(1) c unfolding client_message_def
    by (intro exI [of _ "[5, of_nat (length ms)] @ ms @ (if g_auth_enabled s then [1, of_nat (length (g_auth_user s))] @ g_auth_user s @
             [of_nat (length (g_auth_pass s))] @ g_auth_pass s else []) @ req"] exI [of _ "rd cf t"] conjI exI [of _ ms] exI [of _ req]) auto
next
  assume "\<exists>b rest. rd cf s = b @ rest \<and> client_message s b r"
  then obtain ms req rest where b: "rd cf s = [5, of_nat (length ms)] @ ms @ ((if g_auth_enabled s then [1, of_nat (length (g_auth_user s))] @ g_auth_user s @
             [of_nat (length (g_auth_pass s))] @ g_auth_pass s else []) @ req @ rest)"
    and ms: "1 \<le> length ms" "length ms < 256" "(if g_auth_enabled s then 2 else 0) \<in> set ms" and q: "request_form s req r"
    unfolding client_message_def by auto
  from greeting_complete [OF b ms(1,2)] obtain s1 where 1: "hs_greeting cf s = (Some ms, s1)"
    "rd cf s1 = (if g_auth_enabled s then [1, of_nat (length (g_auth_user s))] @ g_auth_user s @
             [of_nat (length (g_auth_pass s))] @ g_auth_pass s else []) @ req @ rest" by blast
  have io1: "io cf s s1" using io_greeting [of cf s] 1(1) by simp
  note c = io_cfg [OF io1]
  have wf1: "auth_wf s1" using wf c by (simp add: auth_wf_def)
  from method_complete [OF wf1, of ms cf "req @ rest"] 1(2) ms(3) c obtain s2 where 2: "hs_method cf ms s1 = (True, s2)" "rd cf s2 = req @ rest" by auto
  have "request_form s2 req r" using q method_sound [OF wf1 2(1)] request_form_cfg [OF io1] request_form_cfg [of cf s1 s2] by simp
  from request_complete [OF 2(2) this] show "\<exists>t. hs_negotiate cf s = (Some r, t)" using 1(1) 2(1) by (auto simp: hs_negotiate_def)
qed

section \<open>Resources\<close>

text \<open>The negotiation leaves the TCP engine alone; all it logs is answers to the client.\<close>

definition hs_quiet :: "fd \<Rightarrow> 'a server_scheme \<Rightarrow> 'a server_scheme \<Rightarrow> bool" where
  "hs_quiet cf s t \<longleftrightarrow> same_ctl s t \<and> next_worker_idx t = next_worker_idx s \<and> o_java t = o_java s \<and>
     java_connects t = java_connects s \<and> (\<exists>l. o_log t = o_log s @ l \<and> quiet l)"

lemma io_quiet: "io cf s t \<Longrightarrow> hs_quiet cf s t"
proof -
  assume "io cf s t"
  then obtain r q l where t: "t = s\<lparr>o_recv := r, o_send := q, o_log := o_log s @ l\<rparr>" "\<forall>e \<in> set l. \<exists>bs. e = SEND cf bs" unfolding io_def by blast
  then have "quiet l" by (auto simp: quiet_def)
  then show ?thesis unfolding hs_quiet_def t(1) by (auto simp: same_ctl_def)
qed

lemma hs_quiet_trans:
  assumes "hs_quiet cf s t" and "hs_quiet cf t u"
  shows "hs_quiet cf s u"
proof -
  from assms obtain l m where "o_log t = o_log s @ l" "quiet l" "o_log u = o_log t @ m" "quiet m" by (auto simp: hs_quiet_def)
  then have "\<exists>l. o_log u = o_log s @ l \<and> quiet l" by (intro exI [of _ "l @ m"]) simp
  then show ?thesis using assms same_ctl_trans [of s t u] by (simp add: hs_quiet_def)
qed

lemma quiet_fail: "hs_quiet cf s t \<Longrightarrow> hs_quiet cf s (t\<lparr>g_st_auth_fail := n\<rparr>)"
  by (simp add: hs_quiet_def same_ctl_def)

lemma quiet_method: "hs_quiet cf s (snd (hs_method cf ms s))"
proof -
  let ?u = "str_bounded 256 (g_auth_user s)" and ?p = "str_bounded 256 (g_auth_pass s)" and ?s1 = "snd (os_send s cf [5, 2])"
  have 1: "hs_quiet cf s (snd (os_send (s\<lparr>g_st_auth_fail := g_st_auth_fail s + 1\<rparr>) cf [5, 255]))"
    using hs_quiet_trans [OF quiet_fail [OF io_quiet [OF io_refl]] io_quiet [OF io_send]] .
  have 2: "hs_quiet cf s (snd (do_auth_check cf ?u ?p ?s1))" by (rule io_quiet [OF io_trans [OF io_send io_auth]])
  have 3: "hs_quiet cf s (snd (os_send s cf [5, 0]))" by (rule io_quiet [OF io_send])
  show ?thesis using 1 2 3 quiet_fail [OF 2]
    by (auto simp: hs_method_def Let_def split: prod.split bool.split)
qed

lemma quiet_negotiate: "hs_negotiate cf s = (r, t) \<Longrightarrow> hs_quiet cf s t"
proof -
  assume n: "hs_negotiate cf s = (r, t)"
  obtain g s1 where 1: "hs_greeting cf s = (g, s1)" by force
  have q1: "hs_quiet cf s s1" using io_quiet [OF io_greeting [of cf s]] 1 by simp
  show ?thesis
  proof (cases g)
    case (Some ms)
    obtain b s2 where 2: "hs_method cf ms s1 = (b, s2)" by force
    have q2: "hs_quiet cf s s2" using hs_quiet_trans [OF q1 quiet_method] 2 by (metis snd_conv)
    have "t = s2 \<or> t = snd (hs_request cf s2)" using n 1 2 Some by (auto simp: hs_negotiate_def split: bool.splits)
    then show ?thesis using q2 hs_quiet_trans [OF q2 io_quiet [OF io_request]] by auto
  qed (use n 1 q1 in \<open>simp add: hs_negotiate_def\<close>)
qed

lemma eng_inv_counted: "eng_inv K s L G \<Longrightarrow> eng_inv (K + n) (s\<lparr>g_conn_count := g_conn_count s + n\<rparr>) L G"
proof -
  have "conn_list (s\<lparr>g_conn_count := m\<rparr>) w xs = conn_list s w xs" for m w xs
    by (rule conn_list_cong) (simp_all add: conn_nxt_def conn_prv_def)
  moreover have "tcp_pool.pool_inv (s\<lparr>g_conn_count := m\<rparr>) = tcp_pool.pool_inv s" "active_count (s\<lparr>g_conn_count := m\<rparr>) = active_count s" for m
    by (simp_all add: tcp_pool.pool_inv_def tcp_slots_wf_def tcp_free_def active_count_def)
  ultimately show "eng_inv K s L G \<Longrightarrow> eng_inv (K + n) (s\<lparr>g_conn_count := g_conn_count s + n\<rparr>) L G"
    unfolding eng_inv_def by simp
qed

text \<open>
  The client ends closed, once, or handed over together with the descriptor the Java side answered
  for the requested target; \<open>before\<close> is the state in which the handoff happened.
\<close>

definition hs_settled ::
  "int \<Rightarrow> fd \<Rightarrow> (nat \<Rightarrow> nat list) \<Rightarrow> (byte \<times> cstring \<times> nat) option \<Rightarrow> 'a server_scheme \<Rightarrow> 'a server_scheme \<Rightarrow> bool" where
  "hs_settled K cf L r s t \<longleftrightarrow> (\<exists>L' l. eng_inv K t L' [] \<and> o_log t = o_log s @ l \<and>
     (L' = L \<and> count_list l (CLOSE cf) = 1 \<or>
      (\<exists>before host port tf e q pre m w. r = Some (0x01, host, port) \<and> java_connects before = java_connects s @ [(host, port)] \<and>
         o_java s = (tf, e) # q \<and> l = pre @ m \<and> quiet pre \<and> w < WORKER_COUNT \<and> handed_over w cf tf before L t L' m)))"

lemma hs_settled_close:
  assumes "eng_inv K s L []" and "same_ctl s t" and "o_log t = o_log s @ l" "quiet l"
  shows "hs_settled K cf L r s (os_close cf t)"
proof -
  have "same_ctl s (os_close cf t)" using assms(2) by (simp add: same_ctl_def os_close_def log_ev_def)
  moreover have "CLOSE cf \<notin> set l" using assms(4) by (auto simp: quiet_def)
  ultimately show ?thesis unfolding hs_settled_def using eng_inv_same_ctl [OF assms(1)] assms(3)
    by (intro exI [of _ L] exI [of _ "l @ [CLOSE cf]"]) (simp add: os_close_def count_list_append)
qed

lemma hs_settled_trans:
  assumes "hs_quiet cf s s1" and "hs_settled K cf L r s1 t"
  shows "hs_settled K cf L r s t"
proof -
  from assms(1) obtain p where p: "o_log s1 = o_log s @ p" "quiet p" by (auto simp: hs_quiet_def)
  from assms(2) obtain L' l where t: "eng_inv K t L' []" "o_log t = o_log s1 @ l" and
    c: "L' = L \<and> count_list l (CLOSE cf) = 1 \<or>
      (\<exists>before host port tf e q pre m w. r = Some (1, host, port) \<and> java_connects before = java_connects s1 @ [(host, port)] \<and>
         o_java s1 = (tf, e) # q \<and> l = pre @ m \<and> quiet pre \<and> w < WORKER_COUNT \<and> handed_over w cf tf before L t L' m)"
    unfolding hs_settled_def by blast
  have "CLOSE cf \<notin> set p" using p(2) by (auto simp: quiet_def)
  then have "count_list (p @ l) (CLOSE cf) = count_list l (CLOSE cf)" by (simp add: count_list_append)
  moreover have "\<exists>before host port tf e q pre m w. r = Some (1, host, port) \<and> java_connects before = java_connects s @ [(host, port)] \<and>
         o_java s = (tf, e) # q \<and> p @ l = pre @ m \<and> quiet pre \<and> w < WORKER_COUNT \<and> handed_over w cf tf before L t L' m"
    if "\<not> (L' = L \<and> count_list l (CLOSE cf) = 1)"
  proof -
    from that c obtain before host port tf e q pre m w where x: "r = Some (1, host, port)" "java_connects before = java_connects s1 @ [(host, port)]"
       "o_java s1 = (tf, e) # q" "l = pre @ m" "quiet pre" "w < WORKER_COUNT" "handed_over w cf tf before L t L' m" by blast
    have "p @ l = (p @ pre) @ m" "quiet (p @ pre)" using x(4,5) p(2) by simp_all
    then show ?thesis using x(1,2,3,6,7) assms(1) unfolding hs_quiet_def by metis
  qed
  ultimately show ?thesis unfolding hs_settled_def using t p(1) by (intro exI [of _ L'] exI [of _ "p @ l"]) auto
qed

lemma dispatch_connect:
  assumes inv: "eng_inv K s L []" and cf: "0 \<le> cf" and idx: "0 \<le> sint (next_worker_idx s)"
    and fresh: "\<forall>(f, e) \<in> set (o_java s). f \<noteq> cf"
  shows "\<exists>t. hs_dispatch cf (1, host, port) s = Some t \<and> hs_settled K cf L (Some (1, host, port)) s t"
proof (cases "g_conn_count s \<ge> MAX_CONCURRENT_CONNS")
  case True
  then show ?thesis using hs_settled_close [OF inv same_ctl_refl, of "[]" cf] by (simp add: hs_dispatch_def Let_def)
next
  case quota: False
  define s0 where "s0 = s\<lparr>g_conn_count := g_conn_count s + 1, java_connects := java_connects s @ [(host, port)]\<rparr>"
  obtain tf e s1 where j: "request_java_5g_socket s0 = ((tf, e), s1)" by (metis prod.exhaust)
  then obtain q where s1: "s1 = s0\<lparr>o_java := q\<rparr>" using java_socket_form by blast
  have same: "s\<lparr>g_conn_count := g_conn_count s + 1\<rparr>\<lparr>java_connects := x\<rparr> = s\<lparr>g_conn_count := g_conn_count s + 1, java_connects := x\<rparr>" for x by simp
  show ?thesis
  proof (cases "tf < 0")
    case True
    let ?s2 = "s1\<lparr>g_conn_count := g_conn_count s1 - 1, g_st_conn_fail := g_st_conn_fail s1 + 1\<rparr>"
    let ?s3 = "send_zero_reply cf 4 ?s2"
    have "io cf ?s2 ?s3" unfolding send_zero_reply_def by (rule io_send)
    from io_quiet [OF this] obtain l where q: "same_ctl ?s2 ?s3" "o_log ?s3 = o_log ?s2 @ l" "quiet l" by (auto simp: hs_quiet_def)
    have "same_ctl s ?s2" by (simp add: s1 s0_def same_ctl_def)
    from same_ctl_trans [OF this q(1)] have "hs_settled K cf L (Some (1, host, port)) s (os_close cf ?s3)"
      by (rule hs_settled_close [OF inv]) (use q in \<open>simp_all add: s1 s0_def\<close>)
    moreover have "hs_dispatch cf (1, host, port) s = Some (os_close cf ?s3)"
      using quota True j by (simp add: hs_dispatch_def Let_def s0_def)
    ultimately show ?thesis by blast
  next
    case False
    let ?s3 = "send_zero_reply cf 0 s1"
    have ans: "o_java s = (tf, e) # o_java s1"
    proof (cases "o_java s")
      case Nil
      then show ?thesis using j False by (simp add: request_java_5g_socket_def s0_def)
    next
      case (Cons x xs)
      then have "((tf, e), s1) = (x, s0\<lparr>o_java := xs\<rparr>)" using j by (simp add: request_java_5g_socket_def s0_def)
      then show ?thesis using Cons by simp
    qed
    have "io cf s1 ?s3" unfolding send_zero_reply_def by (rule io_send)
    from io_quiet [OF this] obtain p where q: "same_ctl s1 ?s3" "o_log ?s3 = o_log s1 @ p" "quiet p" "next_worker_idx ?s3 = next_worker_idx s1"
      "java_connects ?s3 = java_connects s1" by (auto simp: hs_quiet_def)
    have "same_ctl (s\<lparr>g_conn_count := g_conn_count s + 1\<rparr>) s1" by (simp add: s1 s0_def same_ctl_def)
    from eng_inv_same_ctl [OF eng_inv_same_ctl [OF eng_inv_counted [OF inv] this] q(1)] have inv3: "eng_inv (K + 1) ?s3 L []" .
    have tf: "0 \<le> tf" "cf \<noteq> tf" and i: "0 \<le> sint (next_worker_idx ?s3)" using False fresh ans idx q(4) by (auto simp: s1 s0_def)
    from handoff_outcome [OF inv3 cf tf i] obtain t L' l where
      h: "handoff_to_worker cf tf ?s3 = Some t" "eng_inv K t L' []" "o_log t = o_log ?s3 @ l"
      "handed_over (nat (pick_worker (next_worker_idx ?s3))) cf tf ?s3 L t L' l \<or> L' = L \<and> closed_once cf tf l" by blast
    have "hs_dispatch cf (1, host, port) s = Some t"
      using quota False j h(1) by (simp add: hs_dispatch_def Let_def s0_def)
    moreover have "hs_settled K cf L (Some (1, host, port)) s t"
    proof -
      have "o_log t = o_log s @ (p @ l)" using h(3) q(2) by (simp add: s1 s0_def)
      moreover have "CLOSE cf \<notin> set p" using q(3) by (auto simp: quiet_def)
      moreover have "java_connects ?s3 = java_connects s @ [(host, port)]" using q(5) by (simp add: s1 s0_def)
      moreover have "nat (pick_worker (next_worker_idx ?s3)) < WORKER_COUNT"
        using i c_rem_nonneg [of "sint (next_worker_idx ?s3)" "int WORKER_COUNT"] by (simp add: pick_worker_def WORKER_COUNT_def)
      ultimately show ?thesis using h(2,4) ans q(3) unfolding hs_settled_def closed_once_def
        by (intro exI [of _ L'] exI [of _ "p @ l"] conjI) (auto simp: count_list_append)
    qed
    ultimately show ?thesis by blast
  qed
qed

section \<open>The process image\<close>

definition server_boot ::
  "(cstring \<Rightarrow> byte list option) \<Rightarrow> (cstring \<Rightarrow> byte list option) \<Rightarrow> (byte list \<Rightarrow> cstring) \<Rightarrow> (byte list \<Rightarrow> cstring) \<Rightarrow> server" where
  "server_boot p4 p6 n4 n6 = udp.extend (udp_boot p4 p6)
     (server.fields [] [] False [] [] (job_pool_init 0 0) (-1, -1) n4 n6 [] (\<lambda>_. False) [] [] [] [] (\<lambda>_. []))"

lemma server_boot_simps [simp]:
  "g_auth_enabled (server_boot p4 p6 n4 n6) = False" "inet_ntop4 (server_boot p4 p6 n4 n6) = n4" "inet_ntop6 (server_boot p4 p6 n4 n6) = n6"
  "g_listeners (server_boot p4 p6 n4 n6) = []" "g_bind_addrs (server_boot p4 p6 n4 n6) = []"
  "conn_list_head (server_boot p4 p6 n4 n6) = (\<lambda>_. None)" "g_conn_count (server_boot p4 p6 n4 n6) = 0"
  "next_worker_idx (server_boot p4 p6 n4 n6) = 0" "o_recv (server_boot p4 p6 n4 n6) = (\<lambda>_. [])" "o_java (server_boot p4 p6 n4 n6) = []"
  "g_slots (server_boot p4 p6 n4 n6) = (\<lambda>_. zero_conn)" "server_running (server_boot p4 p6 n4 n6) = False"
  by (simp_all add: server_boot_def udp.defs server.defs udp_boot_def tcp.defs tcp_boot_def)

lemma slots_init_eng_inv:
  assumes "conn_list_head s = (\<lambda>_. None)"
  shows "eng_inv (g_conn_count s) (slots_init s) (\<lambda>_. []) []"
proof -
  have "conn_list (slots_init s) w []" for w using assms by (simp add: conn_list_def dl_rep_def slots_init_def)
  moreover have "active_count (slots_init s) = 0" by (simp add: active_count_def slots_init_def)
  moreover have "g_conn_count (slots_init s) = g_conn_count s" "\<not> g_slot_state (slots_init s) i" if "i < CONN_SLOT_COUNT" for i
    using that by (simp_all add: slots_init_def)
  ultimately show ?thesis using slots_init_inv [of s] unfolding eng_inv_def by (simp add: slots_init_def)
qed

section \<open>Properties\<close>

text \<open>
  C4. The handshake accepts exactly the well-formed clients. Whatever way the network cuts the
  stream, a request is taken from it if and only if the stream begins with a greeting that offers
  the method the server requires, followed, when authentication is on, by exactly the configured
  user name and password (RFC 1929), followed by a request with version 5, a zero reserved byte and
  a known address type; and then command, host and port are those of that request.
\<close>

theorem handshake_exact:
  assumes "auth_wf s"
  shows "(\<exists>t. hs_negotiate cf s = (Some r, t)) \<longleftrightarrow> (\<exists>b rest. readable (o_recv s cf) = b @ rest \<and> client_message s b r)"
  using negotiate_exact [OF assms, of cf r] by (simp add: rd_def)

text \<open>A client that authenticates and asks for port 80 of 10.0.0.1, in three pieces.\<close>

definition auth_client :: server where
  "auth_client = (socks5_server_set_auth (Some [0x75]) (Some [0x70]) (slots_init (server_boot (\<lambda>_. None) (\<lambda>_. None) (\<lambda>b. b) (\<lambda>b. b))))
     \<lparr>o_recv := (\<lambda>_. []) (9 := [RData [5], RData [1, 2, 1, 1, 0x75, 1], RData [0x70, 5, 1, 0, 1, 10, 0, 0, 1, 0, 80]]), o_java := [(7, 0)]\<rparr>"

lemma auth_client_simps:
  "auth_wf auth_client" "g_auth_enabled auth_client" "g_auth_user auth_client = [0x75]" "g_auth_pass auth_client = [0x70]"
  "inet_ntop4 auth_client = (\<lambda>b. b)" "readable (o_recv auth_client 9) = [5, 1, 2, 1, 1, 0x75, 1, 0x70, 5, 1, 0, 1, 10, 0, 0, 1, 0, 80]"
  by (simp_all add: auth_client_def socks5_server_set_auth_def auth_wf_def slots_init_def)

lemma auth_client_message: "client_message auth_client [5, 1, 2, 1, 1, 0x75, 1, 0x70, 5, 1, 0, 1, 10, 0, 0, 1, 0, 80] (1, [10, 0, 0, 1], 80)"
  unfolding client_message_def request_form_def addr_form_def
  by (intro exI [of _ "[2]"] exI [of _ "[5, 1, 0, 1, 10, 0, 0, 1, 0, 80]"] conjI exI [of _ 1] exI [of _ "[10, 0, 0, 1]"] exI [of _ 0] exI [of _ 80])
    (simp_all add: auth_client_simps)

theorem handshake_exact_witness: "\<exists>t. hs_negotiate 9 auth_client = (Some (1, [10, 0, 0, 1], 80), t)"
  using handshake_exact [OF auth_client_simps(1), of 9 "(1, [10, 0, 0, 1], 80)"] auth_client_message auth_client_simps(6) by auto

text \<open>
  C5. Every handshake for TCP settles the client's descriptor and the connection quota. A client that
  is refused, at whatever point, is closed exactly once with lists, slots and count as before; one
  that asks to connect is either closed exactly once or handed to a worker, together with the
  descriptor the Java side answered for exactly the requested host and port.
\<close>

theorem handshake_settles:
  assumes "eng_inv K s L []" and "0 \<le> cf" and "0 \<le> sint (next_worker_idx s)" and "\<forall>(f, e) \<in> set (o_java s). f \<noteq> cf"
    and "hs_negotiate cf s = (r, s1)" and "\<forall>cmd host port. r = Some (cmd, host, port) \<longrightarrow> cmd \<noteq> 0x03 \<and> cmd \<noteq> 0x04"
  shows "\<exists>t. handle_handshake_fd cf s = Some t \<and> hs_settled K cf L r s t"
proof -
  note q = quiet_negotiate [OF assms(5)]
  then have q1: "same_ctl s s1" "next_worker_idx s1 = next_worker_idx s" "o_java s1 = o_java s" by (simp_all add: hs_quiet_def)
  note inv1 = eng_inv_same_ctl [OF assms(1) q1(1)]
  have close: "hs_settled K cf L r s1 (os_close cf s1)" by (rule hs_settled_close [OF inv1 same_ctl_refl, of "[]"]) simp_all
  have "\<exists>t. handle_handshake_fd cf s = Some t \<and> hs_settled K cf L r s1 t"
  proof (cases r)
    case None
    then show ?thesis using close assms(5) by (simp add: handle_handshake_fd_def)
  next
    case (Some x)
    obtain cmd host port where x: "x = (cmd, host, port)" by (metis prod.exhaust)
    show ?thesis
    proof (cases "cmd = 1")
      case True
      then show ?thesis using dispatch_connect [OF inv1 assms(2), of host port] assms(3-5) q1 Some x
        by (simp add: handle_handshake_fd_def)
    next
      case False
      then have "\<not> socks5_is_supported_cmd cmd" using assms(6) Some x by (simp add: socks5_is_supported_cmd_def)
      then show ?thesis using close assms(5) Some x False by (simp add: handle_handshake_fd_def hs_dispatch_def)
    qed
  qed
  then show ?thesis using hs_settled_trans [OF q] by blast
qed

theorem handshake_settles_witness: "\<exists>t r. handle_handshake_fd 9 auth_client = Some t \<and> hs_settled 0 9 (\<lambda>_. []) r auth_client t"
proof -
  obtain r s1 where n: "hs_negotiate 9 auth_client = (r, s1)" by force
  have "eng_inv 0 (slots_init (server_boot (\<lambda>_. None) (\<lambda>_. None) (\<lambda>b. b) (\<lambda>b. b))) (\<lambda>_. []) []"
    using slots_init_eng_inv [of "server_boot (\<lambda>_. None) (\<lambda>_. None) (\<lambda>b. b) (\<lambda>b. b)"] by simp
  then have inv: "eng_inv 0 auth_client (\<lambda>_. []) []"
    by (rule eng_inv_same_ctl) (simp add: auth_client_def socks5_server_set_auth_def same_ctl_def)
  have "r = Some (1, [10, 0, 0, 1], 80)" using n negotiate_exact [OF auth_client_simps(1), of 9 "(1, [10, 0, 0, 1], 80)"]
      auth_client_message auth_client_simps(6) by (auto simp: rd_def)
  moreover have "next_worker_idx auth_client = 0" "o_java auth_client = [(7, 0)]"
    by (simp_all add: auth_client_def socks5_server_set_auth_def slots_init_def)
  ultimately show ?thesis using handshake_settles [OF inv _ _ _ n] by auto
qed

end
