(* ===== verification/Listener.thy ===== *)
theory Listener
  imports Handshake
begin

text \<open>
  The listener table of \<open>simple-socks5.c\<close> and its reconciliation with the configured addresses. The
  table is the list of its occupied entries, the arrays up to \<open>g_listener_count\<close>. What the kernel
  says of a descriptor (\<open>SO_ACCEPTCONN\<close>, \<open>getsockname\<close>) and how it answers \<open>socket\<close>, \<open>bind\<close> and
  \<open>listen\<close> are fields of the state; an exhausted \<open>bind\<close> or \<open>listen\<close> queue answers success. Socket
  options and log lines are not modelled. A successful \<open>bind\<close> and \<open>listen\<close> give the
  descriptor its address and the listening state.
\<close>

section \<open>Model\<close>

definition MAX_BIND_ADDRS :: nat where "MAX_BIND_ADDRS = 16"
definition MAX_LISTENERS :: nat where "MAX_LISTENERS = MAX_BIND_ADDRS + 2"
definition INET6_ADDRSTRLEN :: nat where "INET6_ADDRSTRLEN = 46"

definition LOOPBACK4 :: cstring where "LOOPBACK4 = [0x31, 0x32, 0x37, 0x2e, 0x30, 0x2e, 0x30, 0x2e, 0x31]"
definition LOOPBACK6 :: cstring where "LOOPBACK6 = [0x3a, 0x3a, 0x31]"

definition port_of :: "byte list \<Rightarrow> nat" where
  "port_of p = unat (p ! 0) * 256 + unat (p ! 1)"

definition listener_is_ours :: "fd \<Rightarrow> cstring \<Rightarrow> nat \<Rightarrow> 'a server_scheme \<Rightarrow> bool" where
  "listener_is_ours f ip port s =
     (if f < 0 then False
      else if \<not> k_accepting s f then False
      else case o_sockname s f of
        None \<Rightarrow> False
      | Some a \<Rightarrow>
          if sa_family a = AF_INET then port_of (sa_port a) = port mod 65536 \<and> inet_ntop4 s (sa_addr a) = ip
          else if sa_family a = AF_INET6 then port_of (sa_port a) = port mod 65536 \<and> inet_ntop6 s (sa_addr a) = ip
          else False)"

definition is_permanent_addr :: "cstring \<Rightarrow> bool" where
  "is_permanent_addr ip \<longleftrightarrow> ip = LOOPBACK4 \<or> ip = LOOPBACK6"

definition addr_in_list :: "cstring \<Rightarrow> cstring list \<Rightarrow> bool" where
  "addr_in_list ip addrs = list_ex (\<lambda>a. ip = a) addrs"

definition k_take :: "bool list \<Rightarrow> bool \<times> bool list" where
  "k_take q = (case q of [] \<Rightarrow> (True, []) | b # r \<Rightarrow> (b, r))"

definition htons :: "nat \<Rightarrow> byte list" where
  "htons port = [of_nat (port div 256), of_nat port]"

text \<open>The socket address of a text, by the two \<open>inet_pton\<close> attempts.\<close>

definition listen_sockaddr :: "cstring \<Rightarrow> nat \<Rightarrow> 'a udp_scheme \<Rightarrow> sockaddr option" where
  "listen_sockaddr ip port s =
     (case inet_pton4 s ip of
        Some a4 \<Rightarrow> Some \<lparr>sa_family = AF_INET, sa_addr = a4, sa_port = htons port\<rparr>
      | None \<Rightarrow>
          (case inet_pton6 s ip of
             Some a6 \<Rightarrow> Some \<lparr>sa_family = AF_INET6, sa_addr = a6, sa_port = htons port\<rparr>
           | None \<Rightarrow> None))"

definition add_listener_for_ip :: "cstring \<Rightarrow> nat \<Rightarrow> 'a server_scheme \<Rightarrow> bool \<times> 'a server_scheme" where
  "add_listener_for_ip ip port s =
     (if length (g_listeners s) \<ge> MAX_LISTENERS then (False, s)
      else case listen_sockaddr ip port s of
        None \<Rightarrow> (False, s)
      | Some sa \<Rightarrow>
          (case os_socket s of ((f, e), s1) \<Rightarrow>
           if f < 0 then (False, s1)
           else case k_take (k_bind s1) of (ok1, q1) \<Rightarrow>
           let s2 = s1\<lparr>k_bind := q1\<rparr> in
           if \<not> ok1 then (False, os_close f s2)
           else case k_take (k_listen s2) of (ok2, q2) \<Rightarrow>
           let s3 = s2\<lparr>k_listen := q2\<rparr> in
           if \<not> ok2 then (False, os_close f s3)
           else (True, s3\<lparr>o_sockname := (o_sockname s3)(f := Some sa), k_accepting := (k_accepting s3)(f := True),
                          g_listeners := g_listeners s3 @ [(f, str_bounded INET6_ADDRSTRLEN ip)]\<rparr>)))"

definition drop_listener_slot :: "nat \<Rightarrow> nat \<Rightarrow> 'a server_scheme \<Rightarrow> 'a server_scheme" where
  "drop_listener_slot i port s =
     (if i \<ge> length (g_listeners s) then s
      else case g_listeners s ! i of (f, ip) \<Rightarrow>
        let s1 = (if listener_is_ours f ip port s then os_close f (log_ev (SHUTDOWN f) s) else s)
        in s1\<lparr>g_listeners := take i (g_listeners s1) @ drop (Suc i) (g_listeners s1)\<rparr>)"

lemma drop_listener_slot_length:
  "i < length (g_listeners s) \<Longrightarrow> Suc (length (g_listeners (drop_listener_slot i port s))) = length (g_listeners s)"
  by (auto simp: drop_listener_slot_def Let_def os_close_def log_ev_def split: prod.split)

text \<open>The first loop of \<open>reconcile_listeners\<close>.\<close>

function reconcile_scan :: "nat \<Rightarrow> cstring list \<Rightarrow> nat \<Rightarrow> 'a server_scheme \<Rightarrow> 'a server_scheme" where
  "reconcile_scan port desired i s =
     (if i < length (g_listeners s) then
        let (f, ip) = g_listeners s ! i;
            wanted = is_permanent_addr ip \<or> addr_in_list ip desired
        in if wanted \<and> listener_is_ours f ip port s then reconcile_scan port desired (i + 1) s
           else reconcile_scan port desired i (drop_listener_slot i port s)
      else s)"
  by pat_completeness auto
termination
proof (relation "measure (\<lambda>(port, desired, i, s). length (g_listeners s) - i)", goal_cases)
  case (3 port desired i s)
  with drop_listener_slot_length [of i s port] show ?case by simp
qed auto

declare reconcile_scan.simps [simp del]

definition ensure_listener :: "nat \<Rightarrow> cstring \<Rightarrow> 'a server_scheme \<Rightarrow> 'a server_scheme" where
  "ensure_listener port ip s =
     (if addr_in_list ip (map snd (g_listeners s)) then s else snd (add_listener_for_ip ip port s))"

definition reconcile_listeners :: "nat \<Rightarrow> 'a server_scheme \<Rightarrow> 'a server_scheme" where
  "reconcile_listeners port s =
     (let desired = g_bind_addrs s in
      if \<not> server_running s then s
      else
        let s1 = reconcile_scan port desired 0 s;
            s2 = ensure_listener port LOOPBACK4 s1;
            s3 = ensure_listener port LOOPBACK6 s2
        in foldl (\<lambda>t ip. ensure_listener port ip t) s3 desired)"

text \<open>\<open>None\<close> is a null pointer in the array.\<close>

fun next_addrs :: "cstring option list \<Rightarrow> nat \<Rightarrow> cstring list" where
  "next_addrs [] n = []"
| "next_addrs (a # as) n =
     (if n \<ge> MAX_BIND_ADDRS then []
      else case a of
        None \<Rightarrow> next_addrs as n
      | Some ip \<Rightarrow> if ip = [] then next_addrs as n else str_bounded INET6_ADDRSTRLEN ip # next_addrs as (n + 1))"

definition socks5_server_set_bind_addrs :: "cstring option list \<Rightarrow> 'a server_scheme \<Rightarrow> 'a server_scheme" where
  "socks5_server_set_bind_addrs addrs s = s\<lparr>g_bind_addrs := next_addrs addrs 0\<rparr>"

section \<open>The scan\<close>

definition wanted_addrs :: "'a server_scheme \<Rightarrow> cstring list" where
  "wanted_addrs s = LOOPBACK4 # LOOPBACK6 # g_bind_addrs s"

definition keeps :: "nat \<Rightarrow> 'a server_scheme \<Rightarrow> fd \<times> cstring \<Rightarrow> bool" where
  "keeps port s e \<longleftrightarrow> snd e \<in> set (wanted_addrs s) \<and> listener_is_ours (fst e) (snd e) port s"

text \<open>The descriptors the scan closes.\<close>

definition retired :: "nat \<Rightarrow> 'a server_scheme \<Rightarrow> fd \<times> cstring \<Rightarrow> sysev list" where
  "retired port s e = (if \<not> keeps port s e \<and> listener_is_ours (fst e) (snd e) port s then [SHUTDOWN (fst e), CLOSE (fst e)] else [])"

lemma addr_in_list_iff [simp]: "addr_in_list ip l \<longleftrightarrow> ip \<in> set l"
  by (auto simp: addr_in_list_def list_ex_iff)

lemma ours_frame [simp]:
  "listener_is_ours f ip port (s\<lparr>g_listeners := l, o_log := m\<rparr>) = listener_is_ours f ip port s"
  "keeps port (s\<lparr>g_listeners := l, o_log := m\<rparr>) e = keeps port s e"
  "retired port (s\<lparr>g_listeners := l, o_log := m\<rparr>) e = retired port s e"
  by (simp_all add: listener_is_ours_def keeps_def retired_def wanted_addrs_def split: option.split)

lemma drop_slot_form:
  assumes "i < length (g_listeners s)" and "\<not> keeps port s (g_listeners s ! i)"
  shows "drop_listener_slot i port s =
    s\<lparr>g_listeners := take i (g_listeners s) @ drop (Suc i) (g_listeners s), o_log := o_log s @ retired port s (g_listeners s ! i)\<rparr>"
  using assms
  by (cases "g_listeners s ! i") (simp add: drop_listener_slot_def Let_def os_close_def log_ev_def retired_def)

lemma reconcile_scan_step:
  assumes "i < length (g_listeners s)"
  shows "reconcile_scan port (g_bind_addrs s) i s =
    (if keeps port s (g_listeners s ! i) then reconcile_scan port (g_bind_addrs s) (Suc i) s
     else reconcile_scan port (g_bind_addrs s) i (drop_listener_slot i port s))"
  by (subst reconcile_scan.simps)
    (use assms in \<open>auto simp: keeps_def wanted_addrs_def is_permanent_addr_def split: prod.splits\<close>)

lemma reconcile_scan_spec:
  assumes "g_listeners s = as @ bs"
  shows "reconcile_scan port (g_bind_addrs s) (length as) s =
    s\<lparr>g_listeners := as @ filter (keeps port s) bs, o_log := o_log s @ concat (map (retired port s) bs)\<rparr>"
  using assms
proof (induction bs arbitrary: as s)
  case Nil
  then show ?case by (subst reconcile_scan.simps) simp
next
  case (Cons e es)
  have n: "length as < length (g_listeners s)" "g_listeners s ! length as = e" by (simp_all add: Cons.prems)
  show ?case
  proof (cases "keeps port s e")
    case True
    with Cons.IH [of s "as @ [e]"] Cons.prems n show ?thesis by (simp add: reconcile_scan_step retired_def)
  next
    case False
    let ?t = "s\<lparr>g_listeners := as @ es, o_log := o_log s @ retired port s e\<rparr>"
    have "drop_listener_slot (length as) port s = ?t" using drop_slot_form [of "length as" s port] n False by (simp add: Cons.prems)
    moreover have "keeps port ?t = keeps port s" "retired port ?t = retired port s" by (simp_all add: fun_eq_iff)
    ultimately show ?thesis using Cons.IH [of ?t as] False n by (simp add: reconcile_scan_step)
  qed
qed

section \<open>Adding listeners\<close>

text \<open>
  What adding listeners for addresses in \<open>W\<close> does, whatever the kernel answers: entries are appended,
  their descriptors come from \<open>socket\<close>, no address is entered twice, and only descriptors just
  obtained are closed.
\<close>

definition lgrow :: "cstring set \<Rightarrow> 'a server_scheme \<Rightarrow> 'a server_scheme \<Rightarrow> bool" where
  "lgrow W s t \<longleftrightarrow> (\<exists>q k1 k2 sn ka new m.
     t = s\<lparr>o_socket := q, k_bind := k1, k_listen := k2, o_sockname := sn, k_accepting := ka,
           g_listeners := g_listeners s @ new, o_log := o_log s @ m\<rparr> \<and>
     set q \<subseteq> set (o_socket s) \<and> snd ` set new \<subseteq> W \<and> fst ` set new \<subseteq> fst ` set (o_socket s) \<and>
     distinct (map snd new) \<and> snd ` set new \<inter> snd ` set (g_listeners s) = {} \<and>
     (\<forall>e \<in> set m. \<exists>f \<in> fst ` set (o_socket s). e = CLOSE f))"

lemma lgrow_refl [simp]: "lgrow W s s"
  unfolding lgrow_def
  by (intro exI [of _ "o_socket s"] exI [of _ "k_bind s"] exI [of _ "k_listen s"] exI [of _ "o_sockname s"]
      exI [of _ "k_accepting s"] exI [of _ "[]"]) simp

lemma lgrow_trans:
  assumes "lgrow W s t" and "lgrow W t u"
  shows "lgrow W s u"
proof -
  from assms(1) obtain q k1 k2 sn ka new m where 1:
    "t = s\<lparr>o_socket := q, k_bind := k1, k_listen := k2, o_sockname := sn, k_accepting := ka,
           g_listeners := g_listeners s @ new, o_log := o_log s @ m\<rparr>"
    "set q \<subseteq> set (o_socket s)" "snd ` set new \<subseteq> W" "fst ` set new \<subseteq> fst ` set (o_socket s)" "distinct (map snd new)"
    "snd ` set new \<inter> snd ` set (g_listeners s) = {}" "\<forall>e \<in> set m. \<exists>f \<in> fst ` set (o_socket s). e = CLOSE f"
    unfolding lgrow_def by (elim exE conjE) (rule that; assumption)
  from assms(2) obtain q' k1' k2' sn' ka' new' m' where 2:
    "u = t\<lparr>o_socket := q', k_bind := k1', k_listen := k2', o_sockname := sn', k_accepting := ka',
           g_listeners := g_listeners t @ new', o_log := o_log t @ m'\<rparr>"
    "set q' \<subseteq> set (o_socket t)" "snd ` set new' \<subseteq> W" "fst ` set new' \<subseteq> fst ` set (o_socket t)" "distinct (map snd new')"
    "snd ` set new' \<inter> snd ` set (g_listeners t) = {}" "\<forall>e \<in> set m'. \<exists>f \<in> fst ` set (o_socket t). e = CLOSE f"
    unfolding lgrow_def by (elim exE conjE) (rule that; assumption)
  have q: "o_socket t = q" "g_listeners t = g_listeners s @ new" by (simp_all add: 1(1))
  have sub: "fst ` set q \<subseteq> fst ` set (o_socket s)" using 1(2) by blast
  show ?thesis unfolding lgrow_def
  proof (intro exI conjI)
    show "u = s\<lparr>o_socket := q', k_bind := k1', k_listen := k2', o_sockname := sn', k_accepting := ka',
           g_listeners := g_listeners s @ (new @ new'), o_log := o_log s @ (m @ m')\<rparr>" by (simp add: 2(1) 1(1))
    show "distinct (map snd (new @ new'))" "snd ` set (new @ new') \<inter> snd ` set (g_listeners s) = {}"
      using 1(5,6) 2(5,6) by (auto simp: q)
    show "\<forall>e \<in> set (m @ m'). \<exists>f \<in> fst ` set (o_socket s). e = CLOSE f"
      using 1(7) 2(7) sub unfolding q by (metis Un_iff set_append subsetD)
    show "set q' \<subseteq> set (o_socket s)" using 1(2) 2(2) by (simp add: q)
    show "snd ` set (new @ new') \<subseteq> W" using 1(3) 2(3) by (simp add: image_Un)
    show "fst ` set (new @ new') \<subseteq> fst ` set (o_socket s)" using 1(4) 2(4) sub by (simp add: q image_Un)
  qed
qed

lemma lgrow_one:
  assumes "o_socket s = (f, e) # q" and "new = [] \<or> new = [(f, ip)] \<and> ip \<in> W \<and> ip \<notin> snd ` set (g_listeners s)" and "m = [] \<or> m = [CLOSE f]"
  shows "lgrow W s (s\<lparr>o_socket := q, k_bind := kb, k_listen := kl, o_sockname := sn, k_accepting := ka,
      g_listeners := g_listeners s @ new, o_log := o_log s @ m\<rparr>)"
  unfolding lgrow_def
  by (intro exI conjI, rule refl) (use assms in \<open>auto simp: image_iff\<close>)

lemma lgrow_add:
  assumes "length ip < INET6_ADDRSTRLEN" and "ip \<in> W" and "ip \<notin> snd ` set (g_listeners s)"
  shows "lgrow W s (snd (add_listener_for_ip ip port s))"
proof (cases "listen_sockaddr ip port s = None \<or> o_socket s = [] \<or> length (g_listeners s) \<ge> MAX_LISTENERS")
  case True
  then have "snd (add_listener_for_ip ip port s) = s" by (auto simp: add_listener_for_ip_def os_socket_def split: option.split)
  then show ?thesis by simp
next
  case False
  then obtain sa f e q where g: "listen_sockaddr ip port s = Some sa" "o_socket s = (f, e) # q" "length (g_listeners s) < MAX_LISTENERS"
    by (metis list.exhaust not_le_imp_less option.exhaust prod.exhaust)
  obtain ok1 q1 where b: "k_take (k_bind s) = (ok1, q1)" by force
  obtain ok2 q2 where l: "k_take (k_listen s) = (ok2, q2)" by force
  note one = lgrow_one [OF g(2)]
  note add = add_listener_for_ip_def [of ip port s, unfolded os_socket_def, simplified g b l Let_def prod.case option.case list.case]
  consider "f < 0" | "f \<ge> 0" "\<not> ok1" | "f \<ge> 0" "ok1" "\<not> ok2" | "f \<ge> 0" "ok1" "ok2" by linarith
  then show ?thesis
  proof cases
    case 1
    then show ?thesis using one [where new = "[]" and ip = ip and W = W and m = "[]" and kb = "k_bind s" and kl = "k_listen s" and sn = "o_sockname s" and ka = "k_accepting s"] g(3) by (simp add: add)
  next
    case 2
    then show ?thesis using one [where new = "[]" and ip = ip and W = W and m = "[CLOSE f]" and kb = q1 and kl = "k_listen s" and sn = "o_sockname s" and ka = "k_accepting s"] g(3)
      by (simp add: add b os_close_def log_ev_def)
  next
    case 3
    then show ?thesis using one [where new = "[]" and ip = ip and W = W and m = "[CLOSE f]" and kb = q1 and kl = q2 and sn = "o_sockname s" and ka = "k_accepting s"] g(3)
      by (simp add: add b l os_close_def log_ev_def)
  next
    case 4
    then show ?thesis
      using one [where new = "[(f, ip)]" and ip = ip and W = W and m = "[]" and kb = q1 and kl = q2 and sn = "(o_sockname s)(f := Some sa)" and ka = "(k_accepting s)(f := True)"] g(3) assms
      by (simp add: add b l)
  qed
qed

lemma lgrow_ensure:
  "length ip < INET6_ADDRSTRLEN \<Longrightarrow> ip \<in> W \<Longrightarrow> lgrow W s (ensure_listener port ip s)"
  by (auto simp: ensure_listener_def intro: lgrow_add)

lemma lgrow_fold:
  "(\<And>ip. ip \<in> set ips \<Longrightarrow> length ip < INET6_ADDRSTRLEN \<and> ip \<in> W) \<Longrightarrow> lgrow W s (foldl (\<lambda>t ip. ensure_listener port ip t) s ips)"
proof (induction ips arbitrary: s)
  case (Cons ip ips)
  then have "lgrow W s (ensure_listener port ip s)"
    "lgrow W (ensure_listener port ip s) (foldl (\<lambda>t ip. ensure_listener port ip t) (ensure_listener port ip s) ips)"
    by (simp_all add: lgrow_ensure)
  then show ?case using lgrow_trans by fastforce
qed simp

section \<open>The table\<close>

definition bind_wf :: "'a server_scheme \<Rightarrow> bool" where
  "bind_wf s \<longleftrightarrow> length (g_bind_addrs s) \<le> MAX_BIND_ADDRS \<and>
     (\<forall>ip \<in> set (g_bind_addrs s). ip \<noteq> [] \<and> length ip < INET6_ADDRSTRLEN)"

definition listeners_wf :: "'a server_scheme \<Rightarrow> bool" where
  "listeners_wf s \<longleftrightarrow> length (g_listeners s) \<le> MAX_LISTENERS \<and> distinct (map snd (g_listeners s)) \<and>
     (\<forall>e \<in> set (g_listeners s). length (snd e) < INET6_ADDRSTRLEN)"

lemma loopback_length: "length LOOPBACK4 < INET6_ADDRSTRLEN" "length LOOPBACK6 < INET6_ADDRSTRLEN"
  by (simp_all add: LOOPBACK4_def LOOPBACK6_def INET6_ADDRSTRLEN_def)

lemma wanted_length: "bind_wf s \<Longrightarrow> ip \<in> set (wanted_addrs s) \<Longrightarrow> length ip < INET6_ADDRSTRLEN"
  using loopback_length by (auto simp: wanted_addrs_def bind_wf_def)

lemma wanted_card: "bind_wf s \<Longrightarrow> length (wanted_addrs s) \<le> MAX_LISTENERS"
  by (simp add: wanted_addrs_def bind_wf_def MAX_LISTENERS_def)

lemma distinct_wanted_length:
  assumes "bind_wf s" and "distinct as" and "set as \<subseteq> set (wanted_addrs s)"
  shows "length as \<le> MAX_LISTENERS"
  using assms wanted_card card_length [of "wanted_addrs s"] card_mono [of "set (wanted_addrs s)" "set as"]
  by (metis List.finite_set distinct_card le_trans)

lemma lgrow_wanted:
  assumes "bind_wf s"
  shows "lgrow (set (wanted_addrs s)) t
    (foldl (\<lambda>t ip. ensure_listener port ip t) (ensure_listener port LOOPBACK6 (ensure_listener port LOOPBACK4 t)) (g_bind_addrs s))"
proof -
  have "lgrow (set (wanted_addrs s)) t (ensure_listener port LOOPBACK4 t)" for t
    by (rule lgrow_ensure) (simp_all add: loopback_length wanted_addrs_def)
  moreover have "lgrow (set (wanted_addrs s)) t (ensure_listener port LOOPBACK6 t)" for t
    by (rule lgrow_ensure) (simp_all add: loopback_length wanted_addrs_def)
  moreover have "lgrow (set (wanted_addrs s)) t (foldl (\<lambda>t ip. ensure_listener port ip t) t (g_bind_addrs s))" for t
    by (rule lgrow_fold) (use assms in \<open>auto simp: bind_wf_def wanted_addrs_def\<close>)
  ultimately show ?thesis using lgrow_trans by blast
qed

lemma next_addrs_length: "n \<le> MAX_BIND_ADDRS \<Longrightarrow> n + length (next_addrs as n) \<le> MAX_BIND_ADDRS"
  by (induction as n rule: next_addrs.induct) (simp_all split: option.split)

lemma next_addrs_entry: "ip \<in> set (next_addrs as n) \<Longrightarrow> \<exists>a. Some a \<in> set as \<and> a \<noteq> [] \<and> ip = str_bounded INET6_ADDRSTRLEN a"
proof (induction as n rule: next_addrs.induct)
  case (2 a as n)
  then show ?case by (simp split: if_splits option.splits) (metis list.set_intros)+
qed simp

lemma set_bind_addrs_wf: "bind_wf (socks5_server_set_bind_addrs addrs s)"
  using next_addrs_length [of 0 addrs] length_str_bounded [of INET6_ADDRSTRLEN]
  by (auto simp: bind_wf_def socks5_server_set_bind_addrs_def str_bounded_def INET6_ADDRSTRLEN_def dest: next_addrs_entry)

section \<open>A kernel that grants everything\<close>

text \<open>
  A text is canonical when the C library prints the address it denotes as that text. The kernel
  grants everything when sockets are available, fresh and distinct, and nothing else is refused.
\<close>

definition canonical :: "cstring \<Rightarrow> 'a server_scheme \<Rightarrow> bool" where
  "canonical ip s \<longleftrightarrow>
     (case inet_pton4 s ip of
        Some a \<Rightarrow> inet_ntop4 s a = ip
      | None \<Rightarrow> (case inet_pton6 s ip of Some a \<Rightarrow> inet_ntop6 s a = ip | None \<Rightarrow> False))"

definition granting :: "'a server_scheme \<Rightarrow> bool" where
  "granting s \<longleftrightarrow> k_bind s = [] \<and> k_listen s = [] \<and> (\<forall>r \<in> set (o_socket s). 0 \<le> fst r) \<and>
     distinct (map fst (o_socket s)) \<and> fst ` set (o_socket s) \<inter> fst ` set (g_listeners s) = {}"

lemma port_of_htons [simp]: "port_of (htons port) = port mod 65536"
proof -
  have "port mod 65536 = port div 256 mod 256 * 256 + port mod 256"
    by (metis add.commute mod_mult2_eq mult.commute mult_numeral_1 numeral_times_numeral semiring_norm(12-18))
  then show ?thesis by (simp add: port_of_def htons_def unat_of_nat take_bit_eq_mod)
qed

lemma listener_bound_ours:
  assumes "canonical ip s" and "listen_sockaddr ip port s = Some sa" and "0 \<le> f"
    and "k_accepting t f" and "o_sockname t f = Some sa" and "inet_ntop4 t = inet_ntop4 s" and "inet_ntop6 t = inet_ntop6 s"
  shows "listener_is_ours f ip port t"
  using assms
  by (auto simp: listener_is_ours_def canonical_def listen_sockaddr_def AF_INET_def AF_INET6_def split: option.splits)

lemma canonical_sockaddr: "canonical ip s \<Longrightarrow> \<exists>sa. listen_sockaddr ip port s = Some sa"
  by (auto simp: canonical_def listen_sockaddr_def split: option.splits)

text \<open>The state of the second half of a reconciliation under such a kernel.\<close>

definition serving :: "nat \<Rightarrow> 'a server_scheme \<Rightarrow> 'a server_scheme \<Rightarrow> bool" where
  "serving port s t \<longleftrightarrow> granting t \<and> (\<forall>e \<in> set (g_listeners t). keeps port t e) \<and> distinct (map snd (g_listeners t)) \<and>
     MAX_LISTENERS \<le> length (o_socket t) + length (g_listeners t) \<and> g_bind_addrs t = g_bind_addrs s \<and>
     server_running t = server_running s \<and> inet_pton4 t = inet_pton4 s \<and> inet_pton6 t = inet_pton6 s \<and>
     inet_ntop4 t = inet_ntop4 s \<and> inet_ntop6 t = inet_ntop6 s"

lemma ensure_serving:
  assumes s: "serving port s t" and c: "canonical ip s" and ip: "ip \<in> set (wanted_addrs s)" and b: "bind_wf s"
  shows "serving port s (ensure_listener port ip t) \<and>
    snd ` set (g_listeners (ensure_listener port ip t)) = insert ip (snd ` set (g_listeners t))"
proof (cases "ip \<in> snd ` set (g_listeners t)")
  case True
  with s show ?thesis by (auto simp: ensure_listener_def)
next
  case False
  have w: "wanted_addrs t = wanted_addrs s" and tc: "canonical ip t" and ln: "length ip < INET6_ADDRSTRLEN"
    using s c wanted_length [OF b ip] by (auto simp: serving_def wanted_addrs_def canonical_def split: option.splits)
  have sub: "set (map snd (g_listeners t)) \<subseteq> set (wanted_addrs s)" using s w by (auto simp: serving_def keeps_def)
  have "length (ip # map snd (g_listeners t)) \<le> MAX_LISTENERS"
    by (rule distinct_wanted_length [OF b]) (use s False sub ip in \<open>auto simp: serving_def\<close>)
  then have room: "length (g_listeners t) < MAX_LISTENERS" by simp
  with s obtain f e q where q: "o_socket t = (f, e) # q" by (cases "o_socket t") (auto simp: serving_def)
  obtain sa where sa: "listen_sockaddr ip port t = Some sa" using canonical_sockaddr [OF tc] by blast
  have g: "granting t" "0 \<le> f" "f \<notin> fst ` set (g_listeners t)" using s q by (auto simp: serving_def granting_def)
  define u where "u = t\<lparr>o_socket := q, o_sockname := (o_sockname t)(f := Some sa), k_accepting := (k_accepting t)(f := True),
      g_listeners := g_listeners t @ [(f, ip)]\<rparr>"
  have u: "ensure_listener port ip t = u" using room q sa g False ln
    by (simp add: ensure_listener_def add_listener_for_ip_def os_socket_def granting_def k_take_def u_def)
  have old: "keeps port u e = keeps port t e" if "e \<in> set (g_listeners t)" for e
  proof -
    have "fst e \<noteq> f" using g(3) that by force
    then show ?thesis by (simp add: keeps_def listener_is_ours_def u_def wanted_addrs_def split: option.split)
  qed
  have "listener_is_ours f ip port u" by (rule listener_bound_ours [OF tc sa g(2)]) (simp_all add: u_def)
  moreover have "wanted_addrs u = wanted_addrs s" using w by (simp add: u_def wanted_addrs_def)
  ultimately have new: "keeps port u (f, ip)" using ip by (simp add: keeps_def)
  have "serving port s u" unfolding serving_def
  proof (intro conjI)
    show "granting u" using g q by (auto simp: granting_def u_def)
    show "\<forall>e \<in> set (g_listeners u). keeps port u e" using s old new by (auto simp: serving_def u_def)
    show "distinct (map snd (g_listeners u))" using s False by (auto simp: serving_def u_def)
    show "MAX_LISTENERS \<le> length (o_socket u) + length (g_listeners u)" using s q by (simp add: serving_def u_def)
  qed (use s in \<open>simp_all add: serving_def u_def\<close>)
  then show ?thesis by (simp add: u) (simp add: u_def)
qed

lemma fold_serving:
  assumes "bind_wf s" and "serving port s t" and "\<And>ip. ip \<in> set ips \<Longrightarrow> canonical ip s \<and> ip \<in> set (wanted_addrs s)"
  shows "serving port s (foldl (\<lambda>t ip. ensure_listener port ip t) t ips) \<and>
    snd ` set (g_listeners (foldl (\<lambda>t ip. ensure_listener port ip t) t ips)) = set ips \<union> snd ` set (g_listeners t)"
  using assms(2,3)
proof (induction ips arbitrary: t)
  case (Cons ip ips)
  then show ?case using ensure_serving [OF Cons.prems(1) _ _ assms(1), of ip] by auto
qed simp

text \<open>A table that serves everything wanted is left alone.\<close>

lemma ensure_present: "ip \<in> snd ` set (g_listeners t) \<Longrightarrow> ensure_listener port ip t = t"
  by (simp add: ensure_listener_def)

lemma reconcile_stable:
  assumes "\<forall>e \<in> set (g_listeners t). keeps port t e" and "snd ` set (g_listeners t) = set (wanted_addrs t)"
  shows "reconcile_listeners port t = t"
proof (cases "server_running t")
  case True
  have "filter (keeps port t) (g_listeners t) = g_listeners t" "concat (map (retired port t) (g_listeners t)) = []"
    using assms(1) by (auto simp: retired_def)
  then have "reconcile_scan port (g_bind_addrs t) 0 t = t" using reconcile_scan_spec [of t "[]" "g_listeners t" port] by simp
  moreover have "foldl (\<lambda>t ip. ensure_listener port ip t) t ips = t" if "set ips \<subseteq> set (wanted_addrs t)" for ips
    using that assms(2) by (induction ips) (auto simp: ensure_present)
  from this [of "g_bind_addrs t"] this [of "[LOOPBACK4]"] this [of "[LOOPBACK6]"]
  have "foldl (\<lambda>t ip. ensure_listener port ip t) t (g_bind_addrs t) = t"
    "ensure_listener port LOOPBACK4 t = t" "ensure_listener port LOOPBACK6 t = t" by (auto simp: wanted_addrs_def)
  ultimately show ?thesis using True by (simp add: reconcile_listeners_def)
qed (simp add: reconcile_listeners_def)

lemma reconcile_outcome:
  assumes "server_running s" and "bind_wf s" and "listeners_wf s"
  shows "\<exists>new m. g_listeners (reconcile_listeners port s) = filter (keeps port s) (g_listeners s) @ new \<and>
    fst ` set new \<subseteq> fst ` set (o_socket s) \<and> listeners_wf (reconcile_listeners port s) \<and>
    snd ` set (g_listeners (reconcile_listeners port s)) \<subseteq> set (wanted_addrs s) \<and>
    o_log (reconcile_listeners port s) = o_log s @ concat (map (retired port s) (g_listeners s)) @ m \<and>
    (\<forall>e \<in> set m. \<exists>f \<in> fst ` set (o_socket s). e = CLOSE f)"
proof -
  define t where "t = reconcile_scan port (g_bind_addrs s) 0 s"
  define u where "u = reconcile_listeners port s"
  have t: "t = s\<lparr>g_listeners := filter (keeps port s) (g_listeners s), o_log := o_log s @ concat (map (retired port s) (g_listeners s))\<rparr>"
    using reconcile_scan_spec [of s "[]" "g_listeners s" port] by (simp add: t_def)
  have "lgrow (set (wanted_addrs s)) t u"
    using lgrow_wanted [OF assms(2), of t port] assms(1) by (simp add: u_def t_def reconcile_listeners_def Let_def)
  then obtain new m where g: "g_listeners u = filter (keeps port s) (g_listeners s) @ new" "o_log u = o_log t @ m"
    "snd ` set new \<subseteq> set (wanted_addrs s)" "fst ` set new \<subseteq> fst ` set (o_socket s)" "distinct (map snd new)"
    "snd ` set new \<inter> snd ` set (g_listeners t) = {}" "\<forall>e \<in> set m. \<exists>f \<in> fst ` set (o_socket s). e = CLOSE f"
    unfolding lgrow_def by (elim exE conjE) (rule that; simp add: t)
  have sub: "snd ` set (g_listeners u) \<subseteq> set (wanted_addrs s)" using g(1,3) by (auto simp: keeps_def)
  moreover have d: "distinct (map snd (g_listeners u))"
    using g(1,5,6) assms(3) by (auto simp: t listeners_wf_def distinct_map_filter)
  moreover have "length (map snd (g_listeners u)) \<le> MAX_LISTENERS"
    by (rule distinct_wanted_length [OF assms(2) d]) (use sub in simp)
  ultimately have "listeners_wf u" using wanted_length [OF assms(2)] by (auto simp: listeners_wf_def)
  then show ?thesis using g sub by (intro exI [of _ new] exI [of _ m]) (simp add: t flip: u_def)
qed

section \<open>Properties\<close>

text \<open>
  C30. A reconciliation of the listener table, whatever the kernel answers: the table keeps, in
  order, exactly the entries whose address is still wanted (configured or loopback) and whose
  descriptor is still the server's listener on that address, and appends listeners on sockets just
  obtained; addresses stay distinct, wanted and within the 18 entries of the table. The only
  descriptors closed are the server's own listeners on addresses no longer wanted and sockets
  obtained in this call: a descriptor number that the kernel has given to something else is dropped
  from the table unclosed.
\<close>

theorem reconcile_keeps_own:
  assumes "server_running s" and "bind_wf s" and "listeners_wf s"
  shows "\<exists>new m. g_listeners (reconcile_listeners port s) = filter (keeps port s) (g_listeners s) @ new \<and>
    fst ` set new \<subseteq> fst ` set (o_socket s) \<and> listeners_wf (reconcile_listeners port s) \<and>
    snd ` set (g_listeners (reconcile_listeners port s)) \<subseteq> set (wanted_addrs s) \<and>
    o_log (reconcile_listeners port s) = o_log s @ concat (map (retired port s) (g_listeners s)) @ m \<and>
    (\<forall>e \<in> set m. \<exists>f \<in> fst ` set (o_socket s). e = CLOSE f)"
  by (rule reconcile_outcome [OF assms])

text \<open>With a willing kernel the loop that adds listeners ends with all of them.\<close>

lemma reconcile_reaches:
  assumes "server_running s" and "bind_wf s" and "listeners_wf s" and "granting s" and "MAX_LISTENERS \<le> length (o_socket s)"
    and "\<forall>ip \<in> set (wanted_addrs s). canonical ip s"
  shows "snd ` set (g_listeners (reconcile_listeners port s)) = set (wanted_addrs s) \<and>
    (\<forall>(f, ip) \<in> set (g_listeners (reconcile_listeners port s)). listener_is_ours f ip port (reconcile_listeners port s)) \<and>
    distinct (map snd (g_listeners (reconcile_listeners port s))) \<and>
    reconcile_listeners port (reconcile_listeners port s) = reconcile_listeners port s"
proof -
  define t where "t = reconcile_scan port (g_bind_addrs s) 0 s"
  define u where "u = reconcile_listeners port s"
  have t: "t = s\<lparr>g_listeners := filter (keeps port s) (g_listeners s), o_log := o_log s @ concat (map (retired port s) (g_listeners s))\<rparr>"
    using reconcile_scan_spec [of s "[]" "g_listeners s" port] by (simp add: t_def)
  have "serving port s t" using assms(3,4,5) by (auto simp: serving_def granting_def t listeners_wf_def distinct_map_filter)
  note f = fold_serving [OF assms(2) this]
  have "u = foldl (\<lambda>t ip. ensure_listener port ip t) t (wanted_addrs s)"
    using assms(1) by (simp add: u_def t_def reconcile_listeners_def Let_def wanted_addrs_def)
  with f [of "wanted_addrs s"] assms(6)
  have u: "serving port s u" "snd ` set (g_listeners u) = set (wanted_addrs s) \<union> snd ` set (g_listeners t)" by auto
  then have w: "wanted_addrs u = wanted_addrs s" by (simp add: serving_def wanted_addrs_def)
  have all: "snd ` set (g_listeners u) = set (wanted_addrs s)" using u by (auto simp: t keeps_def)
  then have "reconcile_listeners port u = u" using u(1) w by (intro reconcile_stable) (simp_all add: serving_def)
  then show ?thesis using u(1) all by (auto simp: serving_def keeps_def simp flip: u_def)
qed

text \<open>
  C31. Convergence. Provided that every configured address is written in the form the C library prints
  (an address written otherwise is given up at every pass), that the kernel refuses no bind and no
  listen, and that it still has a socket for every table entry, one reconciliation leaves a listener of
  the server on every configured address and both loopbacks and on nothing else, one per address, and
  a second one changes nothing at all.
\<close>

theorem reconcile_converges:
  assumes "server_running s" and "bind_wf s" and "listeners_wf s" and "granting s" and "MAX_LISTENERS \<le> length (o_socket s)"
    and "\<forall>ip \<in> set (wanted_addrs s). canonical ip s"
  shows "snd ` set (g_listeners (reconcile_listeners port s)) = set (wanted_addrs s) \<and>
    (\<forall>(f, ip) \<in> set (g_listeners (reconcile_listeners port s)). listener_is_ours f ip port (reconcile_listeners port s)) \<and>
    distinct (map snd (g_listeners (reconcile_listeners port s))) \<and>
    reconcile_listeners port (reconcile_listeners port s) = reconcile_listeners port s"
  by (rule reconcile_reaches [OF assms])

text \<open>A C library that knows the loopbacks and \<open>10.0.0.1\<close>, and a server configured for that address.\<close>

definition LAN1 :: cstring where "LAN1 = [0x31, 0x30, 0x2e, 0x30, 0x2e, 0x30, 0x2e, 0x31]"

definition lan_server :: server where
  "lan_server = socks5_server_set_bind_addrs [None, Some [], Some LAN1]
     ((server_boot ([LOOPBACK4 \<mapsto> [127, 0, 0, 1], LAN1 \<mapsto> [10, 0, 0, 1]]) ([LOOPBACK6 \<mapsto> replicate 15 0 @ [1]])
        (\<lambda>a. if a = [10, 0, 0, 1] then LAN1 else LOOPBACK4) (\<lambda>a. LOOPBACK6))
      \<lparr>server_running := True, o_socket := map (\<lambda>k. (int k, 0)) [50..<70]\<rparr>)"

lemma addr_texts: "LOOPBACK4 \<noteq> LAN1" "LOOPBACK6 \<noteq> LAN1" "LOOPBACK4 \<noteq> LOOPBACK6" "LOOPBACK6 \<noteq> LOOPBACK4" "LAN1 \<noteq> []" "length LAN1 < INET6_ADDRSTRLEN"
  "LAN1 \<noteq> LOOPBACK4" "LAN1 \<noteq> LOOPBACK6"
  by (simp_all add: LOOPBACK4_def LOOPBACK6_def LAN1_def INET6_ADDRSTRLEN_def)

lemma server_boot_kernel [simp]:
  "k_bind (server_boot p4 p6 n4 n6) = []" "k_listen (server_boot p4 p6 n4 n6) = []"
  "inet_pton4 (server_boot p4 p6 n4 n6) = p4" "inet_pton6 (server_boot p4 p6 n4 n6) = p6"
  by (simp_all add: server_boot_def udp.defs server.defs udp_boot_def tcp.defs)

lemma lan_server_simps [simp]:
  "server_running lan_server" "g_bind_addrs lan_server = [LAN1]" "g_listeners lan_server = []"
  "k_bind lan_server = []" "k_listen lan_server = []" "o_socket lan_server = map (\<lambda>k. (int k, 0)) [50..<70]"
  by (simp_all add: lan_server_def socks5_server_set_bind_addrs_def MAX_BIND_ADDRS_def addr_texts)

lemma lan_server_canonical: "\<forall>ip \<in> set (wanted_addrs lan_server). canonical ip lan_server"
  by (auto simp: wanted_addrs_def canonical_def addr_texts)
    (simp_all add: lan_server_def socks5_server_set_bind_addrs_def addr_texts)

lemma lan_server_wf: "bind_wf lan_server" "listeners_wf lan_server" "granting lan_server" "MAX_LISTENERS \<le> length (o_socket lan_server)"
  by (simp_all add: bind_wf_def listeners_wf_def granting_def addr_texts MAX_BIND_ADDRS_def MAX_LISTENERS_def distinct_map comp_def inj_on_def)

theorem reconcile_converges_witness:
  "snd ` set (g_listeners (reconcile_listeners 1080 lan_server)) = {LOOPBACK4, LOOPBACK6, LAN1} \<and>
   reconcile_listeners 1080 (reconcile_listeners 1080 lan_server) = reconcile_listeners 1080 lan_server"
  using reconcile_converges [OF lan_server_simps(1) lan_server_wf lan_server_canonical, of 1080]
  by (auto simp: wanted_addrs_def)

theorem reconcile_keeps_own_witness:
  "listeners_wf (reconcile_listeners 1080 lan_server) \<and>
   fst ` set (g_listeners (reconcile_listeners 1080 lan_server)) \<subseteq> int ` {50..<70}"
  using reconcile_keeps_own [OF lan_server_simps(1) lan_server_wf(1,2), of 1080] by (auto simp: image_image)

text \<open>
  An address configured in another form than the one the C library prints is given up at every
  reconciliation: its listener leaves the table and is not closed, so the descriptor is lost while
  the port stays bound.
\<close>

theorem noncanonical_listener_abandoned:
  assumes "server_running s" and "bind_wf s" and "listeners_wf s" and "(f, ip) \<in> set (g_listeners s)" and "distinct (map fst (g_listeners s))"
    and "o_sockname s f = Some \<lparr>sa_family = AF_INET6, sa_addr = a, sa_port = htons port\<rparr>" and "inet_ntop6 s a \<noteq> ip"
    and "f \<notin> fst ` set (o_socket s)"
  shows "f \<notin> fst ` set (g_listeners (reconcile_listeners port s)) \<and>
    (\<exists>m. o_log (reconcile_listeners port s) = o_log s @ m \<and> CLOSE f \<notin> set m)"
proof -
  have no: "\<not> listener_is_ours f ip port s" using assms(6,7) by (simp add: listener_is_ours_def AF_INET_def AF_INET6_def)
  have only: "snd e = ip" if "e \<in> set (g_listeners s)" "fst e = f" for e
    using that assms(4,5) by (metis eq_key_imp_eq_value prod.collapse)
  from reconcile_outcome [OF assms(1-3), of port] obtain new m where
    o: "g_listeners (reconcile_listeners port s) = filter (keeps port s) (g_listeners s) @ new"
    "fst ` set new \<subseteq> fst ` set (o_socket s)"
    "o_log (reconcile_listeners port s) = o_log s @ concat (map (retired port s) (g_listeners s)) @ m"
    "\<forall>e \<in> set m. \<exists>f \<in> fst ` set (o_socket s). e = CLOSE f" by (elim exE conjE) (rule that; assumption)
  have "f \<notin> fst ` set (g_listeners (reconcile_listeners port s))"
  proof
    assume "f \<in> fst ` set (g_listeners (reconcile_listeners port s))"
    then obtain e where e: "fst e = f" "e \<in> set (g_listeners s) \<and> keeps port s e \<or> e \<in> set new" by (auto simp: o(1))
    then show False using only [of e] no o(2) assms(8) by (auto simp: keeps_def)
  qed
  moreover have "CLOSE f \<notin> set (concat (map (retired port s) (g_listeners s)))"
  proof
    assume "CLOSE f \<in> set (concat (map (retired port s) (g_listeners s)))"
    then obtain e where "e \<in> set (g_listeners s)" "CLOSE f \<in> set (retired port s e)" by auto
    then show False using only [of e] no by (auto simp: retired_def split: if_splits)
  qed
  moreover have "CLOSE f \<notin> set m" using o(4) assms(8) by auto
  ultimately have "CLOSE f \<notin> set (concat (map (retired port s) (g_listeners s)) @ m)" by (simp del: set_concat)
  with \<open>f \<notin> fst ` set (g_listeners (reconcile_listeners port s))\<close> show ?thesis using o(3) by blast
qed

end
