(* ===== verification/Engines.thy ===== *)
theory Engines
  imports Handshake
begin

unbundle bit_operations_syntax

text \<open>
  The two engines in one process. They share the process, the kernel and \<open>g_conn_count\<close>, and nothing
  else: no UDP operation touches a table of the TCP engine and conversely. So the invariants of
  both hold together, with the count split exactly between the slots in use on either side.
\<close>

section \<open>UDP operations leave the TCP tables alone\<close>

definition tcp_tabs :: "'a tcp_scheme \<Rightarrow> (nat \<Rightarrow> full_conn) \<times> (nat \<Rightarrow> bool) \<times> nat list \<times> nat \<times> (nat \<Rightarrow> nat option) \<times> u32" where
  "tcp_tabs s = (g_slots s, g_slot_state s, g_free_slots s, g_free_slot_top s, conn_list_head s, next_worker_idx s)"

text \<open>
  What a UDP operation must not touch: the TCP tables, the running flag, the address parser of the C
  library and what extends the UDP state.
\<close>

definition outside :: "'a udp_scheme \<Rightarrow> ((nat \<Rightarrow> full_conn) \<times> (nat \<Rightarrow> bool) \<times> nat list \<times> nat \<times> (nat \<Rightarrow> nat option) \<times> u32) \<times> bool \<times>
    ((cstring \<Rightarrow> byte list option) \<times> (cstring \<Rightarrow> byte list option)) \<times> 'a" where
  "outside s = (tcp_tabs s, server_running s, (inet_pton4 s, inet_pton6 s), udp.more s)"

definition udp_only :: "'a udp_scheme \<Rightarrow> 'a udp_scheme \<Rightarrow> bool" where
  "udp_only s t \<longleftrightarrow> outside t = outside s"

lemma outside_upd [simp]: "outside (upd_sess i f s) = outside s" "outside (upd_job w k g s) = outside s"
  by (simp_all add: outside_def tcp_tabs_def upd_sess_def upd_job_def)

lemma outside_send_5g [simp]: "outside (udp_send_5g i p dst s) = outside s"
  using udp_send_5g_form [of i p dst s] by (auto simp: outside_def tcp_tabs_def)

lemma outside_claim: "claim_job w host port s = (ji, t) \<Longrightarrow> outside t = outside s"
  by (auto simp: claim_job_def udp_dns_enqueue_def upd_job_def Let_def outside_def tcp_tabs_def split: option.splits if_splits)

lemma outside_route [simp]: "outside (udp_route_frame i atyp addr port payload s) = outside s"
proof -
  have drop: "outside (t\<lparr>g_dns_st_drop := n\<rparr>) = outside t" "outside (upd_pend i k f t) = outside t" for t :: "'a udp_scheme" and n k f
    by (simp_all add: outside_def tcp_tabs_def upd_pend_def upd_sess_def)
  have "outside (udp_dns_defer i host port payload s) = outside s" for host
    unfolding udp_dns_defer_def Let_def by (auto split: prod.split option.split dest!: outside_claim simp: drop)
  then show ?thesis unfolding udp_route_frame_def Let_def by (auto split: option.split)
qed

interpretation uo: data_frame udp_only
  by unfold_locales (auto simp: udp_only_def, simp_all add: outside_def tcp_tabs_def dns_cache_put_def Let_def)

lemma outside_data [simp]:
  "outside (udp_update_events w i s) = outside s" "outside (udp_dns_drain w s) = outside s"
  "udp_session_event i role ev s = (b, t) \<Longrightarrow> outside t = outside s"
  using uo.update_events [of s w i] uo.drain [of s w] uo.session_event [of i role ev s b t] by (simp_all add: udp_only_def)

lemma outside_prim [simp]:
  "outside (udp_list_remove w i s) = outside s" "outside (udp_list_add w i s) = outside s"
  "outside (os_close f s') = outside s'" "outside (release_java_socket f s') = outside s'"
  "outside (udp_slot_release i s) = outside s" "outside (count_close i s) = outside s"
  "outside (s'\<lparr>g_conn_count := n\<rparr>) = outside s'" "outside (s\<lparr>g_udp_next_worker := nw\<rparr>) = outside s"
  by (simp_all add: outside_def tcp_tabs_def udp_list_remove_def udp_list_add_def os_close_def release_java_socket_def log_ev_def
      udp_slot_release_def count_close_def Let_def upd_sess_def split: option.split)

lemma outside_unref [simp]: "outside (udp_conn_unref i s) = outside s"
proof -
  have "outside (close_sess_fds i t) = outside t" for t :: "'a udp_scheme" by (simp add: close_sess_fds_def Let_def)
  then have "outside (udp_conn_finalize i t) = outside t" for t :: "'a udp_scheme"
    by (simp add: udp_conn_finalize_def Let_def) (simp add: outside_def tcp_tabs_def)
  then show ?thesis by (simp add: udp_conn_unref_def Let_def)
qed

lemma outside_unref_all [simp]: "outside (udp_unref_all g s) = outside s"
  by (induction g arbitrary: s) (simp_all add: udp_unref_all_def)

lemma outside_event: "udp_worker_event w now e (s, g) = (t, g') \<Longrightarrow> outside t = outside s"
  by (auto simp: udp_worker_event_def udp_outcome_def Let_def split: prod.splits if_splits udp_event_disp.splits)
    (simp_all add: outside_def tcp_tabs_def)

lemma outside_events: "udp_worker_events w now es (s, g) = (ex, t, g') \<Longrightarrow> outside t = outside s"
proof (induction es arbitrary: s g)
  case (Cons e es)
  obtain s1 g1 where e: "udp_worker_event w now e (s, g) = (s1, g1)" by force
  from Cons.IH [of s1 g1] Cons.prems outside_event [OF e] show ?case by (auto simp: e split: if_splits)
qed simp

lemma outside_scan: "outside (fst (udp_scan_loop n w now cur sg)) = outside (fst sg)"
proof (induction n arbitrary: cur sg)
  case (Suc n)
  have "outside (fst (udp_scan_sess w now i sg)) = outside (fst sg)" for i
    by (auto simp: udp_scan_sess_def Let_def split: prod.split)
  with Suc show ?case by (simp add: Let_def split: option.split)
qed simp

lemma outside_iteration:
  assumes "udp_worker_iteration w now es lc s = (ex, t, g, lc')"
  shows "outside t = outside s"
proof -
  obtain x s1 g1 where e: "udp_worker_events w now es (s, []) = (x, s1, g1)" by (metis prod.exhaust)
  obtain s2 g2 where c: "udp_scan_loop UDP_SLOT_COUNT w now (udp_list_head s1 w) (s1, g1) = (s2, g2)" by force
  show ?thesis using assms outside_events [OF e] outside_scan [of UDP_SLOT_COUNT w now "udp_list_head s1 w" "(s1, g1)"]
    by (auto simp: udp_worker_iteration_def e c split: bool.splits if_splits)
qed

lemma outside_drain_batch: "outside (snd (udp_drain_batch n w cur g s)) = outside s"
  by (induction n arbitrary: cur g s) (simp_all add: Let_def split: option.split)

lemma outside_exit [simp]: "outside (udp_worker_exit w g s) = outside s"
proof -
  have d: "outside t' = outside t" if "udp_drain_loop w t = Some t'" for t t' :: "'a udp_scheme"
    using udp_drain_loop_rel [OF that, where R = "\<lambda>v u. outside u = outside v"] by (simp add: outside_drain_batch)
  have "outside (s\<lparr>uw_stopping := (uw_stopping s)(w := True)\<rparr>) = outside s" by (simp add: outside_def tcp_tabs_def)
  then show ?thesis using d by (auto simp: udp_worker_exit_def Let_def split: option.split)
qed

lemma outside_os [simp]: "outside (snd (os_send s f bs)) = outside s" "outside (send_zero_reply f r s) = outside s"
  by (auto simp: send_zero_reply_def os_send_def log_ev_def Let_def outside_def tcp_tabs_def split: list.split)

lemma outside_calls:
  "os_epoll_ctl s op ep f ev x = (b, t) \<Longrightarrow> outside t = outside s" "os_malloc s = (b, t) \<Longrightarrow> outside t = outside s"
  "os_socket s = (r, t) \<Longrightarrow> outside t = outside s" "request_java_5g_socket s = (r, t) \<Longrightarrow> outside t = outside s"
  by (auto simp: os_epoll_ctl_def os_malloc_def os_socket_def request_java_5g_socket_def log_ev_def outside_def tcp_tabs_def split: list.splits if_splits)

lemma outside_opened:
  "open_associate i cf s = (b, t) \<Longrightarrow> outside t = outside s" "open_udp_in_tcp i cf s = (b, t) \<Longrightarrow> outside t = outside s"
proof -
  have relay: "relay_socket s = (r, t) \<Longrightarrow> outside t = outside s" for r t
    by (auto simp: relay_socket_def split: prod.splits if_splits dest!: outside_calls)
  show "open_associate i cf s = (b, t) \<Longrightarrow> outside t = outside s"
    by (auto simp: open_associate_def refuse_session_def Let_def split: prod.splits if_splits option.splits dest!: relay outside_calls)
  show "open_udp_in_tcp i cf s = (b, t) \<Longrightarrow> outside t = outside s"
    by (auto simp: open_udp_in_tcp_def refuse_session_def split: prod.splits if_splits dest!: outside_calls)
qed

lemma outside_admit [simp]: "outside (admit_sess w i s) = outside s"
proof -
  have "register_sess ep i s = (b, t) \<Longrightarrow> outside t = outside s" for ep b t and s :: "'a udp_scheme"
    by (auto simp: register_sess_def Let_def split: prod.splits bool.splits if_splits dest!: outside_calls)
  then show ?thesis by (auto simp: admit_sess_def split: prod.split bool.split)
qed

lemma outside_start: "udp_start_session cf cmd s = Some t \<Longrightarrow> outside t = outside s"
proof -
  assume st: "udp_start_session cf cmd s = Some t"
  let ?s0 = "s\<lparr>g_conn_count := g_conn_count s + 1\<rparr>"
  obtain oi s1 where acq: "udp_slot_acquire ?s0 = (oi, s1)" by force
  have a: "outside s1 = outside s"
    using acq by (auto simp: udp_slot_acquire_def Let_def outside_def tcp_tabs_def split: if_splits)
  show ?thesis
  proof (cases "g_conn_count s \<ge> MAX_CONCURRENT_CONNS \<or> oi = None")
    case True
    then show ?thesis using st a by (cases "g_conn_count s \<ge> MAX_CONCURRENT_CONNS") (auto simp: udp_start_session_def Let_def acq)
  next
    case False
    then obtain i where i: "oi = Some i" by auto
    obtain b1 s3 b2 s4 where m: "os_malloc (s1\<lparr>g_udp_next_worker := g_udp_next_worker s1 + 1\<rparr>) = (b1, s3)" "os_malloc s3 = (b2, s4)" by force
    have a4: "outside s4 = outside s" using outside_calls(2) [OF m(1)] outside_calls(2) [OF m(2)] a by simp
    show ?thesis using st False i a4
      by (auto simp: udp_start_session_def Let_def acq m split: if_splits prod.splits bool.splits dest!: outside_opened)
  qed
qed

section \<open>TCP operations leave the UDP tables alone\<close>

text \<open>The state of the UDP engine and of the server is the extension of the TCP engine's record; the
  running flag is part of that record, but no operation of the engine writes it.\<close>

lemma more_upd [simp]: "tcp.more (upd_conn i f s) = tcp.more s \<and> server_running (upd_conn i f s) = server_running s"
  by (simp add: upd_conn_def)

lemma more_links [simp]: "tcp.more (list_remove_locked w i s) = tcp.more s \<and> server_running (list_remove_locked w i s) = server_running s" "tcp.more (list_add_locked w i s) = tcp.more s \<and> server_running (list_add_locked w i s) = server_running s"
  by (simp_all add: list_remove_locked_def list_add_locked_def Let_def split: option.split)

lemma more_prim [simp]:
  "tcp.more (os_close f s) = tcp.more s \<and> server_running (os_close f s) = server_running s" "tcp.more (release_java_socket f s) = tcp.more s \<and> server_running (release_java_socket f s) = server_running s"
  "tcp.more (slot_release i s) = tcp.more s \<and> server_running (slot_release i s) = server_running s" "tcp.more (snd (os_send s f bs)) = tcp.more s \<and> server_running (snd (os_send s f bs)) = server_running s" "tcp.more (send_zero_reply f r s) = tcp.more s \<and> server_running (send_zero_reply f r s) = server_running s"
  by (auto simp: os_close_def release_java_socket_def log_ev_def slot_release_def os_send_def send_zero_reply_def Let_def split: list.split)

lemma more_unref [simp]: "tcp.more (conn_unref i s) = tcp.more s \<and> server_running (conn_unref i s) = server_running s"
proof -
  have "tcp.more (conn_finalize i t) = tcp.more t \<and> server_running (conn_finalize i t) = server_running t" for t :: "'a tcp_scheme"
    by (simp add: conn_finalize_def close_client_def close_target_def Let_def)
  then show ?thesis by (simp add: conn_unref_def Let_def)
qed

lemma more_unref_all [simp]: "tcp.more (unref_all g s) = tcp.more s \<and> server_running (unref_all g s) = server_running s"
  by (induction g arbitrary: s) (simp_all add: unref_all_def)

lemma more_calls:
  "os_epoll_ctl s op ep f ev x = (b, t) \<Longrightarrow> tcp.more t = tcp.more s \<and> server_running t = server_running s" "os_malloc s = (b, t) \<Longrightarrow> tcp.more t = tcp.more s \<and> server_running t = server_running s"
  "os_recv s f n = (r, t) \<Longrightarrow> tcp.more t = tcp.more s \<and> server_running t = server_running s" "os_send s f bs = (q, t) \<Longrightarrow> tcp.more t = tcp.more s \<and> server_running t = server_running s"
  by (auto simp: os_epoll_ctl_def os_malloc_def os_recv_def os_send_def log_ev_def Let_def split: list.splits if_splits rres.splits)

lemma more_try_send: "try_send_loop s f buf len off tot = (r, t) \<Longrightarrow> tcp.more t = tcp.more (s :: 'a tcp_scheme) \<and> server_running t = server_running s"
proof (induction s f buf len off tot arbitrary: r t rule: try_send_loop.induct)
  case (1 s f buf len off tot)
  obtain n e s1 where os: "os_send s f (take (len - off) (drop off buf)) = ((n, e), s1)" by (metis prod.exhaust)
  show ?case
  proof (cases "off < len \<and> n > 0")
    case True
    with "1.IH" [OF _ os [symmetric] refl] "1.prems" os more_calls(4) [OF os] show ?thesis by (simp add: try_send_loop.simps [of s])
  next
    case False
    then show ?thesis using "1.prems" os more_calls(4) [OF os] by (auto simp: try_send_loop.simps [of s] split: if_splits)
  qed
qed

lemma more_sends:
  "send_t2c i s = (r, t) \<Longrightarrow> tcp.more t = tcp.more s \<and> server_running t = server_running s" "send_c2t w i s = (r, t) \<Longrightarrow> tcp.more t = tcp.more s \<and> server_running t = server_running s"
  by (auto simp: send_t2c_def send_c2t_def try_send_def account_upload_def Let_def split: prod.splits if_splits dest!: more_try_send)

lemma more_forward: "forward_data w i now s = (b, t) \<Longrightarrow> tcp.more t = tcp.more s \<and> server_running t = server_running s"
proof -
  have f: "flush_to_client i (b, s) = (c, t) \<Longrightarrow> tcp.more t = tcp.more s \<and> server_running t = server_running s" "flush_to_target w i (b, s) = (c, t) \<Longrightarrow> tcp.more t = tcp.more s \<and> server_running t = server_running s"
    for b c and s t :: "'a tcp_scheme"
    by (auto simp: flush_to_client_def flush_to_target_def split: prod.splits if_splits dest!: more_sends)
  have r: "read_from_client w i now (b, s) = (c, t) \<Longrightarrow> tcp.more t = tcp.more s \<and> server_running t = server_running s" "read_from_target w i (b, s) = (c, t) \<Longrightarrow> tcp.more t = tcp.more s \<and> server_running t = server_running s"
    for b c and s t :: "'a tcp_scheme"
    by (auto simp: read_from_client_def read_from_target_def Let_def split: prod.splits if_splits dest!: more_sends more_calls)
  assume "forward_data w i now s = (b, t)"
  then show ?thesis unfolding forward_data_def by (metis f r prod.collapse)
qed

lemma more_relay: "relay_event w i tgt ev now (s, g) = (t, g') \<Longrightarrow> tcp.more t = tcp.more s \<and> server_running t = server_running s"
proof -
  have "tcp.more (conn_mod ep f ev u i upd s) = tcp.more s \<and> server_running (conn_mod ep f ev u i upd s) = server_running s" for ep f ev u upd and s :: "'a tcp_scheme"
    by (auto simp: conn_mod_def split: prod.split dest!: more_calls)
  then have u: "tcp.more (update_conn_events ep i s) = tcp.more s \<and> server_running (update_conn_events ep i s) = server_running s" for ep and s :: "'a tcp_scheme"
    by (simp add: update_conn_events_def Let_def split: prod.split)
  have "relay_io w i tgt ev now s = (b, t) \<Longrightarrow> tcp.more t = tcp.more s \<and> server_running t = server_running s" for b t
    by (auto simp: relay_io_def Let_def split: prod.splits if_splits dest!: more_forward)
  then show "relay_event w i tgt ev now (s, g) = (t, g') \<Longrightarrow> tcp.more t = tcp.more s \<and> server_running t = server_running s"
    by (auto simp: relay_event_def u Let_def split: prod.splits if_splits)
qed

lemma more_ghost [simp]: "tcp.more (ghost_stuck_track u now s) = tcp.more s \<and> server_running (ghost_stuck_track u now s) = server_running s" "tcp.more (ghost_stamp_record u cf tf w s) = tcp.more s \<and> server_running (ghost_stamp_record u cf tf w s) = server_running s"
proof -
  have "stamp_purge u t = (b, t') \<Longrightarrow> tcp.more t' = tcp.more t \<and> server_running t' = server_running t" for b and t t' :: "'a tcp_scheme"
    by (auto simp: stamp_purge_def Let_def split: option.splits if_splits)
  then show "tcp.more (ghost_stuck_track u now s) = tcp.more s \<and> server_running (ghost_stuck_track u now s) = server_running s" by (auto simp: ghost_stuck_track_def Let_def split: prod.split bool.split)
qed (simp add: ghost_stamp_record_def Let_def)

lemma more_events: "worker_events w now es (s, g) = (ex, t, g') \<Longrightarrow> tcp.more t = tcp.more s \<and> server_running t = server_running s"
proof (induction es arbitrary: s g)
  case (Cons e es)
  obtain s1 g1 where e: "worker_event w now e (s, g) = (s1, g1)" by force
  have "tcp.more s1 = tcp.more s \<and> server_running s1 = server_running s" using e
    by (auto simp: worker_event_def Let_def split: prod.splits if_splits conn_event_disp.splits dest!: more_relay)
  with Cons.IH [of s1 g1] Cons.prems show ?case by (auto simp: e split: if_splits)
qed simp

lemma more_scan: "tcp.more (fst (scan_loop n w now cur sg)) = tcp.more (fst sg) \<and> server_running (fst (scan_loop n w now cur sg)) = server_running (fst sg)"
proof (induction n arbitrary: cur sg)
  case (Suc n)
  have "tcp.more (fst (scan_conn w now i sg)) = tcp.more (fst sg) \<and> server_running (fst (scan_conn w now i sg)) = server_running (fst sg)" for i by (auto simp: scan_conn_def Let_def split: prod.split)
  with Suc show ?case by (simp add: Let_def split: option.split)
qed simp

lemma more_iteration:
  assumes "worker_iteration w now es lc s = (ex, t, g, lc')"
  shows "tcp.more t = tcp.more s \<and> server_running t = server_running s"
proof -
  obtain x s1 g1 where e: "worker_events w now es (s, []) = (x, s1, g1)" by (metis prod.exhaust)
  obtain s2 g2 where c: "scan_loop CONN_SLOT_COUNT w now (conn_list_head s1 w) (s1, g1) = (s2, g2)" by force
  show ?thesis using assms more_events [OF e] more_scan [of CONN_SLOT_COUNT w now "conn_list_head s1 w" "(s1, g1)"]
    by (cases x) (auto simp: worker_iteration_def e c split: if_splits)
qed

lemma more_exit [simp]: "tcp.more (worker_exit w g s) = tcp.more s \<and> server_running (worker_exit w g s) = server_running s"
proof -
  have b: "tcp.more (snd (snd (drain_batch n w cur c t))) = tcp.more t \<and> server_running (snd (snd (drain_batch n w cur c t))) = server_running t" for n cur c and t :: "'a tcp_scheme"
    by (induction n arbitrary: cur c t) (simp_all add: Let_def split: option.split)
  have "tcp.more (drain_loop n w t) = tcp.more t \<and> server_running (drain_loop n w t) = server_running t" for n and t :: "'a tcp_scheme"
  proof (induction n arbitrary: t)
    case (Suc n)
    obtain cur c v where d: "drain_batch CONN_SLOT_COUNT w (conn_list_head t w) [] t = (cur, c, v)" by (metis prod.exhaust)
    have "tcp.more v = tcp.more t \<and> server_running v = server_running t" using d b [of CONN_SLOT_COUNT "conn_list_head t w" "[]" t] by simp
    then show ?case using Suc.IH by (simp add: d Let_def)
  qed simp
  then show ?thesis by (simp add: worker_exit_def Let_def)
qed

lemma more_handoff: "handoff_to_worker cf tf s = Some t \<Longrightarrow> tcp.more t = tcp.more s \<and> server_running t = server_running s"
proof -
  have "register_conn ep i cf tf t = (b, t') \<Longrightarrow> tcp.more t' = tcp.more t \<and> server_running t' = server_running t" for ep i b and t t' :: "'a tcp_scheme"
    by (auto simp: register_conn_def Let_def split: prod.splits bool.splits dest!: more_calls)
  then have a: "tcp.more (handoff_admit w i cf tf t) = tcp.more t \<and> server_running (handoff_admit w i cf tf t) = server_running t" for w i and t :: "'a tcp_scheme"
    by (auto simp: handoff_admit_def split: prod.split bool.split)
  have "slot_acquire t = (oi, t') \<Longrightarrow> tcp.more t' = tcp.more t \<and> server_running t' = server_running t" for oi and t t' :: "'a tcp_scheme"
    by (auto simp: slot_acquire_def Let_def split: if_splits)
  then show "handoff_to_worker cf tf s = Some t \<Longrightarrow> tcp.more t = tcp.more s \<and> server_running t = server_running s"
    by (auto simp: handoff_to_worker_def Let_def a split: prod.splits option.splits if_splits dest!: more_calls)
qed

section \<open>The worker index of a session\<close>

text \<open>
  Written when a slot is taken and never again: as a map over the slots in use, no operation on a
  session changes an entry, and the release of a slot deletes one.
\<close>

definition widx :: "'a udp_scheme \<Rightarrow> nat \<Rightarrow> nat option" where
  "widx s = (\<lambda>i. if i < UDP_SLOT_COUNT \<and> g_udp_slot_state s i then Some (u_widx (g_udp_slots s i)) else None)"

lemma widx_same: "same_ses s t \<Longrightarrow> widx t = widx s"
  unfolding widx_def same_ses_def by (metis tbl_simps(1,2) cell_of_simps(6))

lemma widx_release [simp]: "widx (udp_slot_release i s) = (widx s)(i := None)"
  by (auto simp: widx_def udp_slot_release_def)

lemma map_le_delete: "m \<subseteq>\<^sub>m n \<Longrightarrow> m(i := None) \<subseteq>\<^sub>m n"
  by (simp add: map_le_def)

lemma widx_upd [simp]: "(\<And>u. u_widx (f u) = u_widx u) \<Longrightarrow> widx (upd_sess i f s) = widx s"
  by (simp add: widx_def upd_sess_def fun_eq_iff)

lemma widx_set_close [simp]: "widx (upd_sess i (set_close k e) s) = widx s"
  by (rule widx_upd) (simp add: set_close_def)

lemma widx_prim [simp]:
  "widx (udp_list_remove w i s) = widx s" "widx (udp_list_add w i s) = widx s" "widx (os_close f s) = widx s"
  "widx (release_java_socket f s) = widx s" "widx (count_close i s) = widx s"
  "widx (send_zero_reply f r s) = widx s" "widx (snd (os_send s f bs)) = widx s"
  by (auto simp: widx_def udp_list_remove_def udp_list_add_def os_close_def release_java_socket_def log_ev_def
      count_close_def Let_def upd_sess_def fun_eq_iff send_zero_reply_def os_send_def split: option.split list.split)

lemma widx_unref: "widx (udp_conn_unref i s) \<subseteq>\<^sub>m widx s"
proof -
  have "widx (close_sess_fds i t) = widx t" for t :: "'a udp_scheme" by (simp add: close_sess_fds_def Let_def)
  moreover have "widx (t\<lparr>g_conn_count := n\<rparr>) = widx t" "widx (t\<lparr>g_udp_st_double_fin := n'\<rparr>) = widx t" for n n' and t :: "'a udp_scheme"
    by (simp_all add: widx_def cong: if_cong)
  ultimately have "widx (udp_conn_finalize i t) \<subseteq>\<^sub>m widx t" for t :: "'a udp_scheme"
    by (simp add: udp_conn_finalize_def Let_def map_le_delete)
  from this [of "upd_sess i (u_refs_update (\<lambda>_. 0)) s"] show ?thesis by (simp add: udp_conn_unref_def Let_def)
qed

lemma widx_unref_all: "widx (udp_unref_all g s) \<subseteq>\<^sub>m widx s"
  by (induction g arbitrary: s) (auto simp: udp_unref_all_def intro: map_le_trans widx_unref)

lemma widx_data [simp]:
  "widx (udp_update_events w i s) = widx s" "widx (udp_dns_drain w s) = widx s" "udp_session_event i role ev s = (b, t) \<Longrightarrow> widx t = widx s"
  using ses.update_events [of s w i] ses.drain [of s w] ses.session_event [of i role ev s b t] by (simp_all add: widx_same)

lemma widx_event: "udp_worker_event w now e (s, g) = (t, g') \<Longrightarrow> widx t = widx s"
  by (auto simp: udp_worker_event_def udp_outcome_def Let_def split: prod.splits if_splits udp_event_disp.splits)
    (simp_all add: widx_def cong: if_cong)

lemma widx_events: "udp_worker_events w now es (s, g) = (ex, t, g') \<Longrightarrow> widx t = widx s"
proof (induction es arbitrary: s g)
  case (Cons e es)
  obtain s1 g1 where e: "udp_worker_event w now e (s, g) = (s1, g1)" by force
  from Cons.IH [of s1 g1] Cons.prems widx_event [OF e] show ?case by (auto simp: e split: if_splits)
qed simp

lemma widx_scan: "widx (fst (udp_scan_loop n w now cur sg)) = widx (fst sg)"
proof (induction n arbitrary: cur sg)
  case (Suc n)
  have "widx (fst (udp_scan_sess w now i sg)) = widx (fst sg)" for i
    by (auto simp: udp_scan_sess_def Let_def split: prod.split)
  with Suc show ?case by (simp add: Let_def split: option.split)
qed simp

lemma widx_iteration:
  assumes "udp_worker_iteration w now es lc s = (ex, t, g, lc')"
  shows "widx t \<subseteq>\<^sub>m widx s"
proof -
  obtain x s1 g1 where e: "udp_worker_events w now es (s, []) = (x, s1, g1)" by (metis prod.exhaust)
  obtain s2 g2 where c: "udp_scan_loop UDP_SLOT_COUNT w now (udp_list_head s1 w) (s1, g1) = (s2, g2)" by force
  show ?thesis using assms widx_events [OF e] widx_scan [of UDP_SLOT_COUNT w now "udp_list_head s1 w" "(s1, g1)"]
      widx_unref_all [of g s1] widx_unref_all [of g2 s2] widx_unref_all [of g1 s1]
    by (auto simp: udp_worker_iteration_def e c split: bool.splits if_splits)
qed

lemma widx_exit: "widx (udp_worker_exit w g s) \<subseteq>\<^sub>m widx s"
proof -
  have b: "widx (snd (udp_drain_batch n w cur c t)) = widx t" for n cur c and t :: "'a udp_scheme"
    by (induction n arbitrary: cur c t) (simp_all add: Let_def split: option.split)
  have d: "widx t' \<subseteq>\<^sub>m widx t" if "udp_drain_loop w t = Some t'" for t t' :: "'a udp_scheme"
    by (rule udp_drain_loop_rel [OF that, where R = "\<lambda>v u. widx u \<subseteq>\<^sub>m widx v"])
      (auto simp: b intro: map_le_trans widx_unref_all)
  have z: "widx (s\<lparr>uw_stopping := (uw_stopping s)(w := True)\<rparr>) = widx s" by (simp add: widx_def cong: if_cong)
  from widx_unref_all [of g "s\<lparr>uw_stopping := (uw_stopping s)(w := True)\<rparr>"] show ?thesis
    
    using widx_unref_all [of g] by (auto simp: udp_worker_exit_def Let_def z split: option.split intro: map_le_trans [OF widx_unref_all] dest!: d)
qed

lemma widx_calls:
  "os_epoll_ctl s op ep f ev x = (b, t) \<Longrightarrow> widx t = widx s" "os_malloc s = (b, t) \<Longrightarrow> widx t = widx s"
  "os_socket s = (r, t) \<Longrightarrow> widx t = widx s" "request_java_5g_socket s = (r, t) \<Longrightarrow> widx t = widx s"
  by (auto simp: os_epoll_ctl_def os_malloc_def os_socket_def request_java_5g_socket_def log_ev_def widx_def split: list.splits if_splits)

lemma widx_opened:
  "open_associate i cf s = (b, t) \<Longrightarrow> widx t \<subseteq>\<^sub>m widx s" "open_udp_in_tcp i cf s = (b, t) \<Longrightarrow> widx t \<subseteq>\<^sub>m widx s"
proof -
  have relay: "relay_socket s = (r, t) \<Longrightarrow> widx t = widx s" for r t
    by (auto simp: relay_socket_def split: prod.splits if_splits dest!: widx_calls)
  have refuse: "widx (refuse_session i cf rep e u) \<subseteq>\<^sub>m widx u" for rep e and u :: "'a udp_scheme"
    using widx_unref [of i "send_zero_reply cf rep (upd_sess i (set_close UDP_CLOSE_RESOURCE e) u)"] by (simp add: refuse_session_def)
  obtain l e s1 where l: "relay_socket s = ((l, e), s1)" by (metis prod.exhaust)
  let ?s2 = "upd_sess i (\<lambda>u. u\<lparr>u_local_udp_fd := l\<rparr>) s1"
  obtain r e2 s3 where j: "request_java_5g_socket ?s2 = ((r, e2), s3)" by (metis prod.exhaust)
  show "open_associate i cf s = (b, t) \<Longrightarrow> widx t \<subseteq>\<^sub>m widx s"
    using refuse [of 1 e s1] refuse [of 4 e2 s3] relay [OF l] widx_calls(4) [OF j]
    by (auto simp: open_associate_def l j Let_def split: if_splits option.splits)
  obtain r e2 s3 where j: "request_java_5g_socket s = ((r, e2), s3)" by (metis prod.exhaust)
  show "open_udp_in_tcp i cf s = (b, t) \<Longrightarrow> widx t \<subseteq>\<^sub>m widx s"
    using refuse [of 4 e2 s3] widx_calls(4) [OF j] by (auto simp: open_udp_in_tcp_def j split: if_splits)
qed

lemma widx_admit: "widx (admit_sess w i s) \<subseteq>\<^sub>m widx s"
proof -
  obtain b v where v: "register_sess (uw_epoll_fd s w) i (udp_list_add w i s) = (b, v)" by force
  then have "widx v = widx s"
    by (auto simp: register_sess_def Let_def split: prod.splits bool.splits if_splits dest!: widx_calls)
  then show ?thesis
    using widx_unref [of i "upd_sess i (set_close UDP_CLOSE_SHUTDOWN 0) s"]
      widx_unref [of i "udp_list_remove w i (upd_sess i (\<lambda>u. u\<lparr>u_closed := True\<rparr>) (upd_sess i (set_close UDP_CLOSE_RESOURCE 0) v))"]
    by (cases b) (auto simp: admit_sess_def v)
qed

text \<open>Every index recorded in a slot in use is that of an existing worker; a new session gets one.\<close>

definition widx_ok :: "'a udp_scheme \<Rightarrow> bool" where
  "widx_ok s \<longleftrightarrow> (\<forall>w \<in> ran (widx s). w < UDP_WORKER_COUNT)"

lemma widx_ok_le: "widx_ok s \<Longrightarrow> widx t \<subseteq>\<^sub>m widx s \<Longrightarrow> widx_ok t"
  unfolding widx_ok_def by (auto simp: ran_def map_le_def dom_def) metis

lemma widx_ok_start:
  assumes st: "udp_start_session cf cmd s = Some t" and all: "widx_ok s"
  shows "widx_ok t"
proof -
  let ?s0 = "s\<lparr>g_conn_count := g_conn_count s + 1\<rparr>"
  obtain oi s1 where acq: "udp_slot_acquire ?s0 = (oi, s1)" by force
  have none: "oi = None \<Longrightarrow> widx s1 = widx s" using acq by (auto simp: udp_slot_acquire_def Let_def widx_def split: if_splits)
  have some: "oi = Some i \<Longrightarrow> (widx s1)(i := None) = (widx s)(i := None)" for i
    using acq by (auto simp: udp_slot_acquire_def Let_def widx_def fun_eq_iff split: if_splits)
  show ?thesis
  proof (cases "g_conn_count s \<ge> MAX_CONCURRENT_CONNS \<or> oi = None")
    case True
    have "widx (s1\<lparr>g_conn_count := n\<rparr>) = widx s1" for n by (simp add: widx_def cong: if_cong)
    then show ?thesis using st True all none
      by (cases "g_conn_count s \<ge> MAX_CONCURRENT_CONNS") (auto simp: udp_start_session_def Let_def acq widx_ok_def)
  next
    case False
    then obtain i where i: "oi = Some i" by auto
    obtain b1 s3 b2 s4 where m: "os_malloc (s1\<lparr>g_udp_next_worker := g_udp_next_worker s1 + 1\<rparr>) = (b1, s3)" "os_malloc s3 = (b2, s4)" by force
    define w where "w = nat (pick_udp_worker (g_udp_next_worker s1))"
    define s5 where "s5 = upd_sess i (init_sess w cf cmd (o_now s4) b1 b2) s4"
    have w: "w < UDP_WORKER_COUNT"
      by (cases "sint (g_udp_next_worker s1) < 0") (simp_all add: w_def pick_udp_worker_def UDP_WORKER_COUNT_def c_rem_neg c_rem_nonneg)
    have "widx s4 = widx s1" using widx_calls(2) [OF m(1)] widx_calls(2) [OF m(2)] by (simp add: widx_def cong: if_cong)
    moreover have "(widx s5)(i := None) = (widx s4)(i := None)" "widx s5 i \<in> {None, Some w}"
      by (auto simp: s5_def widx_def upd_sess_def init_sess_def fun_eq_iff)
    ultimately have other: "(widx s5)(i := None) = (widx s)(i := None)" and own: "widx s5 i \<in> {None, Some w}"
      using some [OF i] by simp_all
    have a5: "widx_ok s5" unfolding widx_ok_def
    proof
      fix v assume "v \<in> ran (widx s5)"
      then obtain j where j: "widx s5 j = Some v" by (auto simp: ran_def)
      show "v < UDP_WORKER_COUNT"
      proof (cases "j = i")
        case True
        then show ?thesis using own j w by auto
      next
        case False
        then have "widx s j = Some v" using fun_cong [OF other, of j] j by simp
        then show ?thesis using all by (auto simp: widx_ok_def intro: ranI)
      qed
    qed
    obtain ok s6 where o: "(if cmd = 3 then open_associate i cf s5 else open_udp_in_tcp i cf s5) = (ok, s6)" by force
    have a6: "widx_ok s6" using o widx_opened [of i cf s5 ok s6] widx_ok_le [OF a5] by (auto split: if_splits)
    have "t = udp_conn_unref i (upd_sess i (set_close UDP_CLOSE_RESOURCE 0) s5) \<or> t = s6 \<or> t = admit_sess w i s6"
      using st False i unfolding udp_start_session_def Let_def acq prod.case i option.case m w_def [symmetric] s5_def [symmetric] o
      by (auto split: if_splits bool.splits)
    then show ?thesis
      using a6 widx_ok_le [OF a6 widx_admit] widx_ok_le [OF a5, of "udp_conn_unref i (upd_sess i (set_close UDP_CLOSE_RESOURCE 0) s5)"]
        widx_unref [of i "upd_sess i (set_close UDP_CLOSE_RESOURCE 0) s5"] by auto
  qed
qed

section \<open>The shared count\<close>

text \<open>Only starting a connection or a session raises the count.\<close>

lemma count_prim [simp]:
  "g_conn_count (udp_list_remove w i u) = g_conn_count u" "g_conn_count (udp_list_add w i u) = g_conn_count u"
  "g_conn_count (count_close i u) = g_conn_count u" "g_conn_count (udp_slot_release i u) = g_conn_count u"
  "g_conn_count (list_remove_locked w i s) = g_conn_count s" "g_conn_count (list_add_locked w i s) = g_conn_count s"
  "g_conn_count (os_close f s) = g_conn_count s" "g_conn_count (release_java_socket f s) = g_conn_count s"
  "g_conn_count (send_zero_reply f r s) = g_conn_count s"
  by (auto simp: udp_list_remove_def udp_list_add_def count_close_def udp_slot_release_def list_remove_locked_def list_add_locked_def
      os_close_def release_java_socket_def log_ev_def send_zero_reply_def os_send_def Let_def upd_sess_def upd_conn_def split: option.split list.split)

lemma count_unref [simp]: "g_conn_count (udp_conn_unref i u) \<le> g_conn_count u" "g_conn_count (conn_unref i s) \<le> g_conn_count s"
  by (simp_all add: udp_conn_unref_def udp_conn_finalize_def close_sess_fds_def conn_unref_def conn_finalize_def
      close_client_def close_target_def slot_release_def Let_def)

lemma count_unref_all [simp]: "g_conn_count (udp_unref_all g u) \<le> g_conn_count u" "g_conn_count (unref_all g s) \<le> g_conn_count s"
proof -
  show "g_conn_count (udp_unref_all g u) \<le> g_conn_count u"
    unfolding udp_unref_all_def by (induction g arbitrary: u) (auto intro: order_trans count_unref)
  show "g_conn_count (unref_all g s) \<le> g_conn_count s"
    unfolding unref_all_def by (induction g arbitrary: s) (auto intro: order_trans count_unref)
qed

lemma same_ses_g_count: "same_ses s t \<Longrightarrow> g_conn_count t = g_conn_count s"
  by (auto simp: same_ses_def tbl_def)

lemma count_udp_events: "udp_worker_events w now es (s, g) = (ex, t, g') \<Longrightarrow> g_conn_count t = g_conn_count s"
proof (induction es arbitrary: s g)
  case (Cons e es)
  obtain s1 g1 where e: "udp_worker_event w now e (s, g) = (s1, g1)" by force
  have "g_conn_count s1 = g_conn_count s" using e
    by (auto simp: udp_worker_event_def udp_outcome_def Let_def same_ses_g_count [OF same_ses_drain] same_ses_g_count [OF same_ses_update_events]
        split: prod.splits if_splits udp_event_disp.splits dest!: same_ses_session_event same_ses_g_count)
  with Cons.IH [of s1 g1] Cons.prems show ?case by (auto simp: e split: if_splits)
qed simp

lemma count_udp_iteration:
  assumes "udp_worker_iteration w now es lc s = (ex, t, g, lc')"
  shows "g_conn_count t \<le> g_conn_count s"
proof -
  obtain x s1 g1 where e: "udp_worker_events w now es (s, []) = (x, s1, g1)" by (metis prod.exhaust)
  have "g_conn_count (fst (udp_scan_loop n w now cur sg)) = g_conn_count (fst sg)" for n cur and sg :: "'a udp_scheme \<times> nat list"
  proof (induction n arbitrary: cur sg)
    case (Suc n)
    have "g_conn_count (fst (udp_scan_sess w now i sg)) = g_conn_count (fst sg)" for i by (auto simp: udp_scan_sess_def Let_def split: prod.split)
    with Suc show ?case by (simp add: Let_def split: option.split)
  qed simp
  from this [of UDP_SLOT_COUNT "udp_list_head s1 w" "(s1, g1)"] count_udp_events [OF e] assms show ?thesis
    by (auto simp: udp_worker_iteration_def e split: bool.splits if_splits prod.splits) (metis count_unref_all(1))+
qed

lemma count_worker_events: "worker_events w now es (s, g) = (ex, t, g') \<Longrightarrow> g_conn_count t = g_conn_count s"
proof (induction es arbitrary: s g)
  case (Cons e es)
  obtain s1 g1 where e: "worker_event w now e (s, g) = (s1, g1)" by force
  have c: "same_ctl a b \<Longrightarrow> g_conn_count b = g_conn_count a" for a b :: "'a tcp_scheme" by (simp add: same_ctl_def)
  have "relay_event w i tgt ev now (s, g) = (u, g') \<Longrightarrow> g_conn_count u = g_conn_count s" for i tgt ev u g'
    using c [OF masks_only_ctl [OF update_conn_events_masks]]
    by (auto simp: relay_event_def split: prod.splits if_splits dest!: relay_io_ctl c)
  moreover have "g_conn_count (ghost_stuck_track u now s) = g_conn_count s" for u by (rule c [OF ghost_track_ctl])
  ultimately have "g_conn_count s1 = g_conn_count s" using e
    by (auto simp: worker_event_def Let_def split: prod.splits if_splits conn_event_disp.splits)
  with Cons.IH [of s1 g1] Cons.prems show ?case by (auto simp: e split: if_splits)
qed simp

lemma count_iteration:
  assumes "worker_iteration w now es lc s = (ex, t, g, lc')"
  shows "g_conn_count t \<le> g_conn_count s"
proof -
  obtain x s1 g1 where e: "worker_events w now es (s, []) = (x, s1, g1)" by (metis prod.exhaust)
  have "g_conn_count (fst (scan_loop n w now cur sg)) \<le> g_conn_count (fst sg)" for n cur and sg :: "'a tcp_scheme \<times> nat list"
  proof (induction n arbitrary: cur sg)
    case (Suc n)
    have "g_conn_count (fst (scan_conn w now i sg)) \<le> g_conn_count (fst sg)" for i
      by (auto simp: scan_conn_def Let_def split: prod.split intro: order_trans [OF count_unref_all(2)])
    then show ?case using order_trans [OF Suc.IH] by (simp add: Let_def split: option.split)
  qed simp
  from this [of CONN_SLOT_COUNT "conn_list_head s1 w" "(s1, g1)"] count_worker_events [OF e] assms show ?thesis
    by (auto simp: worker_iteration_def e split: bool.splits if_splits prod.splits) (metis count_unref_all(2) order_trans)+
qed

lemma count_exit: "g_conn_count (udp_worker_exit w g u) \<le> g_conn_count u" "g_conn_count (worker_exit w g s) \<le> g_conn_count s"
proof -
  have ub: "g_conn_count (snd (udp_drain_batch n w cur c v)) = g_conn_count v" for n cur c and v :: "'a udp_scheme"
    by (induction n arbitrary: cur c v) (simp_all add: Let_def split: option.split)
  have ul: "g_conn_count v' \<le> g_conn_count v" if "udp_drain_loop w v = Some v'" for v v' :: "'a udp_scheme"
    by (rule udp_drain_loop_rel [OF that, where R = "\<lambda>v u. g_conn_count u \<le> g_conn_count v"])
      (simp_all add: ub count_unref_all(1))
  have tb: "g_conn_count (snd (snd (drain_batch n w cur c v))) = g_conn_count v" for n cur c and v :: "'b tcp_scheme"
    by (induction n arbitrary: cur c v) (simp_all add: Let_def split: option.split)
  have tl: "g_conn_count (drain_loop n w v) \<le> g_conn_count v" for n and v :: "'b tcp_scheme"
  proof (induction n arbitrary: v)
    case (Suc n)
    obtain cur c v1 where b: "drain_batch CONN_SLOT_COUNT w (conn_list_head v w) [] v = (cur, c, v1)" by (metis prod.exhaust)
    let ?v2 = "v1\<lparr>conn_list_head := (conn_list_head v1)(w := cur)\<rparr>"
    have "g_conn_count ?v2 = g_conn_count v" using b tb [of CONN_SLOT_COUNT "conn_list_head v w" "[]" v] by simp
    then have "g_conn_count (unref_all c ?v2) \<le> g_conn_count v" by (metis count_unref_all(2))
    then show ?case using order_trans [OF Suc.IH] by (simp add: b Let_def)
  qed simp
  let ?u = "u\<lparr>uw_stopping := (uw_stopping u)(w := True)\<rparr>" and ?s = "s\<lparr>w_stopping := (w_stopping s)(w := True)\<rparr>"
  show "g_conn_count (udp_worker_exit w g u) \<le> g_conn_count u"
    using order_trans [OF count_unref_all(1) [of g] ul [of ?u]] by (simp add: udp_worker_exit_def Let_def split: option.split)
  show "g_conn_count (worker_exit w g s) \<le> g_conn_count s"
    using order_trans [OF count_unref_all(2) [of g] tl [of CONN_SLOT_COUNT ?s]] by (simp add: worker_exit_def Let_def)
qed

section \<open>The log\<close>

lemma grew_udp_unref: "grew s (udp_conn_unref i s)"
proof -
  have p: "o_log (udp_list_remove w i t) = o_log t" "o_log (count_close i t) = o_log t" "o_log (udp_slot_release j t) = o_log t"
    "o_log (upd_sess i f t) = o_log t" for w j f and t :: "'a udp_scheme"
    by (simp_all add: udp_list_remove_def count_close_def udp_slot_release_def Let_def upd_sess_def split: option.split)
  have "grew t (close_sess_fds i t)" for t :: "'a udp_scheme"
    by (simp add: close_sess_fds_def Let_def os_close_def release_java_socket_def log_ev_def grew_def p)
  then have c: "\<exists>l. o_log (close_sess_fds i t) = o_log t @ l" for t :: "'a udp_scheme" by (simp add: grew_def)
  have "grew t (udp_conn_finalize i t)" for t :: "'a udp_scheme"
  proof -
    let ?t1 = "count_close i (upd_sess i (\<lambda>u. u\<lparr>u_finalized := True\<rparr>) t)"
    let ?z = "upd_sess i (\<lambda>u. u\<lparr>u_magic := 0\<rparr>)"
    show ?thesis
      using c [of "?z ?t1"] c [of "?z (udp_list_remove (u_widx (g_udp_slots ?t1 i)) i ?t1)"] by (auto simp: udp_conn_finalize_def Let_def grew_def p)
  qed
  then have "\<exists>l. o_log (udp_conn_finalize i (upd_sess i f s)) = o_log s @ l" for f
    unfolding grew_def using p(4) by metis
  then show ?thesis by (simp add: udp_conn_unref_def Let_def grew_def p)
qed

lemma grew_udp_unref_all: "grew s (udp_unref_all g s)"
  unfolding udp_unref_all_def by (induction g arbitrary: s) (auto intro: grew_trans [OF grew_udp_unref])

lemma grew_udp_exit: "grew s (udp_worker_exit w g s)"
proof -
  have p: "o_log (udp_list_remove w i t) = o_log t" "o_log (upd_sess i f t) = o_log t" for i f and t :: "'a udp_scheme"
    by (simp_all add: udp_list_remove_def Let_def upd_sess_def split: option.split)
  have b: "o_log (snd (udp_drain_batch n w cur c t)) = o_log t" for n cur c and t :: "'a udp_scheme"
    by (induction n arbitrary: cur c t) (simp_all add: Let_def p split: option.split)
  let ?s1 = "s\<lparr>uw_stopping := (uw_stopping s)(w := True)\<rparr>"
  have 1: "grew s ?s1" by (simp add: grew_eq)
  have "grew s t" if "udp_drain_loop w ?s1 = Some t" for t
    by (rule grew_trans [OF 1 udp_drain_loop_rel [OF that, where R = grew]]) (auto intro: grew_eq grew_udp_unref_all grew_trans simp: b)
  then have "grew s (udp_unref_all g t)" if "udp_drain_loop w ?s1 = Some t" for t using that grew_trans grew_udp_unref_all by blast
  then show ?thesis using 1 by (auto simp: udp_worker_exit_def Let_def grew_def os_close_def log_ev_def split: option.split)
qed

section \<open>The joint invariant\<close>

definition udp_tabs :: "'a udp_scheme \<Rightarrow> (nat \<Rightarrow> udp_conn) \<times> (nat \<Rightarrow> bool) \<times> nat list \<times> nat \<times> (nat \<Rightarrow> nat option) \<times> u32" where
  "udp_tabs s = (g_udp_slots s, g_udp_slot_state s, g_udp_free_slots s, g_udp_free_slot_top s, udp_list_head s, g_udp_next_worker s)"

lemma more_tabs: "tcp.more t = tcp.more s \<and> server_running t = server_running s \<Longrightarrow> udp_tabs t = udp_tabs s"
  by (cases s, cases t) (simp add: udp_tabs_def)

definition udp_active :: "'a udp_scheme \<Rightarrow> int" where
  "udp_active s = int (card {i. i < UDP_SLOT_COUNT \<and> g_udp_slot_state s i})"

lemma outside_tabs: "outside t = outside s \<Longrightarrow> tcp_tabs t = tcp_tabs s"
  by (simp add: outside_def)

lemma active_kept: "tcp_tabs t = tcp_tabs s \<Longrightarrow> active_count t = active_count s" "udp_tabs v = udp_tabs u \<Longrightarrow> udp_active v = udp_active u"
  by (simp_all add: tcp_tabs_def udp_tabs_def active_count_def udp_active_def)

lemma eng_inv_tabs:
  fixes s t :: "'a tcp_scheme"
  assumes "eng_inv K s L G" and "tcp_tabs t = tcp_tabs s"
  shows "eng_inv (g_conn_count t - active_count t) t L G"
proof -
  let ?r = "s\<lparr>g_conn_count := g_conn_count t\<rparr>"
  have "eng_inv (K + (g_conn_count t - g_conn_count s)) ?r L G"
    using eng_inv_counted [OF assms(1), of "g_conn_count t - g_conn_count s"] by simp
  moreover have "K + (g_conn_count t - g_conn_count s) = g_conn_count t - active_count t"
    using eng_invD(13) [OF assms(1)] active_kept(1) [OF assms(2)] by simp
  moreover have "same_ctl ?r t" using assms(2) by (simp add: same_ctl_def tcp_tabs_def)
  ultimately show ?thesis using eng_inv_same_ctl by metis
qed

lemma udp_inv_tabs:
  assumes "udp_inv K s M X" and "udp_tabs t = udp_tabs s"
  shows "udp_inv (g_conn_count t - udp_active t) t M X"
proof -
  have l: "tb_list (r\<lparr>tb_count := n\<rparr>) w xs = tb_list r w xs" for r n w xs by (rule tb_list_cong) (simp_all add: tb_nxt_def tb_prv_def)
  have "tbl t = (tbl s)\<lparr>tb_count := g_conn_count t\<rparr>" using assms(2) by (simp add: udp_tabs_def tbl_def udp_free_def)
  then show ?thesis using assms
    by (auto simp: udp_inv_def udp_slots_wf_def tb_inv_def tb_used_def udp_active_def udp_tabs_def l)
qed

lemma udp_inv_split: "udp_inv K s M X \<Longrightarrow> g_conn_count s = K + udp_active s"
  by (auto simp: udp_inv_def tb_inv_def tb_used_def udp_active_def)

text \<open>
  Both engines are consistent, the count is the number of slots in use on both sides, and it
  respects the quota; only existing workers have lists. \<open>L\<close> and \<open>M\<close> are the lists of the workers, \<open>X\<close> the lost UDP sessions.
\<close>

definition joint_inv :: "'a udp_scheme \<Rightarrow> (nat \<Rightarrow> nat list) \<Rightarrow> (nat \<Rightarrow> nat list) \<Rightarrow> nat list \<Rightarrow> bool" where
  "joint_inv s L M X \<longleftrightarrow> eng_inv (udp_active s) s L [] \<and> udp_inv (active_count s) s M X \<and> g_conn_count s \<le> MAX_CONCURRENT_CONNS \<and>
     (\<forall>w \<ge> WORKER_COUNT. L w = []) \<and> (\<forall>w \<ge> UDP_WORKER_COUNT. M w = []) \<and> widx_ok s"

lemma joint_invD:
  assumes "joint_inv s L M X"
  shows "eng_inv (udp_active s) s L []" and "udp_inv (active_count s) s M X" and "g_conn_count s \<le> MAX_CONCURRENT_CONNS"
    and "w \<ge> WORKER_COUNT \<Longrightarrow> L w = []" and "w \<ge> UDP_WORKER_COUNT \<Longrightarrow> M w = []" and "widx_ok s"
  using assms by (simp_all add: joint_inv_def)

lemma joint_tcp_step:
  fixes s t :: "'a udp_scheme"
  assumes "joint_inv s L M X" and "eng_inv (udp_active s) t L' []" and "udp_tabs t = udp_tabs s" and "g_conn_count t \<le> MAX_CONCURRENT_CONNS"
    and "\<And>w. w \<ge> WORKER_COUNT \<Longrightarrow> L w = [] \<Longrightarrow> L' w = []"
  shows "joint_inv t L' M X"
proof -
  have u: "udp_active t = udp_active s" by (rule active_kept(2) [OF assms(3)])
  have "udp_inv (g_conn_count t - udp_active t) t M X" by (rule udp_inv_tabs [OF joint_invD(2) [OF assms(1)] assms(3)])
  moreover have "g_conn_count t - udp_active t = active_count t" using eng_invD(13) [OF assms(2)] u by simp
  moreover have "widx t = widx s" using assms(3) by (simp add: udp_tabs_def widx_def cong: if_cong)
  ultimately show ?thesis using assms(2,4,5) u joint_invD(4-6) [OF assms(1)] by (simp add: joint_inv_def widx_ok_def)
qed

lemma joint_udp_step:
  fixes s t :: "'a udp_scheme"
  assumes "joint_inv s L M X" and "udp_inv (active_count s) t M' X'" and "tcp_tabs t = tcp_tabs s" and "g_conn_count t \<le> MAX_CONCURRENT_CONNS"
    and "\<And>w. w \<ge> UDP_WORKER_COUNT \<Longrightarrow> M w = [] \<Longrightarrow> M' w = []" and "widx_ok t"
  shows "joint_inv t L M' X'"
proof -
  have a: "active_count t = active_count s" by (rule active_kept(1) [OF assms(3)])
  have "eng_inv (g_conn_count t - active_count t) t L []" by (rule eng_inv_tabs [OF joint_invD(1) [OF assms(1)] assms(3)])
  moreover have "g_conn_count t - active_count t = udp_active t" using udp_inv_split [OF assms(2)] a by simp
  ultimately show ?thesis using assms(2,4-6) a joint_invD(4,5) [OF assms(1)] by (simp add: joint_inv_def)
qed

lemma joint_tcp_turn:
  assumes "joint_inv s L M X" and "length es \<le> MAX_EVENTS" and "worker_iteration w now es lc s = (False, t, G, lc')"
  shows "\<exists>L'. joint_inv t L' M X"
proof -
  from worker_iteration_inv [OF joint_invD(1) [OF assms(1)] assms(2,3)] obtain L' where
    e: "eng_inv (udp_active s) t L' []" and L': "\<forall>v. v \<noteq> w \<longrightarrow> L' v = L v" "set (L' w) \<subseteq> set (L w)" by auto
  have "joint_inv t L' M X"
  proof (rule joint_tcp_step [OF assms(1) e more_tabs [OF more_iteration [OF assms(3)]]])
    show "g_conn_count t \<le> MAX_CONCURRENT_CONNS" using count_iteration [OF assms(3)] joint_invD(3) [OF assms(1)] by simp
    show "L' v = []" if "L v = []" for v using L' that by (cases "v = w") auto
  qed
  then show ?thesis by blast
qed

lemma joint_udp_turn:
  assumes "joint_inv s L M X" and "length es \<le> MAX_EVENTS" and "\<forall>e \<in> set es. own_event w s e"
    and "udp_worker_iteration w now es lc s = (False, t, G, lc')"
  shows "\<exists>M' X'. joint_inv t L M' (X @ X')"
proof -
  from udp_iteration_inv [OF joint_invD(2) [OF assms(1)] assms(2-4)] obtain M' Y where
    u: "udp_inv (active_count s) t M' (X @ Y)" and m: "moved w M [] M' (G @ Y)" by auto
  have "joint_inv t L M' (X @ Y)"
  proof (rule joint_udp_step [OF assms(1) u outside_tabs [OF outside_iteration [OF assms(4)]]])
    show "g_conn_count t \<le> MAX_CONCURRENT_CONNS" using count_udp_iteration [OF assms(4)] joint_invD(3) [OF assms(1)] by simp
    show "M' v = []" if "M v = []" for v using m that by (cases "v = w") (auto simp: moved_def)
    show "widx_ok t" by (rule widx_ok_le [OF joint_invD(6) [OF assms(1)] widx_iteration [OF assms(4)]])
  qed
  then show ?thesis by blast
qed

lemma joint_exits:
  assumes "joint_inv s L M X"
  shows "joint_inv (worker_exit w [] s) (L(w := [])) M X" and "joint_inv (udp_worker_exit w [] s) L (M(w := [])) X"
proof -
  have e: "eng_inv (udp_active s) (worker_exit w [] s) (L(w := [])) []" using worker_exit_inv [of "udp_active s" s L "[]" w] assms by (simp add: joint_inv_def)
  have u: "udp_inv (active_count s) (udp_worker_exit w [] s) (M(w := [])) X"
    using udp_exit_inv [of "active_count s" s M "[]" X w] assms by (simp add: joint_inv_def)
  show "joint_inv (worker_exit w [] s) (L(w := [])) M X"
    by (rule joint_tcp_step [OF assms e more_tabs [OF more_exit] order_trans [OF count_exit(2) joint_invD(3) [OF assms]]]) simp
  show "joint_inv (udp_worker_exit w [] s) L (M(w := [])) X"
    by (rule joint_udp_step [OF assms u outside_tabs [OF outside_exit] order_trans [OF count_exit(1) joint_invD(3) [OF assms]] _ widx_ok_le [OF joint_invD(6) [OF assms] widx_exit]]) simp
qed

section \<open>Handshakes\<close>

lemma count_calls:
  "os_epoll_ctl s op ep f ev x = (b, t) \<Longrightarrow> g_conn_count t = g_conn_count s" "os_malloc s = (b, t) \<Longrightarrow> g_conn_count t = g_conn_count s"
  "os_socket s = (r, t) \<Longrightarrow> g_conn_count t = g_conn_count s" "request_java_5g_socket s = (r, t) \<Longrightarrow> g_conn_count t = g_conn_count s"
  by (auto simp: os_epoll_ctl_def os_malloc_def os_socket_def request_java_5g_socket_def log_ev_def split: list.splits if_splits)

lemma count_handoff: "handoff_to_worker cf tf s = Some t \<Longrightarrow> g_conn_count t \<le> g_conn_count s"
proof -
  have r: "register_conn ep i cf tf u = (b, u') \<Longrightarrow> g_conn_count u' = g_conn_count u" for ep i b and u u' :: "'a tcp_scheme"
    by (auto simp: register_conn_def Let_def split: prod.splits bool.splits dest!: count_calls)
  have a: "g_conn_count (handoff_admit w i cf tf u) \<le> g_conn_count u" for w i and u :: "'a tcp_scheme"
  proof -
    obtain b v where v: "register_conn (w_epoll_fd u w) i cf tf (list_add_locked w i u) = (b, v)" by force
    have "g_conn_count v = g_conn_count u" using r [OF v] by simp
    moreover have "g_conn_count (ghost_stamp_record x cf tf w v) = g_conn_count v" for x by (simp add: ghost_stamp_record_def Let_def)
    ultimately show ?thesis
      using count_unref(2) [of i "list_remove_locked w i (upd_conn i (\<lambda>c. c\<lparr>fc_closed := True\<rparr>) v)"]
      by (cases b) (auto simp: handoff_admit_def v)
  qed
  have q: "slot_acquire u = (oi, u') \<Longrightarrow> g_conn_count u' = g_conn_count u" for oi and u u' :: "'a tcp_scheme"
    by (auto simp: slot_acquire_def Let_def split: if_splits)
  assume h: "handoff_to_worker cf tf s = Some t"
  obtain oi s1 where acq: "slot_acquire (s\<lparr>next_worker_idx := next_worker_idx s + 1\<rparr>) = (oi, s1)" by force
  obtain b1 s2 b2 s3 where m: "os_malloc s1 = (b1, s2)" "os_malloc s2 = (b2, s3)" by force
  have c: "g_conn_count s1 = g_conn_count s" "g_conn_count s3 = g_conn_count s" using q [OF acq] count_calls(2) [OF m(1)] count_calls(2) [OF m(2)] by simp_all
  show ?thesis
  proof (cases oi)
    case None
    then show ?thesis using h c by (auto simp: handoff_to_worker_def Let_def acq split: if_splits)
  next
    case (Some i)
    let ?w = "nat (pick_worker (next_worker_idx s))" and ?s4 = "upd_conn i (init_conn (nat (pick_worker (next_worker_idx s))) cf tf b1 b2) s3"
    have "t = conn_unref i ?s4 \<or> t = handoff_admit ?w i cf tf (upd_conn i (ready_conn (o_now ?s4)) ?s4)"
      using h Some by (auto simp: handoff_to_worker_def Let_def acq m split: if_splits)
    then show ?thesis using c count_unref(2) [of i ?s4] a [of ?w i "upd_conn i (ready_conn (o_now ?s4)) ?s4"] by auto
  qed
qed

lemma count_opened:
  "open_associate i cf s = (b, t) \<Longrightarrow> g_conn_count t \<le> g_conn_count s" "open_udp_in_tcp i cf s = (b, t) \<Longrightarrow> g_conn_count t \<le> g_conn_count s"
proof -
  have refuse: "g_conn_count (refuse_session i cf rep e u) \<le> g_conn_count u" for rep e and u :: "'a udp_scheme"
    using count_unref(1) [of i "send_zero_reply cf rep (upd_sess i (set_close UDP_CLOSE_RESOURCE e) u)"] by (simp add: refuse_session_def)
  have send: "g_conn_count (snd (os_send u f bs)) = g_conn_count u" for f bs and u :: "'a udp_scheme"
    by (auto simp: os_send_def log_ev_def Let_def split: list.split)
  obtain l e s1 where l: "relay_socket s = ((l, e), s1)" by (metis prod.exhaust)
  have c1: "g_conn_count s1 = g_conn_count s" using l by (auto simp: relay_socket_def split: prod.splits if_splits dest!: count_calls)
  let ?s2 = "upd_sess i (\<lambda>u. u\<lparr>u_local_udp_fd := l\<rparr>) s1"
  obtain r e2 s3 where j: "request_java_5g_socket ?s2 = ((r, e2), s3)" by (metis prod.exhaust)
  show "open_associate i cf s = (b, t) \<Longrightarrow> g_conn_count t \<le> g_conn_count s"
    using refuse [of 1 e s1] refuse [of 4 e2 s3] c1 count_calls(4) [OF j]
    by (auto simp: open_associate_def l j send Let_def split: if_splits option.splits)
  obtain r e2 s3 where j: "request_java_5g_socket s = ((r, e2), s3)" by (metis prod.exhaust)
  show "open_udp_in_tcp i cf s = (b, t) \<Longrightarrow> g_conn_count t \<le> g_conn_count s"
    using refuse [of 4 e2 s3] count_calls(4) [OF j] by (auto simp: open_udp_in_tcp_def j split: if_splits)
qed

lemma count_admit: "g_conn_count (admit_sess w i s) \<le> g_conn_count s"
proof -
  obtain b v where v: "register_sess (uw_epoll_fd s w) i (udp_list_add w i s) = (b, v)" by force
  then have "g_conn_count v = g_conn_count s"
    by (auto simp: register_sess_def Let_def split: prod.splits bool.splits if_splits dest!: count_calls)
  then show ?thesis
    using count_unref(1) [of i "upd_sess i (set_close UDP_CLOSE_SHUTDOWN 0) s"]
      count_unref(1) [of i "udp_list_remove w i (upd_sess i (\<lambda>u. u\<lparr>u_closed := True\<rparr>) (upd_sess i (set_close UDP_CLOSE_RESOURCE 0) v))"]
    by (cases b) (auto simp: admit_sess_def v)
qed

lemma count_start:
  assumes st: "udp_start_session cf cmd s = Some t" and q: "g_conn_count s \<le> MAX_CONCURRENT_CONNS"
  shows "g_conn_count t \<le> MAX_CONCURRENT_CONNS"
proof -
  let ?s0 = "s\<lparr>g_conn_count := g_conn_count s + 1\<rparr>"
  obtain oi s1 where acq: "udp_slot_acquire ?s0 = (oi, s1)" by force
  have c1: "g_conn_count s1 = g_conn_count s + 1" using acq by (auto simp: udp_slot_acquire_def Let_def split: if_splits)
  show ?thesis
  proof (cases "g_conn_count s \<ge> MAX_CONCURRENT_CONNS \<or> oi = None")
    case True
    then show ?thesis using st q c1 by (cases "g_conn_count s \<ge> MAX_CONCURRENT_CONNS") (auto simp: udp_start_session_def Let_def acq)
  next
    case False
    then obtain i where i: "oi = Some i" by auto
    obtain b1 s3 b2 s4 where m: "os_malloc (s1\<lparr>g_udp_next_worker := g_udp_next_worker s1 + 1\<rparr>) = (b1, s3)" "os_malloc s3 = (b2, s4)" by force
    define w where "w = nat (pick_udp_worker (g_udp_next_worker s1))"
    define s5 where "s5 = upd_sess i (init_sess w cf cmd (o_now s4) b1 b2) s4"
    have c5: "g_conn_count s5 = g_conn_count s + 1" using count_calls(2) [OF m(1)] count_calls(2) [OF m(2)] c1 by (simp add: s5_def)
    obtain ok s6 where o: "(if cmd = 3 then open_associate i cf s5 else open_udp_in_tcp i cf s5) = (ok, s6)" by force
    have c6: "g_conn_count s6 \<le> g_conn_count s + 1" using o count_opened [of i cf s5 ok s6] c5 by (auto split: if_splits)
    have "t = udp_conn_unref i (upd_sess i (set_close UDP_CLOSE_RESOURCE 0) s5) \<or> t = s6 \<or> t = admit_sess w i s6"
      using st False i unfolding udp_start_session_def Let_def acq prod.case i option.case m w_def [symmetric] s5_def [symmetric] o
      by (auto split: if_splits bool.splits)
    then show ?thesis using c5 c6 False count_unref(1) [of i "upd_sess i (set_close UDP_CLOSE_RESOURCE 0) s5"] count_admit [of w i s6] by auto
  qed
qed

lemma more_io: "io cf s t \<Longrightarrow> tcp.more t = tcp.more (s :: 'a tcp_scheme) \<and> server_running t = server_running s"
  by (auto simp: io_def)

lemma more_method: "tcp.more (snd (hs_method cf ms s)) = tcp.more s \<and> server_running (snd (hs_method cf ms s)) = server_running s"
proof -
  let ?f = "s\<lparr>g_st_auth_fail := g_st_auth_fail s + 1\<rparr>" and ?s1 = "snd (os_send s cf [5, 2])"
  obtain b t where a: "do_auth_check cf (str_bounded 256 (g_auth_user s)) (str_bounded 256 (g_auth_pass s)) ?s1 = (b, t)" by force
  have "tcp.more t = tcp.more s \<and> server_running t = server_running s" using more_io [OF io_auth [of cf ?s1 "str_bounded 256 (g_auth_user s)" "str_bounded 256 (g_auth_pass s)"]] a by simp
  then show ?thesis by (cases b) (simp_all add: hs_method_def Let_def a)
qed

lemma more_negotiate: "hs_negotiate cf s = (r, t) \<Longrightarrow> tcp.more t = tcp.more s \<and> server_running t = server_running s"
proof -
  assume n: "hs_negotiate cf s = (r, t)"
  obtain g s1 where 1: "hs_greeting cf s = (g, s1)" by force
  have m1: "tcp.more s1 = tcp.more s \<and> server_running s1 = server_running s" using more_io [OF io_greeting [of cf s]] 1 by simp
  show ?thesis
  proof (cases g)
    case (Some ms)
    obtain b s2 where 2: "hs_method cf ms s1 = (b, s2)" by force
    have "tcp.more s2 = tcp.more s \<and> server_running s2 = server_running s" using more_method [of cf ms s1] 2 m1 by simp
    then show ?thesis using n 1 2 Some more_io [OF io_request [of cf s2]] by (cases b) (auto simp: hs_negotiate_def)
  qed (use n 1 m1 in \<open>simp add: hs_negotiate_def\<close>)
qed

lemma dispatch_connect_frame:
  assumes "hs_dispatch cf (1, host, port) s = Some t" and "g_conn_count s \<le> MAX_CONCURRENT_CONNS"
  shows "udp_tabs t = udp_tabs s \<and> g_conn_count t \<le> MAX_CONCURRENT_CONNS"
proof (cases "g_conn_count s \<ge> MAX_CONCURRENT_CONNS")
  case True
  then show ?thesis using assms by (auto simp: hs_dispatch_def Let_def udp_tabs_def os_close_def log_ev_def)
next
  case False
  define s0 where "s0 = s\<lparr>g_conn_count := g_conn_count s + 1, java_connects := java_connects s @ [(host, port)]\<rparr>"
  obtain tf e s1 where j: "request_java_5g_socket s0 = ((tf, e), s1)" by (metis prod.exhaust)
  have s1: "udp_tabs s1 = udp_tabs s" "g_conn_count s1 = g_conn_count s + 1"
    using j by (auto simp: request_java_5g_socket_def s0_def udp_tabs_def split: list.splits)
  note d = assms(1) [unfolded hs_dispatch_def, simplified False Let_def]
  show ?thesis
  proof (cases "tf < 0")
    case True
    then have "t = os_close cf (send_zero_reply cf 4 (s1\<lparr>g_conn_count := g_conn_count s1 - 1, g_st_conn_fail := g_st_conn_fail s1 + 1\<rparr>))"
      using d False j by (simp add: s0_def)
    moreover have "udp_tabs (send_zero_reply f x u) = udp_tabs u" for f x and u :: "'a server_scheme"
      using more_tabs [OF more_prim(5) [of f x u]] .
    ultimately show ?thesis using s1 False by (simp add: udp_tabs_def os_close_def log_ev_def)
  next
    case False2: False
    then have h: "handoff_to_worker cf tf (send_zero_reply cf 0 s1) = Some t" using d False j by (simp add: s0_def)
    have "udp_tabs t = udp_tabs s1" using more_tabs [OF more_handoff [OF h]] more_tabs [OF more_prim(5)] by simp
    then show ?thesis using s1 False count_handoff [OF h] by simp
  qed
qed

lemma joint_same:
  assumes "joint_inv s L M X" and "same_ctl s t" and "udp_tabs t = udp_tabs s"
  shows "joint_inv t L M X"
  using joint_tcp_step [OF assms(1) eng_inv_same_ctl [OF joint_invD(1) [OF assms(1)] assms(2)] assms(3)] joint_invD(3) [OF assms(1)] assms(2)
  by (simp add: same_ctl_def)

lemma joint_close: "joint_inv s L M X \<Longrightarrow> joint_inv (os_close f s) L M X"
  by (rule joint_same) (simp_all add: same_ctl_def udp_tabs_def os_close_def log_ev_def)

lemma joint_handshake:
  assumes j: "joint_inv s L M X" and cf: "0 \<le> cf" and n: "0 \<le> sint (next_worker_idx s)" "0 \<le> sint (g_udp_next_worker s)"
    and fresh: "\<forall>(f, e) \<in> set (o_java s). f \<noteq> cf"
  shows "\<exists>t L' M'. handle_handshake_fd cf s = Some t \<and> joint_inv t L' M' X \<and> grew s t"
proof -
  obtain r s1 where neg: "hs_negotiate cf s = (r, s1)" by force
  have ctl: "same_ctl s s1" "next_worker_idx s1 = next_worker_idx s" "o_java s1 = o_java s" using quiet_negotiate [OF neg] by (auto simp: hs_quiet_def)
  have tabs: "udp_tabs s1 = udp_tabs s" by (rule more_tabs [OF more_negotiate [OF neg]])
  have g1: "grew s s1" using quiet_negotiate [OF neg] by (auto simp: hs_quiet_def grew_def)
  have gc: "grew s (os_close cf s1)" using g1 by (auto simp: grew_def os_close_def log_ev_def)
  have j1: "joint_inv s1 L M X" by (rule joint_same [OF j ctl(1) tabs])
  have n1: "0 \<le> sint (g_udp_next_worker s1)" using tabs n(2) by (simp add: udp_tabs_def)
  show ?thesis
  proof (cases r)
    case None
    then show ?thesis using joint_close [OF j1, of cf] gc by (auto simp: handle_handshake_fd_def neg)
  next
    case (Some x)
    obtain cmd host port where x: "x = (cmd, host, port)" by (metis prod.exhaust)
    consider (tcp) "cmd = 1" | (udp) "cmd \<noteq> 1" "socks5_is_supported_cmd cmd" | (other) "cmd \<noteq> 1" "\<not> socks5_is_supported_cmd cmd" by blast
    then show ?thesis
    proof cases
      case tcp
      from dispatch_connect [OF joint_invD(1) [OF j1] cf, of host port] ctl n(1) fresh obtain t where
        t: "hs_dispatch cf (1, host, port) s1 = Some t" "hs_settled (udp_active s1) cf L (Some (1, host, port)) s1 t" by auto
      then obtain L' where e: "eng_inv (udp_active s1) t L' []" and L': "\<And>w. w \<ge> WORKER_COUNT \<Longrightarrow> L w = [] \<Longrightarrow> L' w = []" and g: "grew s1 t"
        by (auto simp: hs_settled_def handed_over_def grew_def)
      have "joint_inv t L' M X" by (rule joint_tcp_step [OF j1 e _ _ L']) (use dispatch_connect_frame [OF t(1) joint_invD(3) [OF j1]] in auto)
      then show ?thesis using t(1) Some x tcp grew_trans [OF g1 g] by (auto simp: handle_handshake_fd_def neg)
    next
      case udp
      from start_session_outcome [OF joint_invD(2) [OF j1] cf n1, of "uint cmd"] obtain t where
        t: "udp_start_session cf (uint cmd) s1 = Some t" and
        oc: "established (active_count s1) M X (nat (pick_udp_worker (g_udp_next_worker s1))) (uint cmd) cf s1 t \<or> refused (active_count s1) M X cf s1 t" by blast
      have "nat (pick_udp_worker (g_udp_next_worker s1)) < UDP_WORKER_COUNT"
        using n1 c_rem_nonneg [of "sint (g_udp_next_worker s1)" "int UDP_WORKER_COUNT"] by (simp add: pick_udp_worker_def UDP_WORKER_COUNT_def)
      with oc obtain M' where u: "udp_inv (active_count s1) t M' X" and M': "\<And>w. w \<ge> UDP_WORKER_COUNT \<Longrightarrow> M w = [] \<Longrightarrow> M' w = []"
        unfolding established_def refused_def by (metis fun_upd_other not_le)
      from joint_udp_step [OF j1 u outside_tabs [OF outside_start [OF t]] count_start [OF t joint_invD(3) [OF j1]] M' widx_ok_start [OF t joint_invD(6) [OF j1]]]
      have "joint_inv t L M' X" .
      moreover have "grew s1 t" using oc by (auto simp: established_def refused_def grew_def)
      ultimately show ?thesis using t Some x udp grew_trans [OF g1, of t] by (auto simp: handle_handshake_fd_def hs_dispatch_def neg)
    next
      case other
      then show ?thesis using joint_close [OF j1, of cf] gc Some x by (auto simp: handle_handshake_fd_def hs_dispatch_def neg)
    qed
  qed
qed

end
