(* ===== verification/Server.thy ===== *)
theory Server
  imports Listener Engines
begin

unbundle bit_operations_syntax

text \<open>
  The life of the server in \<open>simple-socks5.c\<close>: \<open>socks5_server_main_dynamic\<close> resets the counters, the
  listener thread brings everything up, accepts connections in rounds and closes its sockets at the
  end, and \<open>socks5_server_quit\<close> stops all threads in order. A thread is a sequence of calls of the
  functions below; \<open>pthread_join\<close> is the rest of the joined thread. The time stamps and sums that
  only rate-limit log lines are not modelled.
\<close>

section \<open>Starting\<close>

definition socks5_server_main_dynamic :: "'a server_scheme \<Rightarrow> int \<times> 'a server_scheme" where
  "socks5_server_main_dynamic s =
     (if server_running s then (-1, s)
      else (0, (ghost_purge_reset (s\<lparr>server_running := True, g_conn_count := 0,
          g_st_acquired := 0, g_st_released := 0, g_st_stale_skip := 0, g_st_bad_slot := 0,
          g_st_exhausted := 0, g_st_double_fin := 0, g_st_auth_fail := 0, g_st_conn_fail := 0\<rparr>))
        \<lparr>g_tx_bytes := (\<lambda>i. if i < WORKER_COUNT then 0 else g_tx_bytes s i),
          g_rx_bytes := (\<lambda>i. if i < WORKER_COUNT then 0 else g_rx_bytes s i),
          g_udp_tx_bytes := (\<lambda>i. if i < UDP_WORKER_COUNT then 0 else g_udp_tx_bytes s i),
          g_udp_rx_bytes := (\<lambda>i. if i < UDP_WORKER_COUNT then 0 else g_udp_rx_bytes s i),
          g_dns_st_enqueued := 0, g_dns_st_ok := 0, g_dns_st_fail := 0, g_dns_st_qfull := 0,
          g_dns_st_jobfull := 0, g_dns_st_drop := 0, g_dns_st_replay := 0, g_dns_st_lost := 0\<rparr>))"

text \<open>\<open>pipe\<close> and \<open>epoll_create1\<close>; the result of the latter is used without a check.\<close>

definition os_pipe :: "'a server_scheme \<Rightarrow> (fd \<times> fd) option \<times> 'a server_scheme" where
  "os_pipe s = (case k_pipe s of [] \<Rightarrow> (None, s) | p # q \<Rightarrow> (p, s\<lparr>k_pipe := q\<rparr>))"

definition os_epoll_create :: "'a server_scheme \<Rightarrow> fd \<times> 'a server_scheme" where
  "os_epoll_create s = (case k_epoll s of [] \<Rightarrow> (-1, s) | f # q \<Rightarrow> (f, s\<lparr>k_epoll := q\<rparr>))"

definition init_worker :: "nat \<Rightarrow> 'a server_scheme \<Rightarrow> 'a server_scheme" where
  "init_worker w s =
     (case os_epoll_create s of (f, s1) \<Rightarrow>
        s1\<lparr>w_epoll_fd := (w_epoll_fd s1)(w := f), conn_list_head := (conn_list_head s1)(w := None),
           w_stopping := (w_stopping s1)(w := False)\<rparr>)"

definition init_udp_worker :: "nat \<Rightarrow> 'a server_scheme \<Rightarrow> 'a server_scheme" where
  "init_udp_worker w s =
     (case os_epoll_create s of (f, s1) \<Rightarrow>
      let s2 = s1\<lparr>uw_epoll_fd := (uw_epoll_fd s1)(w := f), udp_list_head := (udp_list_head s1)(w := None),
                  uw_stopping := (uw_stopping s1)(w := False), dns_wake_pipe := (dns_wake_pipe s1)(w := (-1, -1)),
                  dns_jobs := (dns_jobs s1)(w := map (\<lambda>j. j\<lparr>j_state := UDP_DNS_FREE, j_host := [], j_ip := []\<rparr>) (dns_jobs s1 w))\<rparr>
      in case os_pipe s2 of
           (Some p, s3) \<Rightarrow> s3\<lparr>dns_wake_pipe := (dns_wake_pipe s3)(w := p)\<rparr>
         | (None, s3) \<Rightarrow> s3)"

definition start_workers :: "'a server_scheme \<Rightarrow> 'a server_scheme" where
  "start_workers s =
     (let s1 = foldl (\<lambda>t w. init_worker w t) s [0..<WORKER_COUNT];
          s2 = ghost_purge_set_epoll_fds (map (w_epoll_fd s1) [0..<WORKER_COUNT]) s1;
          s3 = s2\<lparr>g_handshake_pool := job_pool_init HANDSHAKE_POOL_SIZE HANDSHAKE_QUEUE_SIZE\<rparr>;
          s4 = udp_slots_init s3;
          s5 = foldl (\<lambda>t w. init_udp_worker w t) s4 [0..<UDP_WORKER_COUNT]
      in udp_dns_resolvers_start s5)"

definition close_pipe :: "'a server_scheme \<Rightarrow> 'a server_scheme" where
  "close_pipe s =
     (case g_shutdown_pipe s of (a, b) \<Rightarrow>
      let s1 = (if a \<noteq> -1 then os_close a s else s);
          s2 = (if b \<noteq> -1 then os_close b s1 else s1)
      in s2\<lparr>g_shutdown_pipe := (-1, -1)\<rparr>)"

text \<open>The part of \<open>listener_task\<close> before its loop; the result says whether it got there.\<close>

definition listener_start :: "nat \<Rightarrow> 'a server_scheme \<Rightarrow> bool \<times> 'a server_scheme" where
  "listener_start port s =
     (case os_pipe s of
        (None, s1) \<Rightarrow> (False, s1)
      | (Some p, s1) \<Rightarrow>
          let s2 = slots_init (s1\<lparr>g_shutdown_pipe := p\<rparr>);
              s3 = reconcile_listeners port (s2\<lparr>g_listeners := []\<rparr>)
          in if g_listeners s3 = [] then (False, close_pipe (s3\<lparr>server_running := False\<rparr>))
             else (True, start_workers s3))"

section \<open>Serving\<close>

text \<open>The accept loop of one listening descriptor; \<open>k_accept\<close> holds the results of the next calls
  of \<open>accept\<close>, and an exhausted queue answers \<open>EAGAIN\<close>.\<close>

fun accept_conns :: "fd list \<Rightarrow> 'a server_scheme \<Rightarrow> fd list \<times> 'a server_scheme" where
  "accept_conns [] s = ([], s)"
| "accept_conns (c # cs) s =
     (if c < 0 then (cs, s)
      else case job_pool_enqueue \<lparr>pj_fd = c, pj_cmd = 0\<rparr> (g_handshake_pool s) of
        (True, p) \<Rightarrow> accept_conns cs (s\<lparr>g_handshake_pool := p\<rparr>)
      | (False, p) \<Rightarrow> accept_conns cs (os_close c s))"

definition accept_on :: "fd \<Rightarrow> 'a server_scheme \<Rightarrow> 'a server_scheme" where
  "accept_on f s = (case accept_conns (k_accept s f) s of (q, t) \<Rightarrow> t\<lparr>k_accept := (k_accept t)(f := q)\<rparr>)"

text \<open>
  One round: \<open>res\<close> is the result of \<open>poll\<close>, \<open>shut\<close> whether the shutdown pipe is readable, \<open>ready\<close> the
  entries of the table with an event. The result says whether the loop goes on.
\<close>

definition listener_round :: "nat \<Rightarrow> int \<Rightarrow> bool \<Rightarrow> (nat \<Rightarrow> bool) \<Rightarrow> 'a server_scheme \<Rightarrow> bool \<times> 'a server_scheme" where
  "listener_round port res shut ready s =
     (let s1 = reconcile_listeners port s;
          fds = map fst (g_listeners s1)
      in if res \<le> 0 then (True, s1)
         else if shut then (False, s1)
         else (True, foldl (\<lambda>t i. if ready i then accept_on (fds ! i) t else t) s1 [0..<length fds]))"

definition close_listener_fds :: "bool \<Rightarrow> 'a server_scheme \<Rightarrow> 'a server_scheme" where
  "close_listener_fds shut s =
     (foldl (\<lambda>t (f, ip). if f \<ge> 0 then os_close f (if shut then log_ev (SHUTDOWN f) t else t) else t) s (g_listeners s))
       \<lparr>g_listeners := []\<rparr>"

definition listener_exit :: "'a server_scheme \<Rightarrow> 'a server_scheme" where
  "listener_exit s = close_listener_fds False s"

section \<open>Stopping\<close>

text \<open>The handshake threads after \<open>job_pool_shutdown\<close>: they take jobs until the ring is empty.\<close>

fun pool_drain :: "nat \<Rightarrow> 'a server_scheme \<Rightarrow> 'a server_scheme option" where
  "pool_drain 0 s = Some s"
| "pool_drain (Suc fuel) s =
     (case job_pool_take (g_handshake_pool s) of
        (None, p) \<Rightarrow> Some s
      | (Some j, p) \<Rightarrow>
          (case handle_handshake_job j (s\<lparr>g_handshake_pool := p\<rparr>) of
             None \<Rightarrow> None
           | Some t \<Rightarrow> pool_drain fuel t))"

definition close_wake_pipe :: "nat \<Rightarrow> 'a server_scheme \<Rightarrow> 'a server_scheme" where
  "close_wake_pipe w s =
     (case dns_wake_pipe s w of (a, b) \<Rightarrow>
      let s1 = (if a \<ge> 0 then (os_close a s)\<lparr>dns_wake_pipe := (dns_wake_pipe s)(w := (-1, b))\<rparr> else s);
          s2 = (if b \<ge> 0 then (os_close b s1)\<lparr>dns_wake_pipe := (dns_wake_pipe s1)(w := (fst (dns_wake_pipe s1 w), -1))\<rparr> else s1)
      in s2)"

text \<open>
  The joins are the exits of the threads in the order of the code: listener, handshake threads,
  resolvers, UDP workers, TCP workers. A worker is in \<open>epoll_wait\<close>, its garbage array just reset, and
  leaves at the shutdown event with nothing collected.
\<close>

definition stop_udp_worker :: "nat \<Rightarrow> 'a server_scheme \<Rightarrow> 'a server_scheme" where
  "stop_udp_worker w s = close_wake_pipe w (udp_worker_exit w [] s)"

definition quit_begin :: "'a server_scheme \<Rightarrow> 'a server_scheme" where
  "quit_begin s =
     (let s1 = close_listener_fds True (s\<lparr>server_running := False\<rparr>);
          s2 = (if snd (g_shutdown_pipe s1) \<noteq> -1
                then s1\<lparr>o_log := o_log s1 @ replicate 200 (WAKE (snd (g_shutdown_pipe s1)))\<rparr> else s1);
          s3 = listener_exit s2
      in s3\<lparr>g_handshake_pool := job_pool_shutdown (g_handshake_pool s3)\<rparr>)"

definition socks5_server_quit :: "'a server_scheme \<Rightarrow> 'a server_scheme option" where
  "socks5_server_quit s =
     (if \<not> server_running s then Some s
      else case pool_drain HANDSHAKE_QUEUE_SIZE (quit_begin s) of
        None \<Rightarrow> None
      | Some s5 \<Rightarrow>
          let s6 = udp_dns_resolvers_stop s5;
              s7 = foldl (\<lambda>t w. stop_udp_worker w t) s6 [0..<UDP_WORKER_COUNT];
              s8 = foldl (\<lambda>t w. worker_exit w [] t) s7 [0..<WORKER_COUNT]
          in Some (close_pipe s8))"

section \<open>Reading the state\<close>

definition socks5_server_is_running :: "'a server_scheme \<Rightarrow> bool" where
  "socks5_server_is_running s = server_running s"

definition socks5_server_set_udp_verbose_log :: "bool \<Rightarrow> 'a server_scheme \<Rightarrow> 'a server_scheme" where
  "socks5_server_set_udp_verbose_log on s = s\<lparr>g_udp_verbose_log := on\<rparr>"

definition socks5_server_get_bytes :: "'a server_scheme \<Rightarrow> int \<times> int" where
  "socks5_server_get_bytes s =
     (if server_running s
      then (foldl (\<lambda>t i. t + g_udp_tx_bytes s i) (foldl (\<lambda>t i. t + g_tx_bytes s i) 0 [0..<WORKER_COUNT]) [0..<UDP_WORKER_COUNT],
            foldl (\<lambda>t i. t + g_udp_rx_bytes s i) (foldl (\<lambda>t i. t + g_rx_bytes s i) 0 [0..<WORKER_COUNT]) [0..<UDP_WORKER_COUNT])
      else (0, 0))"

section \<open>Well-formed servers\<close>

definition pool_fds :: "job_pool \<Rightarrow> bool" where
  "pool_fds p \<longleftrightarrow> pool_wf p \<and> jp_cap p = HANDSHAKE_QUEUE_SIZE \<and> (\<forall>j \<in> set (pool_queue p). 0 \<le> pj_fd j)"

definition typed :: "'a server_scheme \<Rightarrow> bool" where
  "typed s \<longleftrightarrow> auth_wf s \<and> bind_wf s \<and> listeners_wf s \<and> pool_fds (g_handshake_pool s)"

definition srv_view :: "'a server_scheme \<Rightarrow> (cstring \<times> cstring \<times> bool \<times> (fd \<times> cstring) list \<times> cstring list \<times> job_pool) \<times>
    (cstring \<Rightarrow> byte list option) \<times> (cstring \<Rightarrow> byte list option) \<times> (byte list \<Rightarrow> cstring) \<times> (byte list \<Rightarrow> cstring)" where
  "srv_view s = ((g_auth_user s, g_auth_pass s, g_auth_enabled s, g_listeners s, g_bind_addrs s, g_handshake_pool s),
     inet_pton4 s, inet_pton6 s, inet_ntop4 s, inet_ntop6 s)"

lemma typed_view: "srv_view t = srv_view s \<Longrightarrow> typed t = typed s"
  by (simp add: typed_def srv_view_def auth_wf_def bind_wf_def listeners_wf_def)

lemma tcp_more_view: "tcp.more t = tcp.more s \<and> server_running t = server_running s \<Longrightarrow> srv_view t = srv_view s"
  by (cases s, cases t) (simp add: srv_view_def)

lemma outside_view: "outside t = outside s \<Longrightarrow> srv_view t = srv_view s"
  by (cases s, cases t) (simp add: srv_view_def outside_def)

lemma canonical_view: "srv_view t = srv_view s \<Longrightarrow> canonical ip t = canonical ip s"
  by (simp add: srv_view_def canonical_def cong: option.case_cong)

lemma pool_caps:
  shows "job_pool_enqueue j p = (b, p') \<Longrightarrow> jp_cap p' = jp_cap p" and "job_pool_take p = (r, p') \<Longrightarrow> jp_cap p' = jp_cap p"
proof -
  have "jp_cap (snd (job_pool_enqueue j p)) = jp_cap p" "jp_cap (snd (job_pool_take p)) = jp_cap p"
    by (simp_all add: job_pool_enqueue_def job_pool_take_def)
  then show "job_pool_enqueue j p = (b, p') \<Longrightarrow> jp_cap p' = jp_cap p" and "job_pool_take p = (r, p') \<Longrightarrow> jp_cap p' = jp_cap p"
    by simp_all
qed

lemma enqueue_fds: "pool_fds p \<Longrightarrow> 0 \<le> pj_fd j \<Longrightarrow> job_pool_enqueue j p = (b, p') \<Longrightarrow> pool_fds p'"
  using jobs.put_step [of p j b p'] pool_caps(1) [of j p b p'] by (auto simp: pool_fds_def split: if_splits)

lemma take_fds: "pool_fds p \<Longrightarrow> job_pool_take p = (Some j, p') \<Longrightarrow> pool_fds p' \<and> 0 \<le> pj_fd j"
  using jobs.get_step [of p "Some j" p'] pool_caps(2) [of p "Some j" p'] by (auto simp: pool_fds_def)

text \<open>A pass of the listener thread does not change how addresses are read and printed.\<close>

lemma reconcile_canonical:
  assumes "bind_wf s"
  shows "canonical ip (reconcile_listeners port s) = canonical ip s"
proof (cases "server_running s")
  case True
  define t where "t = reconcile_scan port (g_bind_addrs s) 0 s"
  have t: "t = s\<lparr>g_listeners := filter (keeps port s) (g_listeners s), o_log := o_log s @ concat (map (retired port s) (g_listeners s))\<rparr>"
    using reconcile_scan_spec [of s "[]" "g_listeners s" port] by (simp add: t_def)
  have "lgrow (set (wanted_addrs s)) t (reconcile_listeners port s)"
    using lgrow_wanted [OF assms, of t port] True by (simp add: t_def reconcile_listeners_def Let_def)
  then have "canonical ip (reconcile_listeners port s) = canonical ip t" unfolding lgrow_def by (elim exE conjE) (simp add: canonical_def cong: option.case_cong)
  then show ?thesis by (simp add: t canonical_def cong: option.case_cong)
qed (simp add: reconcile_listeners_def)

text \<open>What the listener thread does to the rest of the process while it serves.\<close>

definition lst_only :: "'a server_scheme \<Rightarrow> 'a server_scheme \<Rightarrow> bool" where
  "lst_only s t \<longleftrightarrow> tcp_tabs t = tcp_tabs s \<and> udp_tabs t = udp_tabs s \<and> g_conn_count t = g_conn_count s \<and>
     g_auth_user t = g_auth_user s \<and> g_auth_pass t = g_auth_pass s \<and> g_auth_enabled t = g_auth_enabled s \<and>
     g_bind_addrs t = g_bind_addrs s \<and> server_running t = server_running s"

lemma lst_only_trans: "lst_only s t \<Longrightarrow> lst_only t u \<Longrightarrow> lst_only s u"
  by (simp add: lst_only_def)

lemma lst_only_joint:
  assumes "lst_only s t" and "joint_inv s L M X"
  shows "joint_inv t L M X"
  by (rule joint_same [OF assms(2)]) (use assms(1) in \<open>simp_all add: lst_only_def same_ctl_def tcp_tabs_def\<close>)

lemma lgrow_lst: "lgrow W s t \<Longrightarrow> lst_only s t"
  by (auto simp: lgrow_def lst_only_def tcp_tabs_def udp_tabs_def)

lemma reconcile_lst:
  assumes "bind_wf s"
  shows "lst_only s (reconcile_listeners port s)" and "g_handshake_pool (reconcile_listeners port s) = g_handshake_pool s"
proof -
  define t where "t = reconcile_scan port (g_bind_addrs s) 0 s"
  have t: "t = s\<lparr>g_listeners := filter (keeps port s) (g_listeners s), o_log := o_log s @ concat (map (retired port s) (g_listeners s))\<rparr>"
    using reconcile_scan_spec [of s "[]" "g_listeners s" port] by (simp add: t_def)
  have st: "lst_only s t \<and> g_handshake_pool t = g_handshake_pool s" by (simp add: t lst_only_def tcp_tabs_def udp_tabs_def)
  have p: "g_handshake_pool v = g_handshake_pool u" if "lgrow W u v" for W and u v :: "'a server_scheme"
    using that unfolding lgrow_def by (elim exE conjE) simp
  have "lst_only s (reconcile_listeners port s) \<and> g_handshake_pool (reconcile_listeners port s) = g_handshake_pool s"
  proof (cases "server_running s")
    case True
    then have g: "lgrow (set (wanted_addrs s)) t (reconcile_listeners port s)"
      using lgrow_wanted [OF assms, of t port] by (simp add: t_def reconcile_listeners_def Let_def)
    show ?thesis using st lst_only_trans [OF _ lgrow_lst [OF g]] p [OF g] by simp
  qed (simp add: reconcile_listeners_def lst_only_def)
  then show "lst_only s (reconcile_listeners port s)" "g_handshake_pool (reconcile_listeners port s) = g_handshake_pool s" by simp_all
qed

lemma reconcile_typed: "typed s \<Longrightarrow> typed (reconcile_listeners port s)"
proof (cases "server_running s")
  case True
  assume "typed s"
  then have w: "auth_wf s" "bind_wf s" "listeners_wf s" "pool_fds (g_handshake_pool s)" by (simp_all add: typed_def)
  then show ?thesis using reconcile_lst [OF w(2), of port] reconcile_outcome [OF True w(2,3), of port]
    by (auto simp: typed_def lst_only_def auth_wf_def bind_wf_def)
qed (simp add: reconcile_listeners_def)

lemma accept_conns_typed: "accept_conns cs s = (q, t) \<Longrightarrow> typed s \<Longrightarrow> typed t \<and> lst_only s t \<and> g_listeners t = g_listeners s"
proof (induction cs arbitrary: s)
  case (Cons c cs)
  obtain ok p where e: "job_pool_enqueue \<lparr>pj_fd = c, pj_cmd = 0\<rparr> (g_handshake_pool s) = (ok, p)" by force
  show ?case
  proof (cases "c < 0")
    case True
    then show ?thesis using Cons.prems by (simp add: lst_only_def)
  next
    case False
    have f: "pool_fds p" using enqueue_fds [OF _ _ e] Cons.prems(2) False by (simp add: typed_def)
    let ?s = "if ok then s\<lparr>g_handshake_pool := p\<rparr> else os_close c s"
    have s1: "typed ?s" "lst_only s ?s" "g_listeners ?s = g_listeners s" using Cons.prems(2) f
      by (simp_all add: typed_def auth_wf_def bind_wf_def listeners_wf_def lst_only_def tcp_tabs_def udp_tabs_def os_close_def log_ev_def)
    have "accept_conns cs ?s = (q, t)" using Cons.prems(1) False e by (cases ok) simp_all
    from Cons.IH [OF this s1(1)] show ?thesis using lst_only_trans [OF s1(2), of t] s1(3) by simp
  qed
qed (simp add: lst_only_def)

lemma round_typed:
  assumes "typed s" and "listener_round port res shut ready s = (b, t)"
  shows "typed t \<and> lst_only s t"
proof -
  let ?s1 = "reconcile_listeners port s"
  have s1: "typed ?s1" "lst_only s ?s1" using reconcile_typed [OF assms(1)] reconcile_lst(1) [of s port] assms(1) by (simp_all add: typed_def)
  have "typed (accept_on f u) \<and> lst_only s (accept_on f u)" if "typed u \<and> lst_only s u" for f u
  proof -
    obtain q v where a: "accept_conns (k_accept u f) u = (q, v)" by force
    have v: "typed v" "lst_only s v" using accept_conns_typed [OF a] that lst_only_trans by blast+
    have "typed (v\<lparr>k_accept := k\<rparr>) = typed v" "lst_only s (v\<lparr>k_accept := k\<rparr>) = lst_only s v" for k
      by (simp_all add: typed_def auth_wf_def bind_wf_def listeners_wf_def lst_only_def tcp_tabs_def udp_tabs_def)
    then show ?thesis using v by (simp add: accept_on_def a)
  qed
  then have "typed (foldl (\<lambda>t i. if ready i then accept_on (fds ! i) t else t) ?s1 is) \<and>
      lst_only s (foldl (\<lambda>t i. if ready i then accept_on (fds ! i) t else t) ?s1 is)" for fds "is"
    using foldl_induct [of "\<lambda>u. typed u \<and> lst_only s u" ?s1 "\<lambda>t i. if ready i then accept_on (fds ! i) t else t" "is"] s1 by auto
  then show ?thesis using assms(2) s1 by (auto simp: listener_round_def Let_def split: if_splits)
qed

lemma view_handshake: "handle_handshake_fd cf s = Some t \<Longrightarrow> srv_view t = srv_view s"
proof -
  assume h: "handle_handshake_fd cf s = Some t"
  obtain r s1 where neg: "hs_negotiate cf s = (r, s1)" by force
  have v1: "srv_view s1 = srv_view s" by (rule tcp_more_view [OF more_negotiate [OF neg]])
  have vc: "srv_view (os_close f u) = srv_view u" for f and u :: "'a server_scheme" by (rule tcp_more_view [OF more_prim(1)])
  have vz: "srv_view (send_zero_reply f x u) = srv_view u" for f x and u :: "'a server_scheme" by (rule tcp_more_view [OF more_prim(5)])
  show ?thesis
  proof (cases r)
    case None
    then show ?thesis using h neg v1 by (auto simp: handle_handshake_fd_def vc)
  next
    case (Some x)
    obtain cmd host port where x: "x = (cmd, host, port)" by (metis prod.exhaust)
    have d: "hs_dispatch cf (cmd, host, port) s1 = Some t" using h neg Some x by (simp add: handle_handshake_fd_def)
    define s0 where "s0 = s1\<lparr>g_conn_count := g_conn_count s1 + 1, java_connects := java_connects s1 @ [(host, port)]\<rparr>"
    obtain tf e s2 where j: "request_java_5g_socket s0 = ((tf, e), s2)" by (metis prod.exhaust)
    have v2: "srv_view s2 = srv_view s1" using j by (auto simp: request_java_5g_socket_def s0_def srv_view_def split: list.splits)
    consider "cmd = 1" "g_conn_count s1 \<ge> MAX_CONCURRENT_CONNS" | "cmd = 1" "g_conn_count s1 < MAX_CONCURRENT_CONNS" "tf < 0"
      | "cmd = 1" "g_conn_count s1 < MAX_CONCURRENT_CONNS" "tf \<ge> 0" | "cmd \<noteq> 1" by linarith
    then show ?thesis
    proof cases
      case 1
      then have "t = os_close cf (s1\<lparr>g_conn_count := g_conn_count s1\<rparr>)" using d by (simp add: hs_dispatch_def Let_def)
      then show ?thesis using v1 by (simp add: vc)
    next
      case 2
      then have "t = os_close cf (send_zero_reply cf 4 (s2\<lparr>g_conn_count := g_conn_count s2 - 1, g_st_conn_fail := g_st_conn_fail s2 + 1\<rparr>))"
        using d j by (simp add: hs_dispatch_def Let_def s0_def)
      moreover have "srv_view (s2\<lparr>g_conn_count := n, g_st_conn_fail := m\<rparr>) = srv_view s2" for n m by (simp add: srv_view_def)
      ultimately show ?thesis using v1 v2 vc vz by simp
    next
      case 3
      then have "handoff_to_worker cf tf (send_zero_reply cf 0 s2) = Some t" using d j by (simp add: hs_dispatch_def Let_def s0_def)
      from tcp_more_view [OF more_handoff [OF this]] show ?thesis using v1 v2 vz by simp
    next
      case 4
      show ?thesis
      proof (cases "socks5_is_supported_cmd cmd")
        case True
        then have "udp_start_session cf (uint cmd) s1 = Some t" using d 4 by (simp add: hs_dispatch_def)
        from outside_view [OF outside_start [OF this]] v1 show ?thesis by simp
      qed (use d 4 v1 in \<open>auto simp: hs_dispatch_def vc\<close>)
    qed
  qed
qed

section \<open>Coming up\<close>

lemma init_workers:
  "tcp_tabs (foldl (\<lambda>t w. init_worker w t) s ws) =
     (g_slots s, g_slot_state s, g_free_slots s, g_free_slot_top s, (\<lambda>w. if w \<in> set ws then None else conn_list_head s w), next_worker_idx s) \<and>
   udp_tabs (foldl (\<lambda>t w. init_worker w t) s ws) = udp_tabs s \<and> g_conn_count (foldl (\<lambda>t w. init_worker w t) s ws) = g_conn_count s \<and>
   srv_view (foldl (\<lambda>t w. init_worker w t) s ws) = srv_view s"
proof (induction ws arbitrary: s)
  case (Cons w ws)
  have i: "g_slots (init_worker w s) = g_slots s" "g_slot_state (init_worker w s) = g_slot_state s" "g_free_slots (init_worker w s) = g_free_slots s"
    "g_free_slot_top (init_worker w s) = g_free_slot_top s" "conn_list_head (init_worker w s) = (conn_list_head s)(w := None)"
    "next_worker_idx (init_worker w s) = next_worker_idx s" "udp_tabs (init_worker w s) = udp_tabs s"
    "g_conn_count (init_worker w s) = g_conn_count s" "srv_view (init_worker w s) = srv_view s"
    by (simp_all add: init_worker_def os_epoll_create_def udp_tabs_def srv_view_def split: list.split)
  show ?case using Cons.IH [of "init_worker w s"] by (auto simp: i fun_eq_iff)
qed (simp add: tcp_tabs_def)

lemma init_udp_workers:
  "udp_tabs (foldl (\<lambda>t w. init_udp_worker w t) s ws) =
     (g_udp_slots s, g_udp_slot_state s, g_udp_free_slots s, g_udp_free_slot_top s, (\<lambda>w. if w \<in> set ws then None else udp_list_head s w), g_udp_next_worker s) \<and>
   tcp_tabs (foldl (\<lambda>t w. init_udp_worker w t) s ws) = tcp_tabs s \<and> g_conn_count (foldl (\<lambda>t w. init_udp_worker w t) s ws) = g_conn_count s \<and>
   srv_view (foldl (\<lambda>t w. init_udp_worker w t) s ws) = srv_view s"
proof (induction ws arbitrary: s)
  case (Cons w ws)
  have i: "g_udp_slots (init_udp_worker w s) = g_udp_slots s" "g_udp_slot_state (init_udp_worker w s) = g_udp_slot_state s"
    "g_udp_free_slots (init_udp_worker w s) = g_udp_free_slots s" "g_udp_free_slot_top (init_udp_worker w s) = g_udp_free_slot_top s"
    "udp_list_head (init_udp_worker w s) = (udp_list_head s)(w := None)" "g_udp_next_worker (init_udp_worker w s) = g_udp_next_worker s"
    "tcp_tabs (init_udp_worker w s) = tcp_tabs s" "g_conn_count (init_udp_worker w s) = g_conn_count s" "srv_view (init_udp_worker w s) = srv_view s"
    by (auto simp: init_udp_worker_def os_epoll_create_def os_pipe_def tcp_tabs_def srv_view_def Let_def split: list.split option.split)
  show ?case using Cons.IH [of "init_udp_worker w s"] by (auto simp: i fun_eq_iff)
qed (simp add: udp_tabs_def)

text \<open>There are no workers beyond the arrays.\<close>

definition no_extra_workers :: "'a udp_scheme \<Rightarrow> bool" where
  "no_extra_workers s \<longleftrightarrow> (\<forall>w \<ge> WORKER_COUNT. conn_list_head s w = None) \<and> (\<forall>w \<ge> UDP_WORKER_COUNT. udp_list_head s w = None)"

lemma udp_slots_init_udp_inv:
  assumes "udp_list_head s = (\<lambda>_. None)"
  shows "udp_inv (g_conn_count s) (udp_slots_init s) (\<lambda>_. []) []"
proof -
  have "tb_list (tbl (udp_slots_init s)) w []" for w using assms by (simp add: tb_list_def dl_rep_def udp_slots_init_def)
  moreover have "tb_used UDP_SLOT_COUNT (tbl (udp_slots_init s)) = 0" by (auto simp: tb_used_def udp_slots_init_def)
  ultimately show ?thesis using assms by (auto simp: udp_inv_def tb_inv_def udp_slots_wf_def udp_slots_init_def udp_free_def)
qed

lemma slots_init_tabs: "tcp_tabs u = tcp_tabs v \<Longrightarrow> tcp_tabs (slots_init u) = tcp_tabs (slots_init v)"
  by (simp add: tcp_tabs_def slots_init_def cong: if_cong)

lemma udp_slots_init_tabs: "udp_tabs u = udp_tabs v \<Longrightarrow> udp_tabs (udp_slots_init u) = udp_tabs (udp_slots_init v)"
  by (simp add: udp_tabs_def udp_slots_init_def cong: if_cong)

lemma slots_init_frame [frame_simps]: "udp_tabs (slots_init s) = udp_tabs s" "srv_view (slots_init s) = srv_view s" "g_conn_count (slots_init s) = g_conn_count s"
  by (simp_all add: udp_tabs_def srv_view_def slots_init_def)

lemma start_workers_tabs:
  assumes "no_extra_workers s"
  shows "tcp_tabs (start_workers s) = tcp_tabs (s\<lparr>conn_list_head := \<lambda>_. None\<rparr>)"
    and "udp_tabs (start_workers s) = udp_tabs (udp_slots_init (s\<lparr>udp_list_head := \<lambda>_. None\<rparr>))"
    and "g_conn_count (start_workers s) = g_conn_count s"
    and "srv_view (start_workers s) = srv_view (s\<lparr>g_handshake_pool := job_pool_init HANDSHAKE_POOL_SIZE HANDSHAKE_QUEUE_SIZE\<rparr>)"
proof -
  define s1 where "s1 = foldl (\<lambda>t w. init_worker w t) s [0..<WORKER_COUNT]"
  define s4 where "s4 = udp_slots_init ((ghost_purge_set_epoll_fds (map (w_epoll_fd s1) [0..<WORKER_COUNT]) s1)
      \<lparr>g_handshake_pool := job_pool_init HANDSHAKE_POOL_SIZE HANDSHAKE_QUEUE_SIZE\<rparr>)"
  define s5 where "s5 = foldl (\<lambda>t w. init_udp_worker w t) s4 [0..<UDP_WORKER_COUNT]"
  have t: "start_workers s = udp_dns_resolvers_start s5" by (simp add: start_workers_def Let_def s1_def s4_def s5_def)
  note i1 = init_workers [of s "[0..<WORKER_COUNT]", folded s1_def] and i5 = init_udp_workers [of s4 "[0..<UDP_WORKER_COUNT]", folded s5_def]
  have 4: "tcp_tabs s4 = tcp_tabs s1" "g_conn_count s4 = g_conn_count s1" "udp_tabs s4 = udp_tabs (udp_slots_init s1)"
    "srv_view s4 = srv_view (s1\<lparr>g_handshake_pool := job_pool_init HANDSHAKE_POOL_SIZE HANDSHAKE_QUEUE_SIZE\<rparr>)"
    by (simp_all add: s4_def udp_slots_init_def ghost_purge_set_epoll_fds_def tcp_tabs_def udp_tabs_def srv_view_def cong: if_cong)
  have 5: "tcp_tabs (start_workers s) = tcp_tabs s5" "udp_tabs (start_workers s) = udp_tabs s5" "g_conn_count (start_workers s) = g_conn_count s5"
    "srv_view (start_workers s) = srv_view s5"
    by (simp_all add: t udp_dns_resolvers_start_def tcp_tabs_def udp_tabs_def srv_view_def)
  have h: "(\<lambda>w. if w \<in> set [0..<WORKER_COUNT] then None else conn_list_head s w) = (\<lambda>_. None)"
    "(\<lambda>w. if w \<in> set [0..<UDP_WORKER_COUNT] then None else udp_list_head s4 w) = (\<lambda>_. None)"
  proof -
    have "udp_list_head s4 = udp_list_head s" using 4(3) i1 by (simp add: udp_tabs_def udp_slots_init_def cong: if_cong)
    then show "(\<lambda>w. if w \<in> set [0..<UDP_WORKER_COUNT] then None else udp_list_head s4 w) = (\<lambda>_. None)"
      using assms by (auto simp: no_extra_workers_def)
  qed (use assms in \<open>auto simp: no_extra_workers_def\<close>)
  show "tcp_tabs (start_workers s) = tcp_tabs (s\<lparr>conn_list_head := \<lambda>_. None\<rparr>)"
    using 5(1) i5 4(1) i1 unfolding h by (simp add: tcp_tabs_def)
  show "g_conn_count (start_workers s) = g_conn_count s" using 5(3) i5 4(2) i1 by simp
  show "udp_tabs (start_workers s) = udp_tabs (udp_slots_init (s\<lparr>udp_list_head := \<lambda>_. None\<rparr>))"
    using 5(2) i5 4(3) i1 unfolding h by (simp add: udp_tabs_def udp_slots_init_def cong: if_cong)
  show "srv_view (start_workers s) = srv_view (s\<lparr>g_handshake_pool := job_pool_init HANDSHAKE_POOL_SIZE HANDSHAKE_QUEUE_SIZE\<rparr>)"
    using 5(4) i5 4(4) i1 by (simp add: srv_view_def)
qed

lemma start_joint:
  assumes x: "no_extra_workers s" and wf: "auth_wf s" "bind_wf s" and c: "g_conn_count s = 0"
    and st: "listener_start port s = (True, t)"
  shows "joint_inv t (\<lambda>_. []) (\<lambda>_. []) [] \<and> typed t \<and> g_listeners t \<noteq> []"
proof -
  obtain p s1 where pipe: "os_pipe s = (Some p, s1)" using st by (auto simp: listener_start_def split: prod.splits option.splits)
  define s2 where "s2 = (slots_init (s1\<lparr>g_shutdown_pipe := p\<rparr>))\<lparr>g_listeners := []\<rparr>"
  define s3 where "s3 = reconcile_listeners port s2"
  have t: "t = start_workers s3" "g_listeners s3 \<noteq> []"
    using st by (auto simp: listener_start_def pipe Let_def s2_def s3_def split: if_splits)
  let ?u = "s1\<lparr>g_shutdown_pipe := p\<rparr>"
  have 1: "tcp_tabs ?u = tcp_tabs s" "udp_tabs ?u = udp_tabs s" "srv_view ?u = srv_view s" "g_conn_count ?u = g_conn_count s"
    using pipe by (auto simp: os_pipe_def tcp_tabs_def udp_tabs_def srv_view_def split: list.splits)
  have "tcp_tabs s2 = tcp_tabs (slots_init ?u)" "udp_tabs s2 = udp_tabs (slots_init ?u)" "g_conn_count s2 = g_conn_count (slots_init ?u)"
    "g_listeners s2 = []" "g_auth_user s2 = g_auth_user (slots_init ?u)" "g_auth_pass s2 = g_auth_pass (slots_init ?u)"
    "g_auth_enabled s2 = g_auth_enabled (slots_init ?u)" "g_bind_addrs s2 = g_bind_addrs (slots_init ?u)"
    by (simp_all add: s2_def tcp_tabs_def udp_tabs_def)
  then have 2: "tcp_tabs s2 = tcp_tabs (slots_init s)" "udp_tabs s2 = udp_tabs s" "g_conn_count s2 = 0" "auth_wf s2" "bind_wf s2" "listeners_wf s2"
    using wf c slots_init_tabs [OF 1(1)] slots_init_frame [of ?u] 1 by (simp_all add: auth_wf_def bind_wf_def listeners_wf_def srv_view_def)
  note r = reconcile_lst [OF 2(5), of port, folded s3_def]
  have 3: "tcp_tabs s3 = tcp_tabs (slots_init s)" "udp_tabs s3 = udp_tabs s" "g_conn_count s3 = 0"
    using r(1) 2(1-3) by (simp_all add: lst_only_def)
  have x3: "no_extra_workers s3" using 3(1,2) x by (simp add: no_extra_workers_def tcp_tabs_def udp_tabs_def slots_init_def)
  note w = start_workers_tabs [OF x3, folded t(1)]
  let ?a = "slots_init (s\<lparr>conn_list_head := \<lambda>_. None\<rparr>)" and ?b = "udp_slots_init (s\<lparr>udp_list_head := \<lambda>_. None\<rparr>)"
  have ta: "tcp_tabs t = tcp_tabs ?a" using w(1) 3(1) by (simp add: tcp_tabs_def slots_init_def cong: if_cong)
  have "udp_tabs (s3\<lparr>udp_list_head := \<lambda>_. None\<rparr>) = udp_tabs (s\<lparr>udp_list_head := \<lambda>_. None\<rparr>)" using 3(2) by (simp add: udp_tabs_def)
  from udp_slots_init_tabs [OF this] w(2) have tb: "udp_tabs t = udp_tabs ?b" by simp
  have z: "active_count t = 0" "udp_active t = 0" "g_conn_count t = 0"
    using active_kept(1) [OF ta] active_kept(2) [OF tb] w(3) 3(3) by (auto simp: active_count_def udp_active_def slots_init_def udp_slots_init_def)
  have "eng_inv 0 ?a (\<lambda>_. []) []" using slots_init_eng_inv [of "s\<lparr>conn_list_head := \<lambda>_. None\<rparr>"] c by simp
  from eng_inv_tabs [OF this ta] have e: "eng_inv 0 t (\<lambda>_. []) []" using z by simp
  have "udp_inv 0 ?b (\<lambda>_. []) []" using udp_slots_init_udp_inv [of "s\<lparr>udp_list_head := \<lambda>_. None\<rparr>"] c by simp
  from udp_inv_tabs [OF this tb] have u: "udp_inv 0 t (\<lambda>_. []) []" using z by simp
  have "listeners_wf s3" "auth_wf s3" "bind_wf s3"
  proof -
    have "listeners_wf s3" if "server_running s2" using reconcile_outcome [OF that 2(5,6), of port] by (auto simp: s3_def)
    moreover have "listeners_wf s3" if "\<not> server_running s2" using that 2(6) by (simp add: s3_def reconcile_listeners_def)
    ultimately show "listeners_wf s3" by blast
  qed (use r(1) 2(4,5) in \<open>simp_all add: lst_only_def auth_wf_def bind_wf_def\<close>)
  moreover have "pool_fds (job_pool_init HANDSHAKE_POOL_SIZE HANDSHAKE_QUEUE_SIZE)"
    by (simp add: pool_fds_def job_pool_init_wf HANDSHAKE_QUEUE_SIZE_def) (simp add: job_pool_init_def)
  ultimately have "typed (s3\<lparr>g_handshake_pool := job_pool_init HANDSHAKE_POOL_SIZE HANDSHAKE_QUEUE_SIZE\<rparr>)"
    by (simp add: typed_def auth_wf_def bind_wf_def listeners_wf_def)
  then have "typed t" "g_listeners t \<noteq> []" using typed_view [OF w(4)] w(4) t(2) by (simp_all add: srv_view_def)
  moreover have "widx t = widx ?b" using tb by (simp add: udp_tabs_def widx_def cong: if_cong)
  then have "widx_ok t" by (auto simp: widx_ok_def ran_def widx_def udp_slots_init_def split: if_splits)
  ultimately show ?thesis using e u z by (simp add: joint_inv_def MAX_CONCURRENT_CONNS_def)
qed

end
