(* ===== verification/Process.thy ===== *)
theory Process
  imports Server
begin

text \<open>
  The whole process while it serves: handshake threads, TCP and UDP workers, resolver threads and
  the listener thread in any order, with the kernel, the clock and the Java side changing freely in
  between and the configuration changed from outside. Each step runs one job, one worker turn, one
  round or one call to its end; interleavings inside a step are not modelled. Handshakes are
  considered until a round-robin counter passes \<open>2^31 - 1\<close>, after which the code indexes its worker
  array with a negative number.
\<close>

section \<open>Steps\<close>

inductive serve_step :: "nat \<Rightarrow> server \<Rightarrow> server \<Rightarrow> bool" for port where
  round: "listener_round port res shut ready s = (b, t) \<Longrightarrow> serve_step port s t"
| job: "job_pool_take (g_handshake_pool s) = (Some j, p) \<Longrightarrow> 0 \<le> sint (next_worker_idx s) \<Longrightarrow> 0 \<le> sint (g_udp_next_worker s) \<Longrightarrow>
    \<forall>(f, e) \<in> set (o_java s). f \<noteq> pj_fd j \<Longrightarrow> handle_handshake_job j (s\<lparr>g_handshake_pool := p\<rparr>) = Some t \<Longrightarrow> serve_step port s t"
| tcp: "w < WORKER_COUNT \<Longrightarrow> length es \<le> MAX_EVENTS \<Longrightarrow> worker_iteration w now es lc s = (False, t, g, lc') \<Longrightarrow> serve_step port s t"
| udp: "w < UDP_WORKER_COUNT \<Longrightarrow> length es \<le> MAX_EVENTS \<Longrightarrow> \<forall>e \<in> set es. own_event w s e \<Longrightarrow>
    udp_worker_iteration w now es lc s = (False, t, g, lc') \<Longrightarrow> serve_step port s t"
| resolve: "udp_dns_dequeue s = (Some r, t) \<Longrightarrow> serve_step port s t"
| answer: "serve_step port s (udp_dns_answer r ans s)"
| auth: "serve_step port s (socks5_server_set_auth user pass s)"
| bind: "serve_step port s (socks5_server_set_bind_addrs addrs s)"
| verbose: "serve_step port s (socks5_server_set_udp_verbose_log on s)"
| world: "serve_step port s (s\<lparr>o_now := a1, o_recv := a2, o_send := a3, o_dgram := a4, o_sendto := a5, o_ctl := a6, o_malloc := a7,
    o_socket := a8, o_java := a9, o_fstat := b1, o_procfd := b2, o_mono_ms := b3, o_sockname := b4, o_peername := b5,
    k_accepting := b6, k_bind := b7, k_listen := b8, k_accept := b9\<rparr>)"

text \<open>The states between the moment the listener thread has everything up and the stop.\<close>

inductive served :: "nat \<Rightarrow> server \<Rightarrow> bool" for port where
  started: "auth_wf s \<Longrightarrow> bind_wf s \<Longrightarrow> no_extra_workers s \<Longrightarrow> g_conn_count s = 0 \<Longrightarrow> server_running s \<Longrightarrow>
    listener_start port s = (True, t) \<Longrightarrow> served port t"
| more: "served port s \<Longrightarrow> serve_step port s t \<Longrightarrow> served port t"

section \<open>The invariant\<close>

lemma job_inv:
  assumes j: "joint_inv s L M X" and ty: "typed s" and tk: "job_pool_take (g_handshake_pool s) = (Some j, p)"
    and n: "0 \<le> sint (next_worker_idx s)" "0 \<le> sint (g_udp_next_worker s)" and f: "\<forall>(f, e) \<in> set (o_java s). f \<noteq> pj_fd j"
    and h: "handle_handshake_job j (s\<lparr>g_handshake_pool := p\<rparr>) = Some t"
  shows "(\<exists>L' M'. joint_inv t L' M' X) \<and> typed t \<and> g_handshake_pool t = p"
proof -
  let ?s = "s\<lparr>g_handshake_pool := p\<rparr>"
  have p: "pool_fds p" "0 \<le> pj_fd j" using take_fds [OF _ tk] ty by (simp_all add: typed_def)
  have "joint_inv ?s L M X" by (rule joint_same [OF j]) (simp_all add: same_ctl_def udp_tabs_def)
  from joint_handshake [OF this p(2)] n f h have "\<exists>L' M'. joint_inv t L' M' X" by (auto simp: handle_handshake_job_def)
  moreover have v: "srv_view t = srv_view ?s" using h by (auto simp: handle_handshake_job_def intro: view_handshake)
  moreover have "typed ?s" using ty p by (simp add: typed_def auth_wf_def bind_wf_def listeners_wf_def)
  ultimately show ?thesis using typed_view [OF v] by (simp add: srv_view_def)
qed

lemma serve_step_inv:
  assumes "serve_step port s t" and j: "joint_inv s L M X" and ty: "typed s"
  shows "(\<exists>L' M' X'. joint_inv t L' M' X') \<and> typed t"
  using assms(1)
proof cases
  case (round res shut ready b)
  from round_typed [OF ty this] show ?thesis using lst_only_joint [OF _ j] by blast
next
  case (job j p)
  from job_inv [OF assms(2,3) this] show ?thesis by blast
next
  case (tcp w es now lc g lc')
  from joint_tcp_turn [OF j tcp(2,3)] typed_view [OF tcp_more_view [OF more_iteration [OF tcp(3)]]] ty show ?thesis by blast
next
  case (udp w es now lc g lc')
  from joint_udp_turn [OF j udp(2-4)] typed_view [OF outside_view [OF outside_iteration [OF udp(4)]]] ty show ?thesis by blast
next
  case (resolve r)
  have "same_ctl s t" "udp_tabs t = udp_tabs s" "srv_view t = srv_view s"
    using resolve by (auto simp: udp_dns_dequeue_def same_ctl_def udp_tabs_def srv_view_def split: if_splits)
  from joint_same [OF j this(1,2)] typed_view [OF this(3)] ty show ?thesis by blast
next
  case (answer r ans)
  have "same_ctl s t" "udp_tabs t = udp_tabs s" "srv_view t = srv_view s" unfolding answer
    by (auto simp: udp_dns_answer_def udp_dns_wake_worker_def upd_job_def log_ev_def same_ctl_def udp_tabs_def srv_view_def split: option.split)
  from joint_same [OF j this(1,2)] typed_view [OF this(3)] ty show ?thesis by blast
next
  case (auth user pass)
  have "joint_inv t L M X" unfolding auth
    by (rule joint_same [OF j]) (simp_all add: socks5_server_set_auth_def same_ctl_def udp_tabs_def split: option.split)
  moreover have "typed t" unfolding auth using ty set_auth_wf [of user pass s]
    by (auto simp: typed_def socks5_server_set_auth_def bind_wf_def listeners_wf_def split: option.split)
  ultimately show ?thesis by blast
next
  case (bind addrs)
  have "joint_inv t L M X" unfolding bind
    by (rule joint_same [OF j]) (simp_all add: socks5_server_set_bind_addrs_def same_ctl_def udp_tabs_def)
  moreover have "typed t" unfolding bind using ty set_bind_addrs_wf [of addrs s]
    by (auto simp: typed_def socks5_server_set_bind_addrs_def auth_wf_def listeners_wf_def)
  ultimately show ?thesis by blast
next
  case (verbose on)
  have "same_ctl s t" "udp_tabs t = udp_tabs s" "srv_view t = srv_view s" unfolding verbose
    by (simp_all add: socks5_server_set_udp_verbose_log_def same_ctl_def udp_tabs_def srv_view_def)
  from joint_same [OF j this(1,2)] typed_view [OF this(3)] ty show ?thesis by blast
next
  case (world a1 a2 a3 a4 a5 a6 a7 a8 a9 b1 b2 b3 b4 b5 b6 b7 b8 b9)
  have "same_ctl s t" "udp_tabs t = udp_tabs s" "srv_view t = srv_view s" unfolding world
    by (simp_all add: same_ctl_def udp_tabs_def srv_view_def)
  from joint_same [OF j this(1,2)] typed_view [OF this(3)] ty show ?thesis by blast
qed

lemma main_dynamic_frame:
  assumes "socks5_server_main_dynamic s = (0, t)"
  shows "\<not> server_running s" "server_running t" "g_conn_count t = 0" "auth_wf t = auth_wf s" "bind_wf t = bind_wf s" "no_extra_workers t = no_extra_workers s"
  using assms by (auto simp: socks5_server_main_dynamic_def ghost_purge_reset_def auth_wf_def bind_wf_def no_extra_workers_def split: if_splits)

lemma served_main:
  "auth_wf s \<Longrightarrow> bind_wf s \<Longrightarrow> no_extra_workers s \<Longrightarrow> socks5_server_main_dynamic s = (0, s1) \<Longrightarrow>
   listener_start port s1 = (True, t) \<Longrightarrow> served port t"
  using served.started [of s1 port t] main_dynamic_frame [of s s1] by simp

lemma served_inv: "served port s \<Longrightarrow> (\<exists>L M X. joint_inv s L M X) \<and> typed s"
proof (induction rule: served.induct)
  case (started s t)
  from start_joint [of s port t] started show ?case by blast
next
  case (more s t)
  then show ?case using serve_step_inv by blast
qed

end
