(* ===== verification/Shutdown.thy ===== *)
theory Shutdown
  imports Process
begin

text \<open>
  Stopping the server: whatever it was doing, \<open>socks5_server_quit\<close> leaves no listener, no waiting
  handshake, no connection and no session on any list, and a consistent count. Also the two ways in
  which the listener thread ends before it serves.
\<close>

section \<open>The running flag\<close>

lemma run_handshake: "handle_handshake_fd cf s = Some t \<Longrightarrow> server_running t = server_running s"
proof -
  assume h: "handle_handshake_fd cf s = Some t"
  obtain r s1 where neg: "hs_negotiate cf s = (r, s1)" by force
  note n = conjunct2 [OF more_negotiate [OF neg]]
  show ?thesis
  proof (cases r)
    case None
    then show ?thesis using h neg n by (auto simp: handle_handshake_fd_def more_prim(1))
  next
    case (Some x)
    obtain cmd host port where x: "x = (cmd, host, port)" by (metis prod.exhaust)
    have d: "hs_dispatch cf (cmd, host, port) s1 = Some t" using h neg Some x by (simp add: handle_handshake_fd_def)
    have j: "request_java_5g_socket u = (q, v) \<Longrightarrow> server_running v = server_running u" for q and u v :: "'a server_scheme"
      by (auto simp: request_java_5g_socket_def split: list.splits)
    have "server_running t = server_running s1"
    proof (cases "cmd \<noteq> 1 \<and> socks5_is_supported_cmd cmd")
      case True
      then have "udp_start_session cf (uint cmd) s1 = Some t" using d by (simp add: hs_dispatch_def)
      from outside_start [OF this] show ?thesis by (simp add: outside_def)
    next
      case False
      then show ?thesis using d
        by (auto simp: hs_dispatch_def Let_def more_prim split: if_splits prod.splits dest!: j more_handoff)
    qed
    then show ?thesis using n by simp
  qed
qed

section \<open>Draining the handshake pool\<close>

text \<open>
  The drain stays within what the model of a handshake covers: no round-robin counter wraps, and the
  Java side does not answer with the descriptor of the client it is asked for.
\<close>

fun drain_ok :: "nat \<Rightarrow> 'a server_scheme \<Rightarrow> bool" where
  "drain_ok 0 s = True"
| "drain_ok (Suc n) s =
     (case job_pool_take (g_handshake_pool s) of
        (None, p) \<Rightarrow> True
      | (Some j, p) \<Rightarrow> 0 \<le> sint (next_worker_idx s) \<and> 0 \<le> sint (g_udp_next_worker s) \<and>
          list_all (\<lambda>(f, e). f \<noteq> pj_fd j) (o_java s) \<and>
          (case handle_handshake_job j (s\<lparr>g_handshake_pool := p\<rparr>) of None \<Rightarrow> True | Some t \<Rightarrow> drain_ok n t))"

lemma pool_drain_inv:
  assumes "joint_inv s L M X" and "typed s" and "drain_ok n s" and "length (pool_queue (g_handshake_pool s)) \<le> n"
  shows "\<exists>t L' M'. pool_drain n s = Some t \<and> joint_inv t L' M' X \<and> typed t \<and> pool_queue (g_handshake_pool t) = [] \<and>
    server_running t = server_running s \<and> g_listeners t = g_listeners s \<and> grew s t \<and> (\<forall>ip. canonical ip t = canonical ip s)"
  using assms
proof (induction n arbitrary: s L M)
  case 0
  then show ?case by auto
next
  case (Suc n)
  obtain oj p where tk: "job_pool_take (g_handshake_pool s) = (oj, p)" by force
  have wf: "pool_wf (g_handshake_pool s)" using Suc.prems(2) by (simp add: typed_def pool_fds_def)
  note g = jobs.get_step [OF wf tk]
  show ?case
  proof (cases oj)
    case None
    then have "jp_count (g_handshake_pool s) = 0" using tk by (auto simp: job_pool_take_def split: if_splits)
    then have "pool_queue (g_handshake_pool s) = []" by (simp add: pool_queue_def ring_list_def)
    then show ?thesis using Suc.prems tk None by (intro exI [of _ s] exI [of _ L] exI [of _ M]) simp
  next
    case (Some j)
    let ?s = "s\<lparr>g_handshake_pool := p\<rparr>"
    have ok: "0 \<le> sint (next_worker_idx s)" "0 \<le> sint (g_udp_next_worker s)" "\<forall>(f, e) \<in> set (o_java s). f \<noteq> pj_fd j"
      using Suc.prems(3) tk Some by (auto simp: list_all_iff)
    have pf: "0 \<le> pj_fd j" using take_fds [of "g_handshake_pool s" j p] tk Some Suc.prems(2) by (simp add: typed_def)
    have "joint_inv ?s L M X" by (rule joint_same [OF Suc.prems(1)]) (simp_all add: same_ctl_def udp_tabs_def)
    from joint_handshake [OF this pf] ok obtain t where h: "handle_handshake_job j ?s = Some t" "grew s t"
      by (auto simp: handle_handshake_job_def grew_def)
    from job_inv [OF Suc.prems(1,2) _ ok h(1)] tk Some obtain L' M' where
      t: "joint_inv t L' M' X" "typed t" "g_handshake_pool t = p" by blast
    have "canonical ip ?s = canonical ip s" for ip by (simp add: canonical_def cong: option.case_cong)
    then have cn: "canonical ip t = canonical ip s" for ip
      using canonical_view [OF view_handshake [of "pj_fd j" ?s t]] h by (simp add: handle_handshake_job_def)
    have v: "server_running t = server_running s" "g_listeners t = g_listeners s"
      using run_handshake [of "pj_fd j" ?s t] view_handshake [of "pj_fd j" ?s t] h by (simp_all add: handle_handshake_job_def srv_view_def)
    have "drain_ok n t" "length (pool_queue (g_handshake_pool t)) \<le> n" using Suc.prems(3,4) tk Some h g t(3) by simp_all
    from Suc.IH [OF t(1,2) this] show ?thesis using tk Some h v cn grew_trans [OF h(2)] by auto
  qed
qed

section \<open>Stopping the workers\<close>

lemma lists_off: "(\<lambda>w. if w \<in> set (v # ws) then [] else (L :: nat \<Rightarrow> nat list) w) = (\<lambda>w. if w \<in> set ws then [] else (L(v := [])) w)"
  by auto

lemma close_wake_pipe_form: "\<exists>p l. close_wake_pipe w s = s\<lparr>dns_wake_pipe := p, o_log := o_log s @ l\<rparr>"
proof -
  obtain a b where p: "dns_wake_pipe s w = (a, b)" by force
  let ?q = "if a \<ge> 0 then (dns_wake_pipe s)(w := (-1, b)) else dns_wake_pipe s"
  have "close_wake_pipe w s = s\<lparr>dns_wake_pipe := (if b \<ge> 0 then ?q(w := (fst (?q w), -1)) else ?q),
      o_log := o_log s @ ((if a \<ge> 0 then [CLOSE a] else []) @ (if b \<ge> 0 then [CLOSE b] else []))\<rparr>"
    by (cases "a \<ge> 0"; cases "b \<ge> 0") (simp_all add: close_wake_pipe_def p Let_def os_close_def log_ev_def)
  then show ?thesis by blast
qed

lemma stop_udp_workers:
  assumes "joint_inv s L M X"
  shows "joint_inv (foldl (\<lambda>t w. stop_udp_worker w t) s ws) L (\<lambda>w. if w \<in> set ws then [] else M w) X \<and>
    srv_view (foldl (\<lambda>t w. stop_udp_worker w t) s ws) = srv_view s \<and> server_running (foldl (\<lambda>t w. stop_udp_worker w t) s ws) = server_running s \<and>
    grew s (foldl (\<lambda>t w. stop_udp_worker w t) s ws)"
  using assms
proof (induction ws arbitrary: s M)
  case (Cons v ws)
  let ?u = "udp_worker_exit v [] s"
  have c: "same_ctl ?u (close_wake_pipe v ?u)" "udp_tabs (close_wake_pipe v ?u) = udp_tabs ?u" "srv_view (close_wake_pipe v ?u) = srv_view ?u"
    "server_running (close_wake_pipe v ?u) = server_running ?u"
    using close_wake_pipe_form [of v ?u] by (auto simp: same_ctl_def udp_tabs_def srv_view_def)
  have j: "joint_inv (stop_udp_worker v s) L (M(v := [])) X"
    unfolding stop_udp_worker_def by (rule joint_same [OF joint_exits(2) [OF Cons.prems] c(1,2)])
  have r: "srv_view (stop_udp_worker v s) = srv_view s" "server_running (stop_udp_worker v s) = server_running s"
    using c(3,4) outside_view [OF outside_exit [of v "[]" s]] outside_exit [of v "[]" s] by (simp_all add: stop_udp_worker_def outside_def)
  have g: "grew s (stop_udp_worker v s)"
    using grew_udp_exit [of s v "[]"] close_wake_pipe_form [of v ?u] by (auto simp: stop_udp_worker_def grew_def)
  show ?case using Cons.IH [OF j] r grew_trans [OF g] by (auto simp only: lists_off foldl_Cons)
qed simp

lemma stop_workers:
  assumes "joint_inv s L M X"
  shows "joint_inv (foldl (\<lambda>t w. worker_exit w [] t) s ws) (\<lambda>w. if w \<in> set ws then [] else L w) M X \<and>
    srv_view (foldl (\<lambda>t w. worker_exit w [] t) s ws) = srv_view s \<and> server_running (foldl (\<lambda>t w. worker_exit w [] t) s ws) = server_running s \<and>
    grew s (foldl (\<lambda>t w. worker_exit w [] t) s ws)"
  using assms
proof (induction ws arbitrary: s L)
  case (Cons v ws)
  have r: "srv_view (worker_exit v [] s) = srv_view s" "server_running (worker_exit v [] s) = server_running s"
    using tcp_more_view [OF more_exit [of v "[]" s]] by simp_all
  have g: "grew s (worker_exit v [] s)" by (rule grew_worker_exit)
  show ?case using Cons.IH [OF joint_exits(1) [OF Cons.prems]] r grew_trans [OF g] by (auto simp only: lists_off foldl_Cons)
qed simp

definition closings :: "bool \<Rightarrow> fd \<times> cstring \<Rightarrow> sysev list" where
  "closings b e = (if fst e \<ge> 0 then (if b then [SHUTDOWN (fst e)] else []) @ [CLOSE (fst e)] else [])"

lemma close_listener_fds_form:
  "close_listener_fds b s = s\<lparr>o_log := o_log s @ concat (map (closings b) (g_listeners s)), g_listeners := []\<rparr>"
proof -
  have one: "(if f \<ge> 0 then os_close f (if b then log_ev (SHUTDOWN f) u else u) else u) = u\<lparr>o_log := o_log u @ closings b (f, ip)\<rparr>"
    for f ip and u :: "'a server_scheme" by (simp add: os_close_def log_ev_def closings_def)
  have "foldl (\<lambda>t (f, ip). if f \<ge> 0 then os_close f (if b then log_ev (SHUTDOWN f) t else t) else t) u xs =
      u\<lparr>o_log := o_log u @ concat (map (closings b) xs)\<rparr>" for xs and u :: "'a server_scheme"
  proof (induction xs arbitrary: u)
    case (Cons x xs)
    obtain f ip where x: "x = (f, ip)" by force
    have "foldl (\<lambda>t (f, ip). if f \<ge> 0 then os_close f (if b then log_ev (SHUTDOWN f) t else t) else t) u (x # xs) =
      foldl (\<lambda>t (f, ip). if f \<ge> 0 then os_close f (if b then log_ev (SHUTDOWN f) t else t) else t) (u\<lparr>o_log := o_log u @ closings b (f, ip)\<rparr>) xs"
      unfolding x foldl_Cons prod.case one [of f u ip] ..
    then show ?case unfolding Cons.IH by (simp add: x)
  qed simp
  then show ?thesis by (simp add: close_listener_fds_def)
qed

section \<open>Quitting\<close>

lemma quit_begin_form:
  "\<exists>l. quit_begin s = s\<lparr>server_running := False, o_log := o_log s @ concat (map (closings True) (g_listeners s)) @ l, g_listeners := [],
     g_handshake_pool := job_pool_shutdown (g_handshake_pool s)\<rparr>"
  by (rule exI [of _ "if snd (g_shutdown_pipe s) \<noteq> -1 then replicate 200 (WAKE (snd (g_shutdown_pipe s))) else []"])
    (simp add: quit_begin_def listener_exit_def close_listener_fds_form Let_def)

lemma quit_begin_inv:
  assumes "joint_inv s L M X" and "typed s"
  shows "joint_inv (quit_begin s) L M X" and "typed (quit_begin s)" and "g_listeners (quit_begin s) = []" and "\<not> server_running (quit_begin s)"
proof -
  have "pool_fds (job_pool_shutdown p) = pool_fds p" for p
    by (simp add: pool_fds_def job_pool_shutdown_def pool_wf_def pool_queue_def)
  then show "joint_inv (quit_begin s) L M X" "typed (quit_begin s)" "g_listeners (quit_begin s) = []" "\<not> server_running (quit_begin s)"
    using quit_begin_form [of s] assms(2) joint_same [OF assms(1), of "quit_begin s"]
    by (auto simp: typed_def auth_wf_def bind_wf_def listeners_wf_def same_ctl_def udp_tabs_def)
qed

lemma joint_empty:
  assumes "joint_inv s (\<lambda>_. []) (\<lambda>_. []) X"
  shows "active_count s = 0" and "udp_active s = int (length X)" and "g_conn_count s = int (length X)" and "no_extra_workers s"
proof -
  note e = joint_invD(1) [OF assms] and u = joint_invD(2) [OF assms]
  have "{i. i < CONN_SLOT_COUNT \<and> g_slot_state s i} = {}" using eng_invD(12) [OF e] by auto
  then show a: "active_count s = 0" unfolding active_count_def by simp
  note d = tb_invD [OF udp_inv_tb [OF u]]
  have "{i. i < UDP_SLOT_COUNT \<and> g_udp_slot_state s i} = set X" using d(9,10) d(13) by auto
  then show b: "udp_active s = int (length X)" using distinct_card [OF d(8)] by (simp add: udp_active_def)
  show "g_conn_count s = int (length X)" using udp_inv_split [OF u] a b by simp
  have "conn_list_head s w = None" for w using eng_invD(2) [OF e, of w] by (simp add: conn_list_def dl_rep_def)
  moreover have "udp_list_head s w = None" for w using d(3) [of w] by (simp add: tb_list_def dl_rep_def)
  ultimately show "no_extra_workers s" by (simp add: no_extra_workers_def)
qed

lemma quit_outcome:
  assumes j: "joint_inv s L M X" and ty: "typed s" and run: "server_running s" and ok: "drain_ok HANDSHAKE_QUEUE_SIZE (quit_begin s)"
  shows "\<exists>t. socks5_server_quit s = Some t \<and> joint_inv t (\<lambda>_. []) (\<lambda>_. []) X \<and> typed t \<and> \<not> server_running t \<and>
    g_listeners t = [] \<and> pool_queue (g_handshake_pool t) = [] \<and> g_shutdown_pipe t = (-1, -1) \<and>
    (\<exists>l. o_log t = o_log s @ concat (map (closings True) (g_listeners s)) @ l) \<and> (\<forall>ip. canonical ip t = canonical ip s)"
proof -
  note q = quit_begin_inv [OF j ty]
  have "length (pool_queue (g_handshake_pool (quit_begin s))) \<le> HANDSHAKE_QUEUE_SIZE"
    using q(2) jobs.bounded [of "g_handshake_pool (quit_begin s)"] by (simp add: typed_def pool_fds_def)
  from pool_drain_inv [OF q(1,2) ok this] obtain s5 L' M' where
    5: "pool_drain HANDSHAKE_QUEUE_SIZE (quit_begin s) = Some s5" "joint_inv s5 L' M' X" "typed s5" "pool_queue (g_handshake_pool s5) = []"
    "\<not> server_running s5" "g_listeners s5 = []" "grew (quit_begin s) s5"
    "\<And>ip. canonical ip s5 = canonical ip (quit_begin s)" using q(3,4) by auto
  let ?s6 = "udp_dns_resolvers_stop s5"
  have j6: "joint_inv ?s6 L' M' X" by (rule joint_same [OF 5(2)]) (simp_all add: udp_dns_resolvers_stop_def same_ctl_def udp_tabs_def)
  let ?s7 = "foldl (\<lambda>t w. stop_udp_worker w t) ?s6 [0..<UDP_WORKER_COUNT]" and ?M = "\<lambda>w. if w \<in> set [0..<UDP_WORKER_COUNT] then [] else M' w"
  let ?s8 = "foldl (\<lambda>t w. worker_exit w [] t) ?s7 [0..<WORKER_COUNT]" and ?L = "\<lambda>w. if w \<in> set [0..<WORKER_COUNT] then [] else L' w"
  note 7 = stop_udp_workers [OF j6, of "[0..<UDP_WORKER_COUNT]"]
  note 8 = stop_workers [OF conjunct1 [OF 7], of "[0..<WORKER_COUNT]"]
  have "?L = (\<lambda>_. [])" "?M = (\<lambda>_. [])" using joint_invD(4,5) [OF 5(2)] by (auto simp: fun_eq_iff)
  with 8 have j8: "joint_inv ?s8 (\<lambda>_. []) (\<lambda>_. []) X" by simp
  have v8: "srv_view ?s8 = srv_view s5" "server_running ?s8 = server_running s5"
    using 7 8 by (simp_all add: udp_dns_resolvers_stop_def) (simp_all add: srv_view_def)
  have "\<exists>l. close_pipe ?s8 = ?s8\<lparr>o_log := o_log ?s8 @ l, g_shutdown_pipe := (-1, -1)\<rparr>"
  proof -
    obtain a b where p: "g_shutdown_pipe ?s8 = (a, b)" by force
    show ?thesis by (rule exI [of _ "(if a \<noteq> -1 then [CLOSE a] else []) @ (if b \<noteq> -1 then [CLOSE b] else [])"])
        (simp add: close_pipe_def p Let_def os_close_def log_ev_def)
  qed
  then obtain l where t: "close_pipe ?s8 = ?s8\<lparr>o_log := o_log ?s8 @ l, g_shutdown_pipe := (-1, -1)\<rparr>" by blast
  have "socks5_server_quit s = Some (close_pipe ?s8)" using run 5(1) by (simp add: socks5_server_quit_def Let_def)
  moreover have "joint_inv (close_pipe ?s8) (\<lambda>_. []) (\<lambda>_. []) X" unfolding t by (rule joint_same [OF j8]) (simp_all add: same_ctl_def udp_tabs_def)
  moreover have "srv_view (close_pipe ?s8) = srv_view s5" using v8(1) unfolding t by (simp add: srv_view_def)
  moreover have "g_shutdown_pipe (close_pipe ?s8) = (-1, -1)" "server_running (close_pipe ?s8) = server_running ?s8" unfolding t by simp_all
  moreover have "\<exists>l. o_log (close_pipe ?s8) = o_log s @ concat (map (closings True) (g_listeners s)) @ l"
  proof -
    have "grew s5 ?s6" by (simp add: udp_dns_resolvers_stop_def grew_eq)
    then have "grew s5 ?s8" using 7 8 grew_trans by blast
    from grew_trans [OF 5(7) this] have "grew (quit_begin s) ?s8" .
    moreover have "grew ?s8 (close_pipe ?s8)" unfolding t by (simp add: grew_def)
    ultimately have "grew (quit_begin s) (close_pipe ?s8)" by (rule grew_trans)
    moreover obtain k where "o_log (quit_begin s) = o_log s @ concat (map (closings True) (g_listeners s)) @ k"
      using quit_begin_form [of s] by auto
    ultimately show ?thesis by (auto simp: grew_def)
  qed
  moreover have "canonical ip (close_pipe ?s8) = canonical ip s" for ip
  proof -
    have "canonical ip ?s6 = canonical ip s5" by (simp add: udp_dns_resolvers_stop_def canonical_def cong: option.case_cong)
    moreover have "srv_view ?s8 = srv_view ?s6" using 7 8 by simp
    moreover have "canonical ip (close_pipe ?s8) = canonical ip ?s8" unfolding t by (simp add: canonical_def cong: option.case_cong)
    moreover have "canonical ip (quit_begin s) = canonical ip s" using quit_begin_form [of s] by (auto simp: canonical_def cong: option.case_cong)
    ultimately show ?thesis using canonical_view [of ?s8 ?s6] 5(8) by simp
  qed
  ultimately show ?thesis using typed_view [of "close_pipe ?s8" s5] 5(3-6) v8(2)
    by (intro exI [of _ "close_pipe ?s8"]) (simp add: srv_view_def)
qed

end
