(* ===== verification/Lifecycle.thy ===== *)
theory Lifecycle
  imports Shutdown
begin

text \<open>
  What holds of the running process from start to stop: the types and the accounts of every state it
  reaches while it serves, the outcomes of a start, and the state a stop leaves behind.
\<close>

section \<open>The running flag\<close>

lemma start_workers_rest:
  "g_handshake_pool (start_workers s) = job_pool_init HANDSHAKE_POOL_SIZE HANDSHAKE_QUEUE_SIZE \<and> server_running (start_workers s) = server_running s"
proof -
  have 1: "server_running (foldl (\<lambda>t w. init_worker w t) u ws) = server_running u" for ws and u :: "'a server_scheme"
    by (induction ws arbitrary: u) (simp_all add: init_worker_def os_epoll_create_def split: list.split)
  have 2: "server_running (init_udp_worker w u) = server_running u \<and> g_handshake_pool (init_udp_worker w u) = g_handshake_pool u"
    for w and u :: "'a server_scheme"
    by (auto simp: init_udp_worker_def os_epoll_create_def os_pipe_def Let_def split: list.split option.split)
  have "server_running (foldl (\<lambda>t w. init_udp_worker w t) u ws) = server_running u \<and>
      g_handshake_pool (foldl (\<lambda>t w. init_udp_worker w t) u ws) = g_handshake_pool u" for ws and u :: "'a server_scheme"
    by (induction ws arbitrary: u) (simp_all add: 2)
  then show ?thesis by (simp add: start_workers_def Let_def udp_dns_resolvers_start_def udp_slots_init_def ghost_purge_set_epoll_fds_def 1)
qed

lemma start_rest:
  assumes "bind_wf s" and "server_running s" and "listener_start port s = (True, t)"
  shows "server_running t \<and> pool_queue (g_handshake_pool t) = []"
proof -
  obtain p s1 where p: "os_pipe s = (Some p, s1)" using assms(3) by (auto simp: listener_start_def split: prod.splits option.splits)
  define s2 where "s2 = (slots_init (s1\<lparr>g_shutdown_pipe := p\<rparr>))\<lparr>g_listeners := []\<rparr>"
  have t: "t = start_workers (reconcile_listeners port s2)"
    using assms(3) by (auto simp: listener_start_def p Let_def s2_def split: if_splits)
  have "bind_wf s2 \<and> server_running s2" using assms(1,2) p
    by (auto simp: s2_def bind_wf_def slots_init_def os_pipe_def split: list.splits)
  then have "server_running (reconcile_listeners port s2)" using reconcile_lst(1) [of s2 port] by (simp add: lst_only_def)
  then show ?thesis by (simp add: t start_workers_rest)
qed

lemma start_canonical:
  assumes "bind_wf s" and "listener_start port s = (True, t)" and "no_extra_workers s"
  shows "canonical ip t = canonical ip s"
proof -
  obtain p s1 where p: "os_pipe s = (Some p, s1)" using assms(2) by (auto simp: listener_start_def split: prod.splits option.splits)
  define s2 where "s2 = (slots_init (s1\<lparr>g_shutdown_pipe := p\<rparr>))\<lparr>g_listeners := []\<rparr>"
  define s3 where "s3 = reconcile_listeners port s2"
  have t: "t = start_workers s3"
    using assms(2) by (auto simp: listener_start_def p Let_def s2_def s3_def split: if_splits)
  have 2: "bind_wf s2" "canonical ip s2 = canonical ip s" "no_extra_workers s2" using assms(1,3) p
    by (auto simp: s2_def bind_wf_def slots_init_def os_pipe_def canonical_def no_extra_workers_def split: list.splits cong: option.case_cong)
  have "no_extra_workers s3" using 2(3) reconcile_lst(1) [OF 2(1), of port] by (simp add: s3_def lst_only_def no_extra_workers_def tcp_tabs_def udp_tabs_def)
  from canonical_view [OF start_workers_tabs(4) [OF this]] have "canonical ip t = canonical ip s3" by (simp add: t canonical_def cong: option.case_cong)
  then show ?thesis using reconcile_canonical [OF 2(1)] 2(2) by (simp add: s3_def)
qed

lemma serve_step_running:
  assumes "serve_step port s t" and "typed s"
  shows "server_running t = server_running s"
  using assms(1)
proof cases
  case (round res shut ready b)
  from round_typed [OF assms(2) this] show ?thesis by (simp add: lst_only_def)
next
  case (job j p)
  then show ?thesis using run_handshake [of "pj_fd j" "s\<lparr>g_handshake_pool := p\<rparr>" t] by (simp add: handle_handshake_job_def)
next
  case (tcp w es now lc g lc')
  from more_iteration [OF tcp(3)] show ?thesis by simp
next
  case (udp w es now lc g lc')
  from outside_iteration [OF udp(4)] show ?thesis by (simp add: outside_def)
next
  case (answer r ans)
  then show ?thesis by (auto simp: udp_dns_answer_def udp_dns_wake_worker_def upd_job_def log_ev_def split: option.split)
qed (auto simp: udp_dns_dequeue_def socks5_server_set_auth_def socks5_server_set_bind_addrs_def socks5_server_set_udp_verbose_log_def
    split: if_splits option.split)

lemma served_running: "served port s \<Longrightarrow> server_running s"
proof (induction rule: served.induct)
  case (started s t)
  then show ?case using start_rest [of s port t] by simp
next
  case (more s t)
  then show ?case using serve_step_running served_inv by blast
qed

section \<open>Serving\<close>

lemma tcp_free_length:
  assumes "joint_inv s L M X"
  shows "int (length (tcp_free s)) = int CONN_SLOT_COUNT - active_count s" and "int (length (udp_free s)) = int UDP_SLOT_COUNT - udp_active s"
proof -
  show "int (length (tcp_free s)) = int CONN_SLOT_COUNT - active_count s"
    using tcp_pool.free_plus_active [OF eng_invD(1) [OF joint_invD(1) [OF assms]]] by (simp add: active_count_def)
  have "udp_pool.pool_inv s" using joint_invD(2) [OF assms] tb_invD(1,2) [OF udp_inv_tb [OF joint_invD(2) [OF assms]]]
    by (simp add: udp_pool.pool_inv_def udp_inv_def)
  from udp_pool.free_plus_active [OF this] show "int (length (udp_free s)) = int UDP_SLOT_COUNT - udp_active s" by (simp add: udp_active_def)
qed

lemma active_nonneg [simp]: "0 \<le> active_count s" "0 \<le> udp_active u"
  by (simp_all add: active_count_def udp_active_def)

text \<open>
  C3. The accounts of the running server: in every state that handshakes, worker turns, resolver
  answers, listener rounds, configuration calls and the kernel can lead to, the global connection
  count is the number of TCP slots in use plus the number of UDP slots in use, it lies between zero
  and the quota of 1024, and each slot table still has its reserve of free slots.
\<close>

theorem serving_accounts:
  assumes "served port s"
  shows "g_conn_count s = active_count s + udp_active s \<and> 0 \<le> g_conn_count s \<and> g_conn_count s \<le> MAX_CONCURRENT_CONNS \<and>
    int CONN_SLOT_COUNT - MAX_CONCURRENT_CONNS \<le> int (length (tcp_free s)) \<and>
    int UDP_SLOT_COUNT - MAX_CONCURRENT_CONNS \<le> int (length (udp_free s))"
proof -
  obtain L M X where j: "joint_inv s L M X" using served_inv [OF assms] by blast
  have "active_count s \<ge> 0" "udp_active s \<ge> 0" by simp_all
  then show ?thesis using udp_inv_split [OF joint_invD(2) [OF j]] joint_invD(3) [OF j] tcp_free_length [OF j] by linarith
qed

text \<open>
  C7. The types of the running server: in every state it reaches, credentials, bind addresses and
  listener texts fit their buffers, the handshake queue is a well-formed ring of 1024 descriptors,
  every TCP slot in use carries the magic number, its own slot number, one reference and the index of one of
  the four TCP workers, and every UDP slot in use carries its own slot number, one reference and the
  index of one of the UDP workers, also while it is closing or no longer on a list.
\<close>

theorem serving_types:
  assumes "served port s"
  shows "auth_wf s \<and> bind_wf s \<and> listeners_wf s \<and> pool_wf (g_handshake_pool s) \<and>
    length (pool_queue (g_handshake_pool s)) \<le> HANDSHAKE_QUEUE_SIZE \<and>
    (\<forall>j \<in> set (pool_queue (g_handshake_pool s)). 0 \<le> pj_fd j) \<and>
    (\<forall>i < CONN_SLOT_COUNT. g_slot_state s i \<longrightarrow> fc_magic (g_slots s i) = CONN_MAGIC \<and> fc_slot (g_slots s i) = i \<and>
       fc_widx (g_slots s i) < WORKER_COUNT \<and> fc_refs (g_slots s i) = 1) \<and>
    (\<forall>i < UDP_SLOT_COUNT. g_udp_slot_state s i \<longrightarrow> u_slot (g_udp_slots s i) = i \<and> u_refs (g_udp_slots s i) = 1 \<and>
       u_widx (g_udp_slots s i) < UDP_WORKER_COUNT)"
proof -
  obtain L M X where j: "joint_inv s L M X" and ty: "typed s" using served_inv [OF assms] by blast
  note e = joint_invD(1) [OF j] and u = joint_invD(2) [OF j]
  have "fc_magic (g_slots s i) = CONN_MAGIC \<and> fc_slot (g_slots s i) = i \<and> fc_widx (g_slots s i) < WORKER_COUNT \<and> fc_refs (g_slots s i) = 1"
    if a: "i < CONN_SLOT_COUNT" "g_slot_state s i" for i
  proof -
    obtain w where w: "i \<in> set (L w)" using eng_invD(12) [OF e a] by auto
    then have "w < WORKER_COUNT" using joint_invD(4) [OF j, of w] by (cases "w < WORKER_COUNT") auto
    then show ?thesis using eng_invD(6) [OF e w] by (simp add: live_on_def)
  qed
  moreover have "u_slot (g_udp_slots s i) = i \<and> u_refs (g_udp_slots s i) = 1" if a: "i < UDP_SLOT_COUNT" "g_udp_slot_state s i" for i
  proof (cases "i \<in> set X")
    case True
    from tb_invD(11) [OF udp_inv_tb [OF u] this] show ?thesis by (auto simp: cell_off_def)
  next
    case False
    then obtain w where w: "i \<in> set (M w)" using tb_invD(13) [OF udp_inv_tb [OF u]] a by auto
    then show ?thesis using udp_inv_listed(5-7) [OF u w] by simp
  qed
  moreover have "u_widx (g_udp_slots s i) < UDP_WORKER_COUNT" if "i < UDP_SLOT_COUNT" "g_udp_slot_state s i" for i
  proof -
    have "widx s i = Some (u_widx (g_udp_slots s i))" using that by (simp add: widx_def)
    then show ?thesis using joint_invD(6) [OF j] by (auto simp: widx_ok_def intro: ranI)
  qed
  moreover have "length (pool_queue (g_handshake_pool s)) \<le> HANDSHAKE_QUEUE_SIZE"
    using ty jobs.bounded [of "g_handshake_pool s"] by (simp add: typed_def pool_fds_def)
  ultimately show ?thesis using ty by (simp add: typed_def pool_fds_def)
qed

section \<open>Starting\<close>

lemma main_dynamic_gate: "fst (socks5_server_main_dynamic s) = (if server_running s then -1 else 0)"
  by (simp add: socks5_server_main_dynamic_def)

text \<open>
  C12. What a start can come to. With a table of workers that is not larger than the arrays, the
  listener thread either serves, with a listener open and the engines empty; or it found no address
  to listen on, and then the flag is cleared and the shutdown pipe is gone, so that a later start is
  admitted; or the shutdown pipe could not be made, and then the server has no listener but still
  claims to run, so that every later start is refused.
\<close>

theorem start_outcome:
  assumes "no_extra_workers s" and "auth_wf s" and "bind_wf s" and "socks5_server_main_dynamic s = (0, s1)"
    and "listener_start port s1 = (ok, t)"
  shows "if ok then joint_inv t (\<lambda>_. []) (\<lambda>_. []) [] \<and> typed t \<and> g_listeners t \<noteq> []
    else if fst (os_pipe s1) = None
    then g_listeners t = g_listeners s \<and> server_running t \<and> fst (socks5_server_main_dynamic t) = -1
    else g_listeners t = [] \<and> g_shutdown_pipe t = (-1, -1) \<and> fst (socks5_server_main_dynamic t) = 0"
proof (cases ok)
  case True
  from start_joint [of s1 port t] main_dynamic_frame [OF assms(4)] assms True show ?thesis by simp
next
  case False
  note m = main_dynamic_frame [OF assms(4)]
  have l: "g_listeners s1 = g_listeners s" using assms(4)
    by (auto simp: socks5_server_main_dynamic_def ghost_purge_reset_def split: if_splits)
  obtain r v where p: "os_pipe s1 = (r, v)" by force
  show ?thesis
  proof (cases r)
    case None
    then have "g_listeners t = g_listeners s1 \<and> server_running t = server_running s1"
      using assms(5) p by (auto simp: listener_start_def os_pipe_def split: list.splits)
    then show ?thesis using False None p m(2) l by (simp add: main_dynamic_gate)
  next
    case (Some q)
    then obtain u where "t = close_pipe (u\<lparr>server_running := False\<rparr>)" "g_listeners u = []"
      using assms(5) p False by (auto simp: listener_start_def Let_def split: if_splits)
    then have "g_listeners t = [] \<and> g_shutdown_pipe t = (-1, -1) \<and> \<not> server_running t"
      by (simp add: close_pipe_def Let_def os_close_def log_ev_def split: prod.split)
    then show ?thesis using False Some p by (simp add: main_dynamic_gate)
  qed
qed

text \<open>A start that the kernel grants everything.\<close>

definition start_granted :: "'a server_scheme \<Rightarrow> bool" where
  "start_granted s \<longleftrightarrow> (\<exists>p q. k_pipe s = Some p # q) \<and> k_bind s = [] \<and> k_listen s = [] \<and> MAX_LISTENERS \<le> length (o_socket s) \<and>
     distinct (map fst (o_socket s)) \<and> (\<forall>r \<in> set (o_socket s). 0 \<le> fst r) \<and> (\<forall>ip \<in> set (wanted_addrs s). canonical ip s)"

lemma granted_start:
  assumes run: "server_running s" and wf: "bind_wf s" and g: "start_granted s"
  shows "fst (listener_start port s)"
proof -
  obtain p q where p: "k_pipe s = Some p # q" using g by (auto simp: start_granted_def)
  define s2 where "s2 = (slots_init (s\<lparr>k_pipe := q, g_shutdown_pipe := p\<rparr>))\<lparr>g_listeners := []\<rparr>"
  have f: "server_running s2" "g_bind_addrs s2 = g_bind_addrs s" "g_listeners s2 = []" "k_bind s2 = k_bind s" "k_listen s2 = k_listen s"
    "o_socket s2 = o_socket s" "inet_pton4 s2 = inet_pton4 s" "inet_pton6 s2 = inet_pton6 s"
    "inet_ntop4 s2 = inet_ntop4 s" "inet_ntop6 s2 = inet_ntop6 s"
    using run by (simp_all add: s2_def slots_init_def)
  have "bind_wf s2" "listeners_wf s2" "granting s2" "MAX_LISTENERS \<le> length (o_socket s2)"
    using wf g f(2-6) by (simp_all add: bind_wf_def listeners_wf_def granting_def start_granted_def)
  moreover have "\<forall>ip \<in> set (wanted_addrs s2). canonical ip s2"
    using g f(2,7-10) by (simp add: start_granted_def wanted_addrs_def canonical_def cong: option.case_cong)
  ultimately have "g_listeners (reconcile_listeners port s2) \<noteq> []" using reconcile_reaches [OF f(1), of port] by (auto simp: wanted_addrs_def)
  then show ?thesis using p by (simp add: listener_start_def os_pipe_def Let_def s2_def)
qed

section \<open>Stopping\<close>

text \<open>
  C6. A stop is complete and can be followed by a start. Whatever the running server was doing, and
  provided only that the handshakes still queued stay within the model, \<open>socks5_server_quit\<close> ends with
  the flag cleared, every descriptor of the listener table shut down and closed, no listener, no queued
  handshake, no shutdown pipe, no TCP slot in use and empty worker lists; the count that is left is the
  number of UDP slots that the workers had lost before. Every later start that succeeds reaches a
  serving state again, and a start succeeds when the kernel grants it the pipe and the sockets.
\<close>

theorem quit_then_restart:
  assumes "served port s" and "drain_ok HANDSHAKE_QUEUE_SIZE (quit_begin s)"
  shows "\<exists>t. socks5_server_quit s = Some t \<and> \<not> socks5_server_is_running t \<and> g_listeners t = [] \<and>
    pool_queue (g_handshake_pool t) = [] \<and> g_shutdown_pipe t = (-1, -1) \<and> active_count t = 0 \<and> g_conn_count t = udp_active t \<and>
    (\<forall>w. conn_list_head t w = None \<and> udp_list_head t w = None) \<and>
    (\<exists>l. o_log t = o_log s @ concat (map (closings True) (g_listeners s)) @ l) \<and>
    (\<forall>port' s1 ok u. socks5_server_main_dynamic t = (0, s1) \<longrightarrow> listener_start port' s1 = (ok, u) \<longrightarrow>
       (ok \<longrightarrow> served port' u) \<and> (start_granted s1 \<longrightarrow> ok))"
proof -
  obtain L M X where j: "joint_inv s L M X" and ty: "typed s" using served_inv [OF assms(1)] by blast
  from quit_outcome [OF j ty served_running [OF assms(1)] assms(2)] obtain t where
    q: "socks5_server_quit s = Some t" "joint_inv t (\<lambda>_. []) (\<lambda>_. []) X" "typed t" "\<not> server_running t"
    "g_listeners t = []" "pool_queue (g_handshake_pool t) = []" "g_shutdown_pipe t = (-1, -1)"
    "\<exists>l. o_log t = o_log s @ concat (map (closings True) (g_listeners s)) @ l" by blast
  note e = joint_empty [OF q(2)]
  have empty: "conn_list_head t w = None" "udp_list_head t w = None" for w
    using eng_invD(2) [OF joint_invD(1) [OF q(2)], of w] tb_invD(3) [OF udp_inv_tb [OF joint_invD(2) [OF q(2)]], of w]
    by (simp_all add: conn_list_def tb_list_def dl_rep_def)
  have again: "\<forall>port' s1 ok u. socks5_server_main_dynamic t = (0, s1) \<longrightarrow> listener_start port' s1 = (ok, u) \<longrightarrow>
       (ok \<longrightarrow> served port' u) \<and> (start_granted s1 \<longrightarrow> ok)"
  proof (intro allI impI)
    fix port' s1 ok u assume m: "socks5_server_main_dynamic t = (0, s1)" and st: "listener_start port' s1 = (ok, u)"
    have "served port' u" if ok using served_main [OF _ _ e(4) m] q(3) st that by (simp add: typed_def)
    moreover have ok if "start_granted s1"
      using granted_start [OF _ _ that, of port'] main_dynamic_frame(2,5) [OF m] q(3) st by (simp add: typed_def)
    ultimately show "(ok \<longrightarrow> served port' u) \<and> (start_granted s1 \<longrightarrow> ok)" by blast
  qed
  show ?thesis using q e(1-3) empty by (intro exI [of _ t] conjI) (rule again | simp add: socks5_server_is_running_def)+
qed

section \<open>A server on a local network\<close>

definition lan_boot :: "(fd \<times> fd) option list \<Rightarrow> server" where
  "lan_boot ps = lan_server\<lparr>server_running := False, k_pipe := ps\<rparr>"

definition lan_up :: server where
  "lan_up = snd (listener_start 1080 (snd (socks5_server_main_dynamic (lan_boot [Some (40, 41)]))))"

lemma lan_boot_ready: "no_extra_workers (lan_boot ps)" "auth_wf (lan_boot ps)" "bind_wf (lan_boot ps)" "\<not> server_running (lan_boot ps)"
proof -
  have "udp_list_head (server_boot p4 p6 n4 n6) = (\<lambda>_. None)" for p4 p6 n4 n6
    by (simp add: server_boot_def udp.defs server.defs udp_boot_def tcp.defs)
  then show "no_extra_workers (lan_boot ps)" by (simp add: no_extra_workers_def lan_boot_def lan_server_def socks5_server_set_bind_addrs_def)
  show "auth_wf (lan_boot ps)" by (simp add: auth_wf_def lan_boot_def lan_server_def socks5_server_set_bind_addrs_def server_boot_def udp.defs server.defs)
  show "bind_wf (lan_boot ps)" using lan_server_wf(1) by (simp add: bind_wf_def lan_boot_def)
qed (simp add: lan_boot_def)

lemma lan_main:
  "socks5_server_main_dynamic (lan_boot ps) = (0, snd (socks5_server_main_dynamic (lan_boot ps)))"
  using main_dynamic_gate [of "lan_boot ps"] lan_boot_ready(4) by (metis prod.collapse)

lemma lan_started: "listener_start 1080 (snd (socks5_server_main_dynamic (lan_boot [Some (40, 41)]))) = (True, lan_up)"
proof -
  define s1 where "s1 = snd (socks5_server_main_dynamic (lan_boot [Some (40, 41)]))"
  have f: "server_running s1" "g_bind_addrs s1 = g_bind_addrs lan_server" "k_bind s1 = []" "k_listen s1 = []"
    "o_socket s1 = o_socket lan_server" "inet_pton4 s1 = inet_pton4 lan_server" "inet_pton6 s1 = inet_pton6 lan_server"
    "inet_ntop4 s1 = inet_ntop4 lan_server" "inet_ntop6 s1 = inet_ntop6 lan_server" "k_pipe s1 = [Some (40, 41)]"
    by (simp_all add: s1_def socks5_server_main_dynamic_def ghost_purge_reset_def lan_boot_def)
  have "bind_wf s1" using lan_server_wf(1) f(2) by (simp add: bind_wf_def del: lan_server_simps)
  moreover have "start_granted s1"
    using lan_server_canonical lan_server_wf(3,4) f(2-10)
    by (simp add: start_granted_def wanted_addrs_def canonical_def granting_def del: lan_server_simps cong: option.case_cong)
  ultimately have "fst (listener_start 1080 s1)" using granted_start [OF f(1)] by blast
  then show ?thesis unfolding lan_up_def s1_def by (metis (full_types) prod.collapse)
qed

lemma lan_up_canonical: "canonical ip lan_up = canonical ip lan_server"
proof -
  have m: "canonical ip (snd (socks5_server_main_dynamic (lan_boot ps))) = canonical ip lan_server" for ps
    by (simp add: socks5_server_main_dynamic_def ghost_purge_reset_def lan_boot_def canonical_def cong: option.case_cong)
  show ?thesis using start_canonical [OF _ lan_started] main_dynamic_frame [OF lan_main, of "[Some (40, 41)]"] lan_boot_ready m by simp
qed

lemma lan_served: "served 1080 lan_up"
  by (rule served_main [OF lan_boot_ready(2,3,1) lan_main lan_started])

lemma lan_up_state: "joint_inv lan_up (\<lambda>_. []) (\<lambda>_. []) []" "typed lan_up" "g_listeners lan_up \<noteq> []"
  using start_joint [OF _ _ _ _ lan_started] main_dynamic_frame [OF lan_main, of "[Some (40, 41)]"] lan_boot_ready [of "[Some (40, 41)]"] by simp_all

lemma lan_up_idle: "server_running lan_up" "pool_queue (g_handshake_pool lan_up) = []"
  using start_rest [OF _ _ lan_started] main_dynamic_frame [OF lan_main, of "[Some (40, 41)]"] lan_boot_ready by simp_all

lemma lan_up_drain: "drain_ok HANDSHAKE_QUEUE_SIZE (quit_begin lan_up)"
proof -
  obtain n where n: "HANDSHAKE_QUEUE_SIZE = Suc n" by (metis HANDSHAKE_QUEUE_SIZE_def not0_implies_Suc zero_neq_numeral)
  have "pool_queue (g_handshake_pool (quit_begin lan_up)) = []"
    using quit_begin_form [of lan_up] lan_up_idle(2) by (auto simp: job_pool_shutdown_def pool_queue_def)
  then have "fst (job_pool_take (g_handshake_pool (quit_begin lan_up))) = None"
    by (simp add: job_pool_take_def pool_queue_def flip: length_0_conv)
  then show ?thesis unfolding n by (auto split: prod.split option.split)
qed

theorem quit_then_restart_witness:
  "\<exists>t. socks5_server_quit lan_up = Some t \<and> g_listeners t = [] \<and> \<not> socks5_server_is_running t"
  using quit_then_restart [OF lan_served lan_up_drain] by blast

theorem serving_accounts_witness:
  "served 1080 lan_up \<and> g_conn_count lan_up = active_count lan_up + udp_active lan_up"
  using serving_accounts [OF lan_served] lan_served by simp

theorem serving_types_witness: "served 1080 lan_up \<and> bind_wf lan_up \<and> listeners_wf lan_up"
  using serving_types [OF lan_served] lan_served by simp

theorem start_outcome_witness:
  "g_listeners lan_up \<noteq> [] \<and>
   server_running (snd (listener_start 1080 (snd (socks5_server_main_dynamic (lan_boot [None])))))"
proof -
  let ?s1 = "snd (socks5_server_main_dynamic (lan_boot [None]))"
  have "k_pipe ?s1 = [None]" by (simp add: socks5_server_main_dynamic_def ghost_purge_reset_def lan_boot_def)
  then obtain t where t: "listener_start 1080 ?s1 = (False, t)" "fst (os_pipe ?s1) = None" by (simp add: listener_start_def os_pipe_def)
  show ?thesis using start_outcome [OF lan_boot_ready(1-3) lan_main lan_started] start_outcome [OF lan_boot_ready(1-3) lan_main t(1)] t by simp
qed

end
