(* ===== verification/Jni_Bridge.thy ===== *)
theory Jni_Bridge
  imports Lifecycle
begin

text \<open>
  \<open>jni_bridge.c\<close>: the entry points the Android service calls, with the bridge's own running flag and
  the thread that calls \<open>socks5_server_main_dynamic\<close>. A thread that has been created and has not run
  yet is the port it was given. \<open>threads_up\<close> says on which port the listener thread has brought up
  the handshake, worker and resolver threads; joining them when they do not exist is the result
  \<open>None\<close>. What the Java virtual machine answers is an argument of each function.
\<close>

section \<open>State\<close>

record jni =
  g_jvm :: bool                           \<comment> \<open>whether it is not null\<close>
  g_native_engine_instance :: "nat option"
  g_mid_createSocket :: bool
  g_mid_notifyClosed :: bool
  g_mid_resolveHost :: bool
  g_server_running :: bool
  g_server_thread :: "nat option"
  listener_thread :: "nat option"
  threads_up :: "nat option"
  srv :: server

text \<open>A \<open>jstring\<close>: null, one whose characters the machine cannot provide, or its characters.\<close>

datatype jstr = JNull | JNoChars | JChars cstring

fun java_chars :: "jstr \<Rightarrow> cstring option" where
  "java_chars (JChars c) = Some c"
| "java_chars _ = None"

section \<open>Calls into Java\<close>

definition JNI_OK :: int where "JNI_OK = 0"
definition JNI_ERR :: int where "JNI_ERR = -1"
definition JNI_EDETACHED :: int where "JNI_EDETACHED = -2"
definition JNI_VERSION_1_6 :: int where "JNI_VERSION_1_6 = 0x00010006"

record jvm_answer =
  jv_getenv :: int
  jv_attach :: int

text \<open>Whether there is an environment, and whether the thread must detach afterwards.\<close>

definition get_jni_env :: "jvm_answer \<Rightarrow> jni \<Rightarrow> bool \<times> bool" where
  "get_jni_env v s =
     (if \<not> g_jvm s then (False, False)
      else if jv_getenv v = JNI_EDETACHED
      then (if jv_attach v \<noteq> 0 then (False, False) else (True, True))
      else (jv_getenv v = JNI_OK, False))"

text \<open>The descriptor, and whether \<open>createSocketFromNative\<close> threw.\<close>

definition jni_request_5g_socket :: "jvm_answer \<Rightarrow> fd \<times> bool \<Rightarrow> jni \<Rightarrow> fd" where
  "jni_request_5g_socket v r s =
     (case get_jni_env v s of (env, _) \<Rightarrow>
      if \<not> env \<or> g_native_engine_instance s = None \<or> \<not> g_mid_createSocket s then -1
      else if snd r then -1 else fst r)"

text \<open>\<open>jhost\<close>: \<open>NewStringUTF\<close> succeeded; \<open>exc\<close>: the call threw. The result is the return code and the text in \<open>out\<close>.\<close>

definition request_java_resolve_host :: "jvm_answer \<Rightarrow> bool \<Rightarrow> bool \<Rightarrow> jstr \<Rightarrow> nat \<Rightarrow> jni \<Rightarrow> int \<times> cstring" where
  "request_java_resolve_host v jhost exc jres out_len s =
     (if out_len = 0 then (-1, [])
      else case get_jni_env v s of (env, _) \<Rightarrow>
      if \<not> env \<or> g_native_engine_instance s = None \<or> \<not> g_mid_resolveHost s then (-1, [])
      else if \<not> jhost then (-1, [])
      else if exc then (-1, [])
      else case java_chars jres of
             None \<Rightarrow> (-1, [])
           | Some c \<Rightarrow> let out = str_bounded out_len c in ((if out \<noteq> [] then 0 else -1), out))"

text \<open>The descriptors \<open>notifySocketClosed\<close> is called with.\<close>

definition jni_release_socket :: "jvm_answer \<Rightarrow> fd \<Rightarrow> jni \<Rightarrow> fd list" where
  "jni_release_socket v f s =
     (case get_jni_env v s of (env, _) \<Rightarrow>
      if \<not> env \<or> g_native_engine_instance s = None \<or> \<not> g_mid_notifyClosed s then [] else [f])"

section \<open>Registration\<close>

definition JNI_OnLoad :: "int \<Rightarrow> bool \<Rightarrow> jni \<Rightarrow> int \<times> jni" where
  "JNI_OnLoad getenv exc s =
     (let s1 = s\<lparr>g_jvm := True\<rparr> in
      if getenv \<noteq> JNI_OK then (JNI_ERR, s1)
      else if exc then (JNI_ERR, s1)
      else (JNI_VERSION_1_6, s1))"

text \<open>\<open>thiz\<close> is the new global reference, \<open>mids\<close> which of the three methods the class has.\<close>

definition native_register_instance :: "nat \<Rightarrow> bool \<times> bool \<times> bool \<Rightarrow> jni \<Rightarrow> jni" where
  "native_register_instance thiz mids s =
     (let s1 = s\<lparr>g_jvm := True\<rparr> in
      if g_native_engine_instance s1 \<noteq> None \<and> g_mid_createSocket s1 \<and> g_mid_notifyClosed s1 \<and> g_mid_resolveHost s1 then s1
      else case mids of (c, n, r) \<Rightarrow>
        s1\<lparr>g_native_engine_instance := Some thiz, g_mid_createSocket := c, g_mid_notifyClosed := n, g_mid_resolveHost := r\<rparr>)"

section \<open>Starting and stopping\<close>

definition addr_texts_of :: "jstr list option \<Rightarrow> cstring list" where
  "addr_texts_of jaddrs =
     (case jaddrs of
        None \<Rightarrow> []
      | Some js \<Rightarrow> List.map_filter java_chars (take 32 js))"

definition apply_bind_addrs_from_java :: "jstr list option \<Rightarrow> 'a server_scheme \<Rightarrow> 'a server_scheme" where
  "apply_bind_addrs_from_java jaddrs s = socks5_server_set_bind_addrs (map Some (addr_texts_of jaddrs)) s"

definition native_start_socks5_server :: "nat \<Rightarrow> jstr list option \<Rightarrow> jni \<Rightarrow> string \<times> jni" where
  "native_start_socks5_server port jaddrs s =
     (if g_server_running s then (''Already running'', s)
      else (''Started'', s\<lparr>srv := apply_bind_addrs_from_java jaddrs (srv s), g_server_running := True, g_server_thread := Some port\<rparr>))"

definition native_update_socks5_bind_addrs :: "jstr list option \<Rightarrow> jni \<Rightarrow> string \<times> jni" where
  "native_update_socks5_bind_addrs jaddrs s = (''OK'', s\<lparr>srv := apply_bind_addrs_from_java jaddrs (srv s)\<rparr>)"

definition server_thread_func :: "jni \<Rightarrow> jni" where
  "server_thread_func s =
     (case g_server_thread s of
        None \<Rightarrow> s
      | Some port \<Rightarrow>
          (case socks5_server_main_dynamic (srv s) of (rc, v) \<Rightarrow>
             let s1 = s\<lparr>srv := v, g_server_thread := None\<rparr> in
             if rc \<noteq> 0 then s1\<lparr>g_server_running := False\<rparr> else s1\<lparr>listener_thread := Some port\<rparr>))"

text \<open>The listener thread up to its loop.\<close>

definition listener_begin :: "jni \<Rightarrow> jni" where
  "listener_begin s =
     (case listener_thread s of
        None \<Rightarrow> s
      | Some port \<Rightarrow>
          (case listener_start port (srv s) of (ok, v) \<Rightarrow>
             s\<lparr>srv := v, listener_thread := None, threads_up := (if ok then Some port else None)\<rparr>))"

text \<open>\<open>socks5_server_quit\<close> with its joins: past the early return, all threads are joined.\<close>

definition quit_threads :: "jni \<Rightarrow> jni option" where
  "quit_threads s =
     (if \<not> server_running (srv s) then Some s
      else case threads_up s of
        None \<Rightarrow> None
      | Some port \<Rightarrow>
          (case socks5_server_quit (srv s) of
             None \<Rightarrow> None
           | Some v \<Rightarrow> Some (s\<lparr>srv := v, threads_up := None\<rparr>)))"

definition native_stop_socks5_server :: "jni \<Rightarrow> (string \<times> jni) option" where
  "native_stop_socks5_server s =
     (if \<not> g_server_running s then Some (''Not running'', s)
      else case quit_threads s of
        None \<Rightarrow> None
      | Some s1 \<Rightarrow> Some (''Stopped'', (server_thread_func s1)\<lparr>g_server_running := False\<rparr>))"

definition native_set_socks5_auth :: "jstr \<Rightarrow> jstr \<Rightarrow> jni \<Rightarrow> string \<times> jni" where
  "native_set_socks5_auth user pass s =
     (let cuser = java_chars user; cpass = java_chars pass in
      (''OK'', s\<lparr>srv := socks5_server_set_auth (Some (case cuser of None \<Rightarrow> [] | Some u \<Rightarrow> u))
                            (Some (case cpass of None \<Rightarrow> [] | Some p \<Rightarrow> p)) (srv s)\<rparr>))"

definition native_is_socks5_server_running :: "jni \<Rightarrow> bool" where
  "native_is_socks5_server_running s = socks5_server_is_running (srv s)"

definition native_get_traffic_bytes :: "jni \<Rightarrow> int \<times> int" where
  "native_get_traffic_bytes s = socks5_server_get_bytes (srv s)"

definition native_set_udp_verbose_log :: "bool \<Rightarrow> jni \<Rightarrow> jni" where
  "native_set_udp_verbose_log on s = s\<lparr>srv := socks5_server_set_udp_verbose_log on (srv s)\<rparr>"

end
