(* ===== verification/Jni_Props.thy ===== *)
theory Jni_Props
  imports Jni_Bridge
begin

text \<open>
  The bridge over any number of starts and stops: the step relation of the entry points and threads,
  its invariant, what a stop guarantees, and what it does when it comes too early.
\<close>

section \<open>Steps\<close>

inductive jni_step :: "jni \<Rightarrow> jni \<Rightarrow> bool" where
  start: "native_start_socks5_server port jaddrs s = (msg, t) \<Longrightarrow> jni_step s t"
| stop: "native_stop_socks5_server s = Some (msg, t) \<Longrightarrow> drain_ok HANDSHAKE_QUEUE_SIZE (quit_begin (srv s)) \<Longrightarrow> jni_step s t"
| update: "native_update_socks5_bind_addrs jaddrs s = (msg, t) \<Longrightarrow> jni_step s t"
| auth: "native_set_socks5_auth user pass s = (msg, t) \<Longrightarrow> jni_step s t"
| verbose: "jni_step s (native_set_udp_verbose_log on s)"
| register: "jni_step s (native_register_instance thiz mids s)"
| thread: "jni_step s (server_thread_func s)"
| listen: "jni_step s (listener_begin s)"
| serve: "threads_up s = Some port \<Longrightarrow> serve_step port (srv s) v \<Longrightarrow> jni_step s (s\<lparr>srv := v\<rparr>)"
| world: "threads_up s = None \<Longrightarrow> jni_step s (s\<lparr>srv := (srv s)\<lparr>k_pipe := b1, k_epoll := b2, o_socket := b3, k_bind := b4, k_listen := b5\<rparr>\<rparr>)"

definition jni_idle :: "jni \<Rightarrow> bool" where
  "jni_idle s \<longleftrightarrow> \<not> g_server_running s \<and> g_server_thread s = None \<and> listener_thread s = None \<and> threads_up s = None \<and>
     \<not> server_running (srv s) \<and> auth_wf (srv s) \<and> bind_wf (srv s) \<and> no_extra_workers (srv s)"


section \<open>The invariant\<close>

definition jni_inv :: "jni \<Rightarrow> bool" where
  "jni_inv s \<longleftrightarrow> auth_wf (srv s) \<and> bind_wf (srv s) \<and> (g_server_thread s \<noteq> None \<longrightarrow> g_server_running s) \<and>
     (case threads_up s of
        Some port \<Rightarrow> served port (srv s) \<and> listener_thread s = None
      | None \<Rightarrow> no_extra_workers (srv s) \<and> (listener_thread s \<noteq> None \<longrightarrow> server_running (srv s) \<and> g_conn_count (srv s) = 0))"

text \<open>A change of the configuration, whatever the server is doing.\<close>

lemma jni_inv_config:
  assumes "jni_inv s" and "\<And>port. serve_step port (srv s) v" and "auth_wf v" and "bind_wf v"
    and "server_running v = server_running (srv s)" and "g_conn_count v = g_conn_count (srv s)" and "no_extra_workers v = no_extra_workers (srv s)"
    and "g_server_thread t \<noteq> None \<longrightarrow> g_server_running t"
    and "srv t = v" and "threads_up t = threads_up s" and "listener_thread t = listener_thread s"
  shows "jni_inv t"
  using assms(1,3-) served.more [OF _ assms(2)] by (auto simp: jni_inv_def split: option.splits)

lemma config_frame [frame_simps]:
  "auth_wf (socks5_server_set_auth u p v)" "bind_wf (socks5_server_set_auth u p v) = bind_wf v"
  "server_running (socks5_server_set_auth u p v) = server_running v" "g_conn_count (socks5_server_set_auth u p v) = g_conn_count v"
  "no_extra_workers (socks5_server_set_auth u p v) = no_extra_workers v"
  "auth_wf (socks5_server_set_bind_addrs a v) = auth_wf v" "bind_wf (socks5_server_set_bind_addrs a v)"
  "server_running (socks5_server_set_bind_addrs a v) = server_running v" "g_conn_count (socks5_server_set_bind_addrs a v) = g_conn_count v"
  "no_extra_workers (socks5_server_set_bind_addrs a v) = no_extra_workers v"
  using set_auth_wf [of u p v] set_bind_addrs_wf [of a v]
  by (auto simp: socks5_server_set_auth_def socks5_server_set_bind_addrs_def auth_wf_def bind_wf_def no_extra_workers_def split: option.split)

lemma listener_start_failed:
  assumes "bind_wf s" and "listener_start port s = (False, t)"
  shows "auth_wf t = auth_wf s \<and> bind_wf t = bind_wf s \<and> (no_extra_workers s \<longrightarrow> no_extra_workers t)"
proof (cases "fst (os_pipe s)")
  case None
  then show ?thesis using assms(2) by (auto simp: listener_start_def os_pipe_def auth_wf_def bind_wf_def no_extra_workers_def split: list.splits option.splits)
next
  case (Some p)
  then obtain s1 where p: "os_pipe s = (Some p, s1)" by (metis prod.collapse)
  define s2 where "s2 = (slots_init (s1\<lparr>g_shutdown_pipe := p\<rparr>))\<lparr>g_listeners := []\<rparr>"
  have 2: "auth_wf s2 = auth_wf s" "bind_wf s2 = bind_wf s" "no_extra_workers s2 = no_extra_workers s"
    using p by (auto simp: s2_def slots_init_def os_pipe_def auth_wf_def bind_wf_def no_extra_workers_def split: list.splits)
  have "t = close_pipe ((reconcile_listeners port s2)\<lparr>server_running := False\<rparr>)"
    using assms(2) by (auto simp: listener_start_def p Let_def s2_def split: if_splits)
  moreover have "auth_wf (close_pipe u) = auth_wf u" "bind_wf (close_pipe u) = bind_wf u" "no_extra_workers (close_pipe u) = no_extra_workers u" for u :: "'a server_scheme"
    by (simp_all add: close_pipe_def Let_def os_close_def log_ev_def auth_wf_def bind_wf_def no_extra_workers_def split: prod.split)
  ultimately show ?thesis using reconcile_lst(1) [of s2 port] assms(1) 2
    by (auto simp: lst_only_def auth_wf_def bind_wf_def no_extra_workers_def tcp_tabs_def udp_tabs_def)
qed

lemma thread_inv: "jni_inv s \<Longrightarrow> jni_inv (server_thread_func s)"
proof (cases "g_server_thread s")
  case (Some port)
  assume i: "jni_inv s"
  obtain rc v where m: "socks5_server_main_dynamic (srv s) = (rc, v)" by force
  show ?thesis
  proof (cases "server_running (srv s)")
    case True
    then have "rc = -1" "v = srv s" using m by (auto simp: socks5_server_main_dynamic_def)
    then show ?thesis using i Some m by (auto simp: server_thread_func_def jni_inv_def split: option.splits)
  next
    case False
    then have rc: "rc = 0" using main_dynamic_gate [of "srv s"] m by simp
    then have "threads_up s = None" using i False served_running by (auto simp: jni_inv_def split: option.splits)
    then show ?thesis using i Some m rc main_dynamic_frame [of "srv s" v] by (simp add: server_thread_func_def jni_inv_def)
  qed
qed (simp add: server_thread_func_def)

lemma listen_inv: "jni_inv s \<Longrightarrow> jni_inv (listener_begin s)"
proof (cases "listener_thread s")
  case (Some port)
  assume i: "jni_inv s"
  obtain ok v where l: "listener_start port (srv s) = (ok, v)" by force
  have up: "threads_up s = None" "no_extra_workers (srv s)" "server_running (srv s)" "g_conn_count (srv s) = 0" "auth_wf (srv s)" "bind_wf (srv s)"
    using i Some by (auto simp: jni_inv_def split: option.splits)
  show ?thesis
  proof (cases ok)
    case True
    then have "served port v" using served.started [of "srv s" port v] up l by simp
    then show ?thesis using i Some l True served_inv [of port v] by (auto simp: listener_begin_def jni_inv_def typed_def)
  next
    case False
    then show ?thesis using i Some l up listener_start_failed [of "srv s" port v] by (simp add: listener_begin_def jni_inv_def)
  qed
qed (simp add: listener_begin_def)

text \<open>What a stop does when the threads are up.\<close>

lemma quit_threads_up:
  assumes "jni_inv s" and "threads_up s = Some port" and "drain_ok HANDSHAKE_QUEUE_SIZE (quit_begin (srv s))"
  shows "\<exists>v. quit_threads s = Some (s\<lparr>srv := v, threads_up := None\<rparr>) \<and> auth_wf v \<and> bind_wf v \<and> no_extra_workers v \<and>
    \<not> server_running v \<and> g_listeners v = [] \<and> pool_queue (g_handshake_pool v) = [] \<and> g_shutdown_pipe v = (-1, -1) \<and> active_count v = 0 \<and>
    (\<exists>l. o_log v = o_log (srv s) @ concat (map (closings True) (g_listeners (srv s))) @ l) \<and> (\<forall>ip. canonical ip v = canonical ip (srv s))"
proof -
  have s: "served port (srv s)" using assms(1,2) by (simp add: jni_inv_def)
  obtain L M X where j: "joint_inv (srv s) L M X" and ty: "typed (srv s)" using served_inv [OF s] by blast
  from quit_outcome [OF j ty served_running [OF s] assms(3)] obtain v where
    v: "socks5_server_quit (srv s) = Some v" "joint_inv v (\<lambda>_. []) (\<lambda>_. []) X" "typed v" "\<not> server_running v"
    "g_listeners v = []" "pool_queue (g_handshake_pool v) = []" "g_shutdown_pipe v = (-1, -1)"
    "\<exists>l. o_log v = o_log (srv s) @ concat (map (closings True) (g_listeners (srv s))) @ l" "\<forall>ip. canonical ip v = canonical ip (srv s)" by blast
  then show ?thesis using assms(2) served_running [OF s] joint_empty [OF v(2)] by (intro exI [of _ v]) (simp add: quit_threads_def typed_def)
qed

lemma jni_step_inv:
  assumes "jni_step s t" and i: "jni_inv s"
  shows "jni_inv t"
  using assms(1)
proof cases
  case (start port jaddrs msg)
  show ?thesis
  proof (cases "g_server_running s")
    case False
    show ?thesis by (rule jni_inv_config [OF i serve_step.bind])
        (use start False i in \<open>auto simp: native_start_socks5_server_def apply_bind_addrs_from_java_def frame_simps jni_inv_def\<close>)
  qed (use start i in \<open>simp add: native_start_socks5_server_def\<close>)
next
  case (stop msg)
  show ?thesis
  proof (cases "g_server_running s")
    case True
    then obtain s1 where q: "quit_threads s = Some s1" "t = (server_thread_func s1)\<lparr>g_server_running := False\<rparr>"
      using stop(1) by (auto simp: native_stop_socks5_server_def split: option.splits)
    have i1: "jni_inv s1"
    proof (cases "server_running (srv s)")
      case True
      then obtain port where up: "threads_up s = Some port" using q(1) by (auto simp: quit_threads_def split: option.splits)
      from quit_threads_up [OF i up stop(2)] q(1) i show ?thesis by (auto simp: jni_inv_def up)
    qed (use q(1) i in \<open>simp add: quit_threads_def\<close>)
    have "g_server_thread (server_thread_func s1) = None"
      by (auto simp: server_thread_func_def Let_def split: option.split prod.split)
    then show ?thesis using thread_inv [OF i1] q(2) by (simp add: jni_inv_def split: option.splits)
  qed (use stop i in \<open>simp add: native_stop_socks5_server_def\<close>)
next
  case (update jaddrs msg)
  show ?thesis by (rule jni_inv_config [OF i serve_step.bind])
      (use update i in \<open>auto simp: native_update_socks5_bind_addrs_def apply_bind_addrs_from_java_def frame_simps jni_inv_def\<close>)
next
  case (auth user pass msg)
  show ?thesis by (rule jni_inv_config [OF i serve_step.auth])
      (use auth i in \<open>auto simp: native_set_socks5_auth_def Let_def frame_simps jni_inv_def\<close>)
next
  case (verbose on)
  show ?thesis by (rule jni_inv_config [OF i serve_step.verbose])
      (use verbose i in \<open>auto simp: native_set_udp_verbose_log_def socks5_server_set_udp_verbose_log_def auth_wf_def bind_wf_def no_extra_workers_def jni_inv_def\<close>)
next
  case (register thiz mids)
  have "srv t = srv s" "g_server_thread t = g_server_thread s" "g_server_running t = g_server_running s"
    "listener_thread t = listener_thread s" "threads_up t = threads_up s"
    unfolding register by (simp_all add: native_register_instance_def Let_def split: prod.split)
  then show ?thesis using i by (simp add: jni_inv_def split: option.splits)
next
  case thread
  then show ?thesis using thread_inv [OF i] by simp
next
  case listen
  then show ?thesis using listen_inv [OF i] by simp
next
  case (serve port v)
  then have "served port v" using i served.more by (auto simp: jni_inv_def)
  then show ?thesis using i serve served_inv [of port v] by (auto simp: jni_inv_def typed_def)
next
  case (world b1 b2 b3 b4 b5)
  then show ?thesis using i by (simp add: jni_inv_def auth_wf_def bind_wf_def no_extra_workers_def)
qed


section \<open>A stop in time\<close>



section \<open>A stop that comes too early\<close>

text \<open>
  A stop that comes after the server thread and before the listener thread has brought up the workers
  joins threads that do not exist.
\<close>

lemma early_stop_joins_nothing:
  assumes "jni_idle s"
  shows "native_stop_socks5_server (server_thread_func (snd (native_start_socks5_server port jaddrs s))) = None"
proof -
  let ?v = "apply_bind_addrs_from_java jaddrs (srv s)"
  have n: "\<not> server_running ?v" using assms by (simp add: apply_bind_addrs_from_java_def frame_simps jni_idle_def)
  then obtain w where m: "socks5_server_main_dynamic ?v = (0, w)" using main_dynamic_gate [of ?v] by (metis prod.collapse)
  show ?thesis using assms m main_dynamic_frame(2) [OF m]
    by (simp add: native_start_socks5_server_def native_stop_socks5_server_def quit_threads_def server_thread_func_def jni_idle_def)
qed

text \<open>
  What can follow: any calls of the service and any steps of the threads, in any order, in which a
  listener thread that starts up does find an address to listen on.
\<close>

definition finds_address :: "jni \<Rightarrow> bool" where
  "finds_address s \<longleftrightarrow> (\<forall>port. listener_thread s = Some port \<longrightarrow> server_running (snd (listener_start port (srv s))))"

inductive follows :: "jni \<Rightarrow> jni \<Rightarrow> bool" for s where
  here: "follows s s"
| later: "follows s t \<Longrightarrow> jni_step t u \<Longrightarrow> (u = listener_begin t \<longrightarrow> finds_address t) \<Longrightarrow> follows s u"

text \<open>A running server that the bridge does not know of, unless a start is pending.\<close>

definition orphaned :: "jni \<Rightarrow> bool" where
  "orphaned s \<longleftrightarrow> server_running (srv s) \<and> (g_server_running s \<longrightarrow> g_server_thread s \<noteq> None)"

lemma orphaned_thread: "server_running (srv s) \<Longrightarrow> orphaned (server_thread_func s) \<or> g_server_thread s = None \<and> server_thread_func s = s"
  by (cases "g_server_thread s") (simp_all add: server_thread_func_def socks5_server_main_dynamic_def orphaned_def)

lemma orphaned_stop:
  assumes o: "orphaned s" and i: "jni_inv s" and st: "native_stop_socks5_server s = Some (msg, t)"
    and ok: "drain_ok HANDSHAKE_QUEUE_SIZE (quit_begin (srv s))"
  shows "server_running (srv t) \<and> \<not> g_server_running t"
proof (cases "g_server_running s")
  case True
  then obtain port' where p: "g_server_thread s = Some port'" using o by (auto simp: orphaned_def)
  obtain s1 where q: "quit_threads s = Some s1" "t = (server_thread_func s1)\<lparr>g_server_running := False\<rparr>"
    using st True by (auto simp: native_stop_socks5_server_def split: option.splits)
  then obtain port where up: "threads_up s = Some port" using o by (auto simp: quit_threads_def orphaned_def split: option.splits)
  from quit_threads_up [OF i up ok] q(1) obtain v where v: "s1 = s\<lparr>srv := v, threads_up := None\<rparr>" "\<not> server_running v" by auto
  obtain w where m: "socks5_server_main_dynamic v = (0, w)" using main_dynamic_gate [of v] v(2) by (metis prod.collapse)
  then show ?thesis using q(2) v(1) p main_dynamic_frame(2) [OF m] by (simp add: server_thread_func_def)
next
  case False
  then show ?thesis using st o by (auto simp: native_stop_socks5_server_def orphaned_def)
qed

lemma orphaned_step:
  assumes o: "orphaned s" and i: "jni_inv s" and st: "jni_step s t" and f: "t = listener_begin s \<longrightarrow> finds_address s"
  shows "orphaned t"
  using st
proof cases
  case (start port jaddrs msg)
  then show ?thesis using o
    by (auto simp: native_start_socks5_server_def orphaned_def apply_bind_addrs_from_java_def frame_simps split: if_splits)
next
  case (stop msg)
  from orphaned_stop [OF o i this] show ?thesis by (simp add: orphaned_def)
next
  case thread
  then show ?thesis using o orphaned_thread [of s] by (auto simp: orphaned_def)
next
  case listen
  then show ?thesis using o f
    by (cases "listener_thread s") (auto simp: listener_begin_def orphaned_def finds_address_def split: prod.splits)
next
  case (serve port v)
  then have "served port (srv s)" using i by (simp add: jni_inv_def)
  then show ?thesis using serve_step_running [OF serve(3)] served_inv o serve(1) by (auto simp: orphaned_def)
next
  case (register thiz mids)
  have "srv t = srv s" "g_server_thread t = g_server_thread s" "g_server_running t = g_server_running s"
    unfolding register by (simp_all add: native_register_instance_def Let_def split: prod.split)
  then show ?thesis using o by (simp add: orphaned_def)
qed (use o in \<open>auto simp: native_update_socks5_bind_addrs_def native_set_socks5_auth_def native_set_udp_verbose_log_def Let_def
    apply_bind_addrs_from_java_def orphaned_def frame_simps socks5_server_set_udp_verbose_log_def\<close>)

lemma orphaned_follows: "follows s t \<Longrightarrow> orphaned s \<Longrightarrow> jni_inv s \<Longrightarrow> orphaned t \<and> jni_inv t"
  by (induction rule: follows.induct) (use orphaned_step jni_step_inv in blast)+

text \<open>
  C10. A stop that overtakes the server thread leaves a server running that no call can bring to rest any more. When
  the service is started and stopped before the new thread has run, the stop waits for that thread,
  which starts the server, and then answers "Stopped" with the bridge's flag off, while the server runs and
  will listen. From then on, whatever calls of the service and steps of the threads follow, as long as a
  listener thread finds an address to listen on, a server is running: a stop with the flag off answers "Not
  running" and changes nothing, and a stop that does answer "Stopped" (one right after a further start)
  quits that server only to have the pending thread start another one, with the flag off again. A start
  whose thread does run first changes the bind addresses and nothing else. When the first stop comes a little later, after the server
  thread and before the listener thread has brought up the workers, it joins threads that do not
  exist (\<open>None\<close>).
\<close>

theorem early_stop_orphans_server:
  assumes "jni_idle s"
  shows "(\<exists>t. native_stop_socks5_server (snd (native_start_socks5_server port jaddrs s)) = Some (''Stopped'', t) \<and>
    native_is_socks5_server_running t \<and> listener_thread t = Some port \<and>
    native_stop_socks5_server t = Some (''Not running'', t) \<and>
    (\<forall>u. follows t u \<longrightarrow> native_is_socks5_server_running u \<and>
       (\<not> g_server_running u \<longrightarrow> native_stop_socks5_server u = Some (''Not running'', u)) \<and>
       (\<forall>msg v. native_stop_socks5_server u = Some (msg, v) \<longrightarrow> drain_ok HANDSHAKE_QUEUE_SIZE (quit_begin (srv u)) \<longrightarrow>
          native_is_socks5_server_running v \<and> \<not> g_server_running v)) \<and>
    (\<forall>port' jaddrs'. let u = server_thread_func (snd (native_start_socks5_server port' jaddrs' t)) in
       fst (native_start_socks5_server port' jaddrs' t) = ''Started'' \<and> \<not> g_server_running u \<and>
       srv u = apply_bind_addrs_from_java jaddrs' (srv t) \<and> listener_thread u = Some port \<and>
       native_is_socks5_server_running u \<and> native_stop_socks5_server u = Some (''Not running'', u))) \<and>
    native_stop_socks5_server (server_thread_func (snd (native_start_socks5_server port jaddrs s))) = None"
proof -
  let ?v = "apply_bind_addrs_from_java jaddrs (srv s)"
  have n: "\<not> server_running ?v" using assms by (simp add: apply_bind_addrs_from_java_def frame_simps jni_idle_def)
  then obtain w where m: "socks5_server_main_dynamic ?v = (0, w)" using main_dynamic_gate [of ?v] by (metis prod.collapse)
  note r = main_dynamic_frame [OF m]
  let ?t = "s\<lparr>srv := w, listener_thread := Some port\<rparr>"
  have t: "native_stop_socks5_server (snd (native_start_socks5_server port jaddrs s)) = Some (''Stopped'', ?t)"
    using assms n m by (simp add: native_start_socks5_server_def native_stop_socks5_server_def quit_threads_def server_thread_func_def jni_idle_def)
  have it: "jni_inv ?t" "orphaned ?t"
    using assms r(2-6) by (simp_all add: jni_inv_def orphaned_def jni_idle_def apply_bind_addrs_from_java_def frame_simps)
  have run: "native_is_socks5_server_running u" "\<not> g_server_running u \<longrightarrow> native_stop_socks5_server u = Some (''Not running'', u)"
    "native_stop_socks5_server u = Some (msg, v) \<Longrightarrow> drain_ok HANDSHAKE_QUEUE_SIZE (quit_begin (srv u)) \<Longrightarrow>
       native_is_socks5_server_running v \<and> \<not> g_server_running v" if "follows ?t u" for u msg v
    using orphaned_follows [OF that it(2,1)] orphaned_stop [of u msg v]
    by (auto simp: orphaned_def native_is_socks5_server_running_def socks5_server_is_running_def native_stop_socks5_server_def)
  have "server_running (apply_bind_addrs_from_java a w)" for a using r(2) by (simp add: apply_bind_addrs_from_java_def frame_simps)
  then have "socks5_server_main_dynamic (apply_bind_addrs_from_java a w) = (-1, apply_bind_addrs_from_java a w)" for a
    by (simp add: socks5_server_main_dynamic_def)
  then have again: "let u = server_thread_func (snd (native_start_socks5_server port' jaddrs' ?t)) in
       fst (native_start_socks5_server port' jaddrs' ?t) = ''Started'' \<and> \<not> g_server_running u \<and>
       srv u = apply_bind_addrs_from_java jaddrs' (srv ?t) \<and> listener_thread u = Some port \<and>
       native_is_socks5_server_running u \<and> native_stop_socks5_server u = Some (''Not running'', u)" for port' jaddrs'
    using r(2) assms by (auto simp: native_start_socks5_server_def native_stop_socks5_server_def server_thread_func_def jni_idle_def
        native_is_socks5_server_running_def socks5_server_is_running_def Let_def apply_bind_addrs_from_java_def frame_simps)
  have now: "native_is_socks5_server_running ?t" "native_stop_socks5_server ?t = Some (''Not running'', ?t)"
    using r(2) assms by (simp_all add: native_is_socks5_server_running_def socks5_server_is_running_def native_stop_socks5_server_def jni_idle_def)
  show ?thesis
    by (intro conjI [OF _ early_stop_joins_nothing [OF assms]] exI [of _ ?t]) (use t now run again in \<open>auto simp: Let_def\<close>)
qed

section \<open>Addresses and answers\<close>

lemma next_addrs_texts:
  "next_addrs (map Some xs) n = take (MAX_BIND_ADDRS - n) (map (str_bounded INET6_ADDRSTRLEN) (filter (\<lambda>c. c \<noteq> []) xs))"
proof (induction xs arbitrary: n)
  case (Cons x xs)
  show ?case
  proof (cases "n < MAX_BIND_ADDRS")
    case True
    then obtain k where "MAX_BIND_ADDRS - n = Suc k" "MAX_BIND_ADDRS - (n + 1) = k" by (metis Suc_diff_Suc Suc_eq_plus1)
    then show ?thesis using Cons.IH [of n] Cons.IH [of "n + 1"] True by simp
  qed simp
qed simp

text \<open>
  The bind addresses in force after an update are exactly the texts of the first 32 entries of the
  Java array that are not null and not empty, cut to 16 of them and each to the buffer of an address,
  in the order of the array; nothing else of the server changes, so no listener or connection is
  touched before the next round of the listener thread.
\<close>

theorem update_addrs_exact:
  "native_update_socks5_bind_addrs jaddrs s =
     (''OK'', s\<lparr>srv := (srv s)\<lparr>g_bind_addrs :=
        take MAX_BIND_ADDRS (map (str_bounded INET6_ADDRSTRLEN) (filter (\<lambda>c. c \<noteq> []) (addr_texts_of jaddrs)))\<rparr>\<rparr>)"
  by (simp add: native_update_socks5_bind_addrs_def apply_bind_addrs_from_java_def socks5_server_set_bind_addrs_def next_addrs_texts)

text \<open>The resolver of \<open>jni_bridge.c\<close> reports success exactly with a text that fits its buffer and is not empty.\<close>

lemma resolve_host_answer:
  "request_java_resolve_host v jhost exc jres n s = (rc, out) \<Longrightarrow> (rc = 0 \<longleftrightarrow> out \<noteq> []) \<and> (0 < n \<longrightarrow> length out < n)"
  by (auto simp: request_java_resolve_host_def Let_def str_bounded_def split: if_splits prod.splits option.splits)

text \<open>Once registered with all methods, the bridge keeps its reference and method identifiers.\<close>

lemma registration_is_final:
  assumes "g_native_engine_instance s = Some x" and "g_mid_createSocket s" and "g_mid_notifyClosed s" and "g_mid_resolveHost s"
  shows "native_register_instance thiz mids s = s\<lparr>g_jvm := True\<rparr>"
  using assms by (simp add: native_register_instance_def Let_def)

section \<open>A service on a local network\<close>

definition lan_jni :: jni where
  "lan_jni = \<lparr>g_jvm = True, g_native_engine_instance = Some 1, g_mid_createSocket = True, g_mid_notifyClosed = True,
     g_mid_resolveHost = True, g_server_running = False, g_server_thread = None, listener_thread = None, threads_up = None,
     srv = lan_boot [Some (40, 41)]\<rparr>"

lemma lan_jni_idle: "jni_idle lan_jni"
  using lan_boot_ready by (simp add: jni_idle_def lan_jni_def)




theorem early_stop_orphans_server_witness:
  "\<exists>t. native_stop_socks5_server (snd (native_start_socks5_server 1080 None lan_jni)) = Some (''Stopped'', t) \<and>
     (\<forall>u. follows t u \<longrightarrow> native_is_socks5_server_running u)"
  using early_stop_orphans_server [OF lan_jni_idle, of 1080 None] by blast

end
