(* ===== verification/Server_Stats.thy ===== *)
theory Server_Stats
  imports Jni_Props
begin

text \<open>
  The diagnostic texts of \<open>simple-socks5.c\<close> and their way through \<open>jni_bridge.c\<close>. A text is the
  string \<open>snprintf\<close> would print without a limit, cut to the buffer; \<open>%d\<close> and \<open>%lld\<close> print the decimal
  digits of the counter.
\<close>

section \<open>Printing\<close>

definition digit :: "nat \<Rightarrow> char" where
  "digit n = char_of (48 + n)"

fun dec_nat :: "nat \<Rightarrow> string" where
  "dec_nat n = (if n < 10 then [digit n] else dec_nat (n div 10) @ [digit (n mod 10)])"

declare dec_nat.simps [simp del]

definition dec :: "int \<Rightarrow> string" where
  "dec i = (if i < 0 then ''-'' @ dec_nat (nat (- i)) else dec_nat (nat i))"

definition fields_text :: "(string \<times> int) list \<Rightarrow> string" where
  "fields_text fs = concat (map (\<lambda>(l, v). l @ dec v) fs)"

text \<open>\<open>snprintf(out, out_len, ...)\<close>; the functions return \<open>-1\<close> and write nothing without a buffer.\<close>

definition snprintf_text :: "nat \<Rightarrow> string \<Rightarrow> string option" where
  "snprintf_text out_len text = (if out_len = 0 then None else Some (take (out_len - 1) text))"

section \<open>The three reports\<close>

definition ghost_purge_get_count :: "'a ghost_scheme \<Rightarrow> int" where
  "ghost_purge_get_count s = g_ghost_purged s"

definition stats_fields :: "'a server_scheme \<Rightarrow> (string \<times> int) list" where
  "stats_fields s =
     [(''conns='', g_conn_count s), ('' acquired='', g_st_acquired s), ('' released='', g_st_released s),
      ('' stale_skip='', g_st_stale_skip s), ('' bad_slot='', g_st_bad_slot s), ('' exhausted='', g_st_exhausted s),
      ('' purged='', ghost_purge_get_count s), ('' auth_fail='', g_st_auth_fail s), ('' conn_fail='', g_st_conn_fail s)]"

definition socks5_server_get_stats :: "nat \<Rightarrow> 'a server_scheme \<Rightarrow> string option" where
  "socks5_server_get_stats out_len s =
     snprintf_text out_len (if server_running s then fields_text (stats_fields s) else ''not running'')"

definition dns_fields :: "'a udp_scheme \<Rightarrow> (string \<times> int) list" where
  "dns_fields s =
     [(''enq='', g_dns_st_enqueued s), ('' ok='', g_dns_st_ok s), ('' fail='', g_dns_st_fail s), ('' replay='', g_dns_st_replay s),
      ('' drop='', g_dns_st_drop s), ('' qfull='', g_dns_st_qfull s), ('' jobfull='', g_dns_st_jobfull s), ('' lost='', g_dns_st_lost s)]"

definition socks5_server_get_dns_stats :: "nat \<Rightarrow> 'a udp_scheme \<Rightarrow> string option" where
  "socks5_server_get_dns_stats out_len s = snprintf_text out_len (fields_text (dns_fields s))"

definition close_fields :: "'a udp_scheme \<Rightarrow> (string \<times> int) list" where
  "close_fields s =
     [(''total='', g_udp_close_total s), ('' short='', g_udp_close_short_lived s), ('' idle='', g_udp_close_kind s UDP_CLOSE_IDLE),
      ('' peer='', g_udp_close_kind s UDP_CLOSE_PEER), ('' io='', g_udp_close_kind s UDP_CLOSE_IO),
      ('' proto='', g_udp_close_kind s UDP_CLOSE_PROTO), ('' resource='', g_udp_close_kind s UDP_CLOSE_RESOURCE),
      ('' shutdown='', g_udp_close_kind s UDP_CLOSE_SHUTDOWN), ('' unknown='', g_udp_close_kind s UDP_CLOSE_UNKNOWN),
      ('' verbose='', if g_udp_verbose_log s then 1 else 0)]"

definition socks5_server_get_udp_close_stats :: "nat \<Rightarrow> 'a udp_scheme \<Rightarrow> string option" where
  "socks5_server_get_udp_close_stats out_len s = snprintf_text out_len (fields_text (close_fields s))"

definition native_get_socks5_stats :: "jni \<Rightarrow> string option" where
  "native_get_socks5_stats s = socks5_server_get_stats 512 (srv s)"

definition native_get_dns_stats :: "jni \<Rightarrow> string option" where
  "native_get_dns_stats s = socks5_server_get_dns_stats 256 (srv s)"

definition native_get_udp_close_stats :: "jni \<Rightarrow> string option" where
  "native_get_udp_close_stats s = socks5_server_get_udp_close_stats 256 (srv s)"

section \<open>Reading the digits back\<close>

definition dec_value :: "string \<Rightarrow> nat" where
  "dec_value ds = foldl (\<lambda>a c. 10 * a + (of_char c - 48)) 0 ds"

lemma digit_value: "n < 10 \<Longrightarrow> of_char (digit n) - 48 = n"
  by (simp add: digit_def)

lemma dec_nat_value: "dec_value (dec_nat n) = n"
proof (induction n rule: dec_nat.induct)
  case (1 n)
  show ?case
  proof (cases "n < 10")
    case True
    then show ?thesis by (simp add: dec_nat.simps dec_value_def digit_value)
  next
    case False
    have "dec_value (xs @ [c]) = 10 * dec_value xs + (of_char c - 48)" for xs c by (simp add: dec_value_def)
    then show ?thesis using 1 False digit_value [of "n mod 10"] by (subst dec_nat.simps) simp
  qed
qed

lemma dec_inj: "0 \<le> i \<Longrightarrow> 0 \<le> j \<Longrightarrow> dec i = dec j \<Longrightarrow> i = j"
  by (metis dec_def dec_nat_value linorder_not_less nat_eq_iff)

lemma length_dec_nat: "n < 10 ^ Suc k \<Longrightarrow> length (dec_nat n) \<le> Suc k"
proof (induction k arbitrary: n)
  case 0
  then show ?case by (simp add: dec_nat.simps)
next
  case (Suc k)
  show ?case
  proof (cases "n < 10")
    case False
    have "n div 10 < 10 ^ Suc k" using Suc.prems by (simp add: less_mult_imp_div_less)
    from Suc.IH [OF this] show ?thesis using False by (subst dec_nat.simps) simp
  qed (simp add: dec_nat.simps)
qed

definition printable :: "int \<Rightarrow> bool" where
  "printable v \<longleftrightarrow> 0 \<le> v \<and> v < 10 ^ 18"

lemma length_dec: "printable v \<Longrightarrow> length (dec v) \<le> 18"
  using length_dec_nat [of "nat v" 17] by (simp add: printable_def dec_def nat_less_iff)

lemma length_fields: "\<forall>(l, v) \<in> set fs. printable v \<Longrightarrow>
  length (fields_text fs) \<le> sum_list (map (length \<circ> fst) fs) + 18 * length fs"
proof (induction fs)
  case (Cons f fs)
  obtain l v where f: "f = (l, v)" by force
  have "length (dec v) \<le> 18" using Cons.prems f by (intro length_dec) simp
  then show ?case using Cons by (simp add: fields_text_def f)
qed (simp add: fields_text_def)

text \<open>
  C40. The buffers of the bridge are large enough: as long as no counter has reached \<open>10 ^ 18\<close>, the three
  diagnostic texts arrive in Java complete, with every field.
\<close>

theorem reports_complete:
  assumes "\<forall>(l, v) \<in> set (stats_fields (srv s)) \<union> set (dns_fields (srv s)) \<union> set (close_fields (srv s)). printable v"
  shows "native_get_socks5_stats s = Some (if server_running (srv s) then fields_text (stats_fields (srv s)) else ''not running'') \<and>
    native_get_dns_stats s = Some (fields_text (dns_fields (srv s))) \<and>
    native_get_udp_close_stats s = Some (fields_text (close_fields (srv s)))"
proof -
  have "\<forall>(l, v) \<in> set (stats_fields (srv s)). printable v" "\<forall>(l, v) \<in> set (dns_fields (srv s)). printable v"
    "\<forall>(l, v) \<in> set (close_fields (srv s)). printable v" using assms by blast+
  note l = this [THEN length_fields]
  have "length (fields_text (stats_fields (srv s))) \<le> 511" using l(1) by (rule order_trans) (simp add: stats_fields_def)
  moreover have "length (fields_text (dns_fields (srv s))) \<le> 255" using l(2) by (rule order_trans) (simp add: dns_fields_def)
  moreover have "length (fields_text (close_fields (srv s))) \<le> 255" using l(3) by (rule order_trans) (simp add: close_fields_def)
  ultimately show ?thesis
    by (simp add: native_get_socks5_stats_def native_get_dns_stats_def native_get_udp_close_stats_def socks5_server_get_stats_def
        socks5_server_get_dns_stats_def socks5_server_get_udp_close_stats_def snprintf_text_def)
qed

lemma lan_counters: "v \<in> snd ` (set (stats_fields (srv lan_jni)) \<union> set (dns_fields (srv lan_jni)) \<union> set (close_fields (srv lan_jni))) \<Longrightarrow> v = 0"
  by (simp add: stats_fields_def dns_fields_def close_fields_def lan_jni_def lan_boot_def lan_server_def socks5_server_set_bind_addrs_def
      server_boot_def udp.defs server.defs udp_boot_def tcp.defs ghost_purge_get_count_def tcp_boot_def)

theorem reports_complete_witness:
  "native_get_socks5_stats lan_jni = Some ''not running'' \<and>
   native_get_dns_stats lan_jni = Some ''enq=0 ok=0 fail=0 replay=0 drop=0 qfull=0 jobfull=0 lost=0''"
proof -
  have z: "\<forall>(l, v) \<in> set (stats_fields (srv lan_jni)) \<union> set (dns_fields (srv lan_jni)) \<union> set (close_fields (srv lan_jni)). v = 0"
    using lan_counters by force
  have p: "\<forall>(l, v) \<in> set (stats_fields (srv lan_jni)) \<union> set (dns_fields (srv lan_jni)) \<union> set (close_fields (srv lan_jni)). printable v"
    using lan_counters by (force simp: printable_def)
  have "\<not> server_running (srv lan_jni)" by (simp add: lan_jni_def lan_boot_def)
  moreover have "dec 0 = ''0''" by code_simp
  moreover have "fields_text (dns_fields (srv lan_jni)) = fields_text (map (\<lambda>(l, v). (l, 0)) (dns_fields (srv lan_jni)))"
    using z by (intro arg_cong [where f = fields_text]) (auto simp: dns_fields_def)
  ultimately show ?thesis using reports_complete [OF p] by (simp add: fields_text_def dns_fields_def)
qed

end
