(* ===== verification/Spec2Isabelle.thy ===== *)
theory Spec2Isabelle
  imports Socks5_Protocol Udp_Conn Udp_Dns Tcp_Engine Job_Pool Udp_Delivery Udp_Props Server_Stats
begin

text \<open>
  A verification development of the native engine of 5G-Proxy-Pro: the C code under
  \<open>src/app/src/main/cpp\<close>, a SOCKS5 server that relays TCP and UDP between clients on local networks
  and sockets the Android side opens on the mobile network.

  \<^bold>\<open>The program.\<close> A listener thread accepts clients and puts their descriptors into a bounded ring; a
  pool of handshake threads negotiates SOCKS5 and hands TCP connections to four epoll workers and
  UDP sessions to four others; resolver threads ask the Java side for names; the JNI bridge starts and
  stops everything. The threads share two static slot tables, per-worker lists and one
  connection count. A slot carries a generation, and every epoll event carries slot and generation.

  \<^bold>\<open>Basis.\<close>
  \<^item> \<open>Prelude\<close>: C types, C strings and buffers, list and word facts.
  \<^item> \<open>Os\<close>: the kernel and the Java side as queues of the answers the next calls get, and a log of every
    effect in program order. The theorems hold for all answers.
  \<^item> \<open>Dlist_Heap\<close>: doubly linked lists over slot numbers, as both engines thread them through their slots.
  \<^item> \<open>Ring_Queue\<close> (locale \<open>fifo\<close>), \<open>Slot_Pool\<close> (locale \<open>slot_pool\<close>), \<open>Event_Codec\<close> (locale
    \<open>event_codec\<close>): the contracts that several components share, with their consequences. They are
    interpreted on the handshake ring and the DNS request ring, on both slot tables, and on both event
    encodings.
  \<^item> \<open>Session_Table\<close>: the abstract specification of reference-counted sessions on worker lists, and the locale
    \<open>session_engine\<close>, what an engine owes it; interpreted on the TCP engine and on the UDP engine.

  \<^bold>\<open>Helpers.\<close> \<open>Socks5_Protocol\<close> (\<open>socks5_protocol.c\<close>), \<open>Conn_State\<close> (\<open>conn_state.c\<close>), \<open>Conn_Forward\<close>
  (\<open>conn_forward.c\<close>, \<open>map_fwd_to_epoll\<close>), \<open>Udp_Conn\<close> (\<open>udp_conn.c\<close>), \<open>Udp_Dns\<close> (\<open>udp_dns.c\<close>) and \<open>Ghost_Purge\<close>
  (\<open>ghost_purge.c\<close>) have one definition per function, under its name. They show round trips of the
  encodings, bounds of the parsers and when ghosts are purged.

  \<^bold>\<open>TCP engine\<close> (\<open>simple-socks5.c\<close>: \<open>full_conn_t\<close>, \<open>slot_*\<close>, \<open>list_*_locked\<close>, \<open>try_send\<close>, \<open>worker_loop_safe\<close>,
  \<open>conn_finalize\<close>, \<open>conn_unref\<close>, \<open>handoff_to_worker\<close>).
  \<^item> \<open>Tcp_State\<close>: record \<open>tcp\<close>, slots and lists. \<open>Tcp_Relay\<close>: the data path of one event, and that both
    directions deliver the stream. \<open>Tcp_Worker\<close>: events, timeout scan, garbage, exit, handoff.
  \<^item> \<open>Tcp_Table\<close>: the engine refines \<open>Session_Table\<close>. \<open>Tcp_Invariant\<close>, \<open>Tcp_Engine\<close>: every slot in use is owned once, by a list or by a garbage list, and the
    count agrees; worker turns, handoffs and exits keep it. Two races of the relay are followed through whole
    turns: a half-close that no handler consumes, and a garbage array that outlives its turn.

  \<^bold>\<open>UDP engine\<close> (\<open>udp_conn_t\<close>, \<open>udp_worker_loop\<close>, \<open>udp_start_session\<close> and the resolver functions).
  \<^item> \<open>Udp_State\<close>: record \<open>udp\<close>, which extends \<open>tcp\<close>. \<open>Udp_Resolve\<close>: source comparison, name cache, request ring,
    parked frames. \<open>Udp_Session\<close>: the three event handlers and the reassembly of UDP-in-TCP frames.
    \<open>Udp_Worker\<close>: turns, scan, exit, session start.
  \<^item> \<open>Udp_Session_Props\<close>, \<open>Udp_Delivery\<close>: reassembly refines a reference decoder, replies are whole frames in
    order, only the peer uses a relay. \<open>Udp_Resolve_Props\<close>: ownership of resolutions, cache, ports.
  \<^item> \<open>Udp_Engine\<close> (locale \<open>data_frame\<close> for what the data path cannot touch, interpreted again in \<open>Engines\<close>), \<open>Udp_Life\<close>, \<open>Udp_Start\<close>,
    \<open>Udp_Props\<close>: the engine refines \<open>Session_Table\<close>, and sessions are owned once over their whole life.

  \<^bold>\<open>Server.\<close>
  \<^item> \<open>Job_Pool\<close>: the handshake ring. \<open>Handshake\<close>: record \<open>server\<close>, which extends \<open>udp\<close>; negotiation,
    credentials and dispatch (\<open>handle_handshake_fd\<close>), equivalent to reading a well-formed client message, and every
    client is closed or handed over. \<open>Listener\<close>: \<open>reconcile_listeners\<close> and what it calls; it settles
    when the addresses are written as \<open>inet_ntop\<close> prints them (\<open>canonical\<close>), and leaks a descriptor a round otherwise.
  \<^item> \<open>Engines\<close>: each operation of one engine leaves the tables of the other alone, so both invariants hold
    together (\<open>joint_inv\<close>) and the shared count is the number of slots in use.
  \<^item> \<open>Server\<close>: \<open>socks5_server_main_dynamic\<close>, \<open>listener_task\<close> (\<open>listener_start\<close>, \<open>listener_round\<close>, \<open>listener_exit\<close>)
    and \<open>socks5_server_quit\<close>. \<open>Process\<close>: the serving process as a step relation and its invariant. \<open>Shutdown\<close>:
    the joins of a stop and the descriptors it closes. \<open>Lifecycle\<close>: types and accounts of the serving process, outcomes of
    start and stop; \<open>start_granted\<close> is what the kernel has to give for a start to succeed.
  \<^item> \<open>Jni_Bridge\<close>, \<open>Jni_Props\<close>: \<open>jni_bridge.c\<close> with its own flag and thread, a step relation over any number of
    starts and stops: a stop of a server that is up is complete, and what follows a stop that overtakes
    the start. \<open>Server_Stats\<close>: the diagnostic texts.

  \<^bold>\<open>Concurrency.\<close> A step is one handshake, one worker turn, one resolver action, one listener round or one call of
  the bridge, run to its end; steps interleave freely. Within a step the code holds the lock or owns
  the data, except for the races the properties name: the events of a turn may be stale, slots may be
  reused between turns, a stop may overtake a start. A worker that leaves because the running flag was
  cleared releases the garbage of its last turn once more. \<open>worker_exit\<close> and \<open>udp_worker_exit\<close> take that
  garbage as an argument, and what it does to a slot that was taken again is a property of its own;
  in \<open>socks5_server_quit\<close> every worker is in \<open>epoll_wait\<close>, with \<open>garbage_count\<close> just reset, and leaves by the event of the
  shutdown pipe, so its array is empty.

  \<^bold>\<open>Bounds and fuel.\<close> Walks along a list take the slot count as fuel (\<open>CONN_SLOT_COUNT\<close>, \<open>UDP_SLOT_COUNT\<close>): the
  invariant says that a list has distinct slots, so it ends before. The drain loop of a UDP worker has no
  fuel: it is a partial function whose \<open>None\<close> is an endless loop, and is shown to return. That of a TCP worker takes
  the slot count as fuel and is shown to leave an empty list; the drain of the handshake ring takes its capacity, and
  is shown to leave it empty. Send and receive loops are recursive functions with
  a measure, on the unread bytes or the answers left. Words have their C widths; counters of the statistics are integers.

  \<^bold>\<open>Parameters and assumptions.\<close> \<open>inet_pton\<close> and \<open>inet_ntop\<close> are arguments of the model. Handshakes are considered
  while the two round-robin counters are not negative; what comes after is a property of \<open>pick_worker\<close>. In the
  properties of whole handshakes the Java side does not answer with the descriptor of the client itself.

  \<^bold>\<open>Not modelled.\<close> Log lines and the time stamps that limit them, \<open>usleep\<close>, socket options without an effect on
  the results, JNI local references and thread attachment; memory models weaker than interleaving; the
  Kotlin application, which reaches the engine only through the bridge; host tests, tools, build files and assets.
\<close>

end
